(* ===== verification/Prelude.thy ===== *)
theory Prelude
  imports Main
begin

text \<open>
  Shared vocabulary of the development: the result type of C code that may run into undefined
  behaviour or never return, two's complement integers at the width of the target, and the
  collections of simplification rules the component theories add to.

  The target is the 32-bit ARM board of the repository's build (\<^verbatim>\<open>init-beagleboard.rc\<close>):
  \<^verbatim>\<open>int\<close> and \<^verbatim>\<open>long\<close> have 32 bits. A C integer is an \<^typ>\<open>int\<close> kept in range by
  \<open>cint\<close> wherever the source computes with it.
\<close>

named_theorems c_simps \<open>rewrite rules for the C-level result type\<close>
named_theorems wrap_simps \<open>rules that compute with 32-bit values\<close>

section \<open>Results of C code\<close>

text \<open>
  \<open>Inl\<close> is the reason the call does not return a value: a NULL pointer is read
  (\<open>NullDeref\<close>), a local variable is used before it is assigned (\<open>UninitRead\<close>), an
  array is indexed or filled beyond its size (\<open>OutOfBounds\<close>), a pointer to a dead stack
  object is read (\<open>Dangling\<close>), an \<^verbatim>\<open>assert\<close> fails (\<open>AssertFail\<close>), a value is
  shifted by a negative amount or by its width or more (\<open>BadShift\<close>), or the thread waits for
  an event that never comes (\<open>Blocked\<close>).
\<close>

datatype c_fault = NullDeref | UninitRead | OutOfBounds | Dangling | AssertFail | BadShift | Blocked

type_synonym 'a c_result = "c_fault + 'a"

fun and_then :: "'a c_result \<Rightarrow> ('a \<Rightarrow> 'b c_result) \<Rightarrow> 'b c_result" where
  "and_then (Inl f) k = Inl f"
| "and_then (Inr x) k = k x"

lemma and_then_Inr_iff [c_simps]:
  "and_then m k = Inr y \<longleftrightarrow> (\<exists>x. m = Inr x \<and> k x = Inr y)"
  by (cases m) auto

lemma and_then_Inl_iff [c_simps]:
  "and_then m k = Inl f \<longleftrightarrow> m = Inl f \<or> (\<exists>x. m = Inr x \<and> k x = Inl f)"
  by (cases m) auto

lemma and_then_assoc: "and_then (and_then m f) g = and_then m (\<lambda>x. and_then (f x) g)"
  by (cases m) auto

text \<open>For symbolic evaluation: the first computation is evaluated before the second is touched.\<close>

lemma and_then_weak_cong: "m = m' \<Longrightarrow> and_then m f = and_then m' f"
  by simp

lemma and_then_cong [fundef_cong]:
  "m = m' \<Longrightarrow> (\<And>x. m' = Inr x \<Longrightarrow> k x = k' x) \<Longrightarrow> and_then m k = and_then m' k'"
  by (cases m') auto

text \<open>Reading through a pointer that may be NULL.\<close>

fun deref :: "'a option \<Rightarrow> 'a c_result" where
  "deref None = Inl NullDeref"
| "deref (Some x) = Inr x"

lemma deref_Inr_iff [c_simps]: "deref p = Inr x \<longleftrightarrow> p = Some x"
  by (cases p) auto

lemma deref_Inl_iff [c_simps]: "deref p = Inl f \<longleftrightarrow> p = None \<and> f = NullDeref"
  by (cases p) auto

section \<open>32-bit integers\<close>

definition INT_MAX :: int where "INT_MAX = 2147483647"
definition INT_MIN :: int where "INT_MIN = -2147483648"
definition UINT_MAX :: int where "UINT_MAX = 4294967295"

definition cint :: "int \<Rightarrow> int" where
  "cint x = (x + 2147483648) mod 4294967296 - 2147483648"

definition in_int :: "int \<Rightarrow> bool" where
  "in_int x \<longleftrightarrow> INT_MIN \<le> x \<and> x \<le> INT_MAX"

lemma in_int_cint [simp, wrap_simps]: "in_int (cint x)"
  by (simp add: in_int_def cint_def INT_MIN_def INT_MAX_def)

lemma cint_id [wrap_simps]: "in_int x \<Longrightarrow> cint x = x"
  by (simp add: in_int_def cint_def INT_MIN_def INT_MAX_def)

lemma cint_idem [simp]: "cint (cint x) = cint x"
  by (simp add: cint_id)

lemma in_int_0 [simp]: "in_int 0"
  by (simp add: in_int_def INT_MIN_def INT_MAX_def)

section \<open>Lists\<close>

lemma dropWhile_not_hd: "xs \<noteq> [] \<Longrightarrow> \<not> P (hd xs) \<Longrightarrow> dropWhile P xs = xs"
  by (cases xs) auto

lemma takeWhile_append_stop:
  "\<forall>x \<in> set xs. P x \<Longrightarrow> \<not> P y \<Longrightarrow> takeWhile P (xs @ y # ys) = xs"
  by (induction xs) auto

lemma dropWhile_append_stop:
  "\<forall>x \<in> set xs. P x \<Longrightarrow> \<not> P y \<Longrightarrow> dropWhile P (xs @ y # ys) = y # ys"
  by (induction xs) auto

lemma length_takeWhile_less: "\<exists>x \<in> set xs. \<not> P x \<Longrightarrow> length (takeWhile P xs) < length xs"
  by (induction xs) auto

lemma length_take_drop_While: "length (takeWhile P xs) + length (dropWhile P xs) = length xs"
  by (metis length_append takeWhile_dropWhile_id)

end
