(* ===== verification/AtTime.thy ===== *)
theory AtTime
  imports Prelude
begin

text \<open>
  The two functions of \<^verbatim>\<open>fwril-100/atchannel.c\<close> that compute with times: the end of a wait with a time
  limit, on builds without \<^verbatim>\<open>pthread_cond_timeout_np\<close>, and the pause of the handshake.
\<close>

record timespec =
  tv_sec :: int
  tv_nsec :: int

definition nanoseconds :: "timespec \<Rightarrow> int" where
  "nanoseconds ts = tv_sec ts * 1000000000 + tv_nsec ts"

text \<open>\<open>sec\<close> and \<open>usec\<close> are what \<^verbatim>\<open>gettimeofday\<close> returns; \<^verbatim>\<open>time_t\<close> and \<^verbatim>\<open>long\<close> have 32 bits.\<close>

definition setTimespecRelative :: "int \<Rightarrow> int \<Rightarrow> nat \<Rightarrow> timespec" where
  "setTimespecRelative sec usec msec =
     \<lparr>tv_sec = cint (sec + int msec div 1000),
      tv_nsec = cint ((usec + (int msec mod 1000) * 1000) * 1000)\<rparr>"

text \<open>
  The loop around \<^verbatim>\<open>nanosleep\<close>: an interrupted call leaves the remaining time in its argument. The
  result is the time slept in all, in nanoseconds.
\<close>

fun sleep_loop :: "timespec \<Rightarrow> timespec list \<Rightarrow> int" where
  "sleep_loop ts [] = nanoseconds ts"
| "sleep_loop ts (left # interrupts) = (nanoseconds ts - nanoseconds left) + sleep_loop left interrupts"

definition sleepMsec :: "nat \<Rightarrow> timespec list \<Rightarrow> int" where
  "sleepMsec msec interrupts =
     sleep_loop \<lparr>tv_sec = cint (int msec div 1000), tv_nsec = cint ((int msec mod 1000) * 1000 * 1000)\<rparr> interrupts"

section \<open>Properties\<close>

lemma nsec_in_range:
  assumes "0 \<le> usec" "usec < 1000000"
  shows "cint ((usec + (int msec mod 1000) * 1000) * 1000) = (usec + (int msec mod 1000) * 1000) * 1000"
proof (rule cint_id)
  have "0 \<le> int msec mod 1000" "int msec mod 1000 \<le> 999" by simp_all
  with assms show "in_int ((usec + (int msec mod 1000) * 1000) * 1000)"
    by (auto simp: in_int_def INT_MAX_def INT_MIN_def)
qed

lemma msec_split: "int msec div 1000 * 1000000000 + int msec mod 1000 * 1000000 = int msec * 1000000"
  by presburger

text \<open>The point of time is the right one, as long as the seconds do not wrap.\<close>

lemma setTimespecRelative_value:
  assumes "0 \<le> usec" "usec < 1000000" "in_int (sec + int msec div 1000)"
  shows "nanoseconds (setTimespecRelative sec usec msec) =
    sec * 1000000000 + usec * 1000 + int msec * 1000000"
  using nsec_in_range [OF assms(1,2), of msec] msec_split [of msec] assms(3)
  by (simp add: nanoseconds_def setTimespecRelative_def cint_id algebra_simps)

text \<open>
  But it is not normalised: the nanoseconds pass their bound whenever the microseconds of the clock and the
  fraction of a second in the timeout make a full second together. The system call then fails
  at once with \<^verbatim>\<open>EINVAL\<close>, which the wait loop does not tell from a wake-up.
\<close>

lemma setTimespecRelative_invalid:
  assumes "0 \<le> usec" "usec < 1000000"
  shows "tv_nsec (setTimespecRelative sec usec msec) \<ge> 1000000000 \<longleftrightarrow>
    usec + (int msec mod 1000) * 1000 \<ge> 1000000"
proof -
  have "tv_nsec (setTimespecRelative sec usec msec) = (usec + (int msec mod 1000) * 1000) * 1000"
    using nsec_in_range [OF assms] by (simp add: setTimespecRelative_def)
  then show ?thesis by (auto simp: algebra_simps)
qed

text \<open>However often it is interrupted, the pause has its length.\<close>

lemma sleep_loop_total: "sleep_loop ts interrupts = nanoseconds ts"
  by (induction ts interrupts rule: sleep_loop.induct) simp_all

lemma sleepMsec_exact:
  assumes "in_int (int msec div 1000)"
  shows "sleepMsec msec interrupts = int msec * 1000000"
  using nsec_in_range [of 0 msec] msec_split [of msec] assms
  by (simp add: sleepMsec_def sleep_loop_total nanoseconds_def cint_id algebra_simps)

end
