(* ===== verification/CString.thy ===== *)
theory CString
  imports Prelude
begin

text \<open>
  The parts of the C library the sources call on strings and numbers. A NUL-terminated string
  is the list of the characters before its terminator; a pointer into it is the suffix that
  starts there, and a pointer that may be NULL is an option. Character classes are those of
  the C locale. \<open>strtol\<close> and \<open>strtoul\<close> follow ISO C for a 32-bit \<^verbatim>\<open>long\<close>.
\<close>

definition NUL :: char where "NUL = CHR 0x00"

section \<open>Character classes\<close>

definition chr_code :: "char \<Rightarrow> nat" where
  "chr_code c = of_char c"

definition isspace :: "char \<Rightarrow> bool" where
  "isspace c \<longleftrightarrow> (9 \<le> chr_code c \<and> chr_code c \<le> 13) \<or> chr_code c = 32"

definition isdigit :: "char \<Rightarrow> bool" where
  "isdigit c \<longleftrightarrow> 48 \<le> chr_code c \<and> chr_code c \<le> 57"

definition toupper :: "char \<Rightarrow> char" where
  "toupper c = (if 97 \<le> chr_code c \<and> chr_code c \<le> 122
     then char_of (chr_code c - 32) else c)"

section \<open>Searching\<close>

text \<open>\<open>strchr s c\<close>: the suffix at the first occurrence, or NULL.\<close>

fun strchr :: "string \<Rightarrow> char \<Rightarrow> string option" where
  "strchr [] c = None"
| "strchr (x # xs) c = (if x = c then Some (x # xs) else strchr xs c)"

text \<open>
  \<open>strsep\<close> on a single delimiter: the token in front of the first delimiter and the text
  after it, or the whole string and NULL when there is none.
\<close>

fun strsep :: "string \<Rightarrow> char \<Rightarrow> string \<times> string option" where
  "strsep [] d = ([], None)"
| "strsep (x # xs) d =
     (if x = d then ([], Some xs) else (case strsep xs d of (t, r) \<Rightarrow> (x # t, r)))"

fun starts_with :: "string \<Rightarrow> string \<Rightarrow> bool" where
  "starts_with xs [] = True"
| "starts_with [] (y # ys) = False"
| "starts_with (x # xs) (y # ys) = (x = y \<and> starts_with xs ys)"

text \<open>\<open>strstr s t\<close> used as a truth value: does \<open>t\<close> occur in \<open>s\<close>?\<close>

fun strstr :: "string \<Rightarrow> string \<Rightarrow> bool" where
  "strstr [] t = (t = [])"
| "strstr (x # xs) t = (starts_with (x # xs) t \<or> strstr xs t)"

lemma starts_with_iff: "starts_with s p \<longleftrightarrow> (\<exists>r. s = p @ r)"
  by (induction s p rule: starts_with.induct) auto

lemma strstr_iff: "strstr s t \<longleftrightarrow> (\<exists>a b. s = a @ t @ b)"
proof (induction s)
  case Nil
  then show ?case by auto
next
  case (Cons x xs)
  have "(\<exists>a b. x # xs = a @ t @ b) \<longleftrightarrow>
      (\<exists>b. x # xs = t @ b) \<or> (\<exists>a b. xs = a @ t @ b)"
    by (auto simp: Cons_eq_append_conv)
  then show ?case using Cons by (simp add: starts_with_iff)
qed

lemma strsep_no_delim: "d \<notin> set s \<Longrightarrow> strsep s d = (s, None)"
  by (induction s) auto

lemma strsep_delim: "d \<notin> set t \<Longrightarrow> strsep (t @ d # r) d = (t, Some r)"
  by (induction t) auto

lemma strsep_cases:
  "strsep s d = (t, None) \<and> t = s \<and> d \<notin> set s
     \<or> (\<exists>r. strsep s d = (t, Some r) \<and> s = t @ d # r \<and> d \<notin> set t)"
  if "fst (strsep s d) = t"
  using that by (induction s arbitrary: t) (auto split: prod.splits if_splits)

lemma strchr_None: "strchr s c = None \<longleftrightarrow> c \<notin> set s"
  by (induction s) auto

lemma strchr_append: "c \<notin> set p \<Longrightarrow> strchr (p @ c # r) c = Some (c # r)"
  by (induction p) auto

lemma strchr_Some: "strchr s c = Some r \<Longrightarrow> \<exists>p q. s = p @ r \<and> r = c # q \<and> c \<notin> set p"
proof (induction s)
  case Nil
  then show ?case by simp
next
  case (Cons x xs)
  show ?case
  proof (cases "x = c")
    case True
    with Cons.prems show ?thesis by (intro exI [of _ "[]"] exI [of _ xs]) auto
  next
    case False
    with Cons obtain p q where "xs = p @ r" "r = c # q" "c \<notin> set p" by auto
    then have "x # xs = (x # p) @ r \<and> r = c # q \<and> c \<notin> set (x # p)"
      using False by auto
    then show ?thesis by blast
  qed
qed

section \<open>Fixed-size character arrays\<close>

text \<open>
  \<open>strncpy dst src n\<close> leaves exactly \<open>n\<close> characters in an array of size \<open>n\<close>: the
  source padded with NUL, and no terminator when the source has \<open>n\<close> characters or more.
  Reading an array that holds no terminator runs past its end.
\<close>

definition strncpy :: "string \<Rightarrow> nat \<Rightarrow> char list" where
  "strncpy src n = take n (src @ replicate n NUL)"

definition cstr :: "char list \<Rightarrow> string c_result" where
  "cstr a = (if NUL \<in> set a then Inr (takeWhile (\<lambda>c. c \<noteq> NUL) a) else Inl OutOfBounds)"

lemma length_strncpy [simp]: "length (strncpy src n) = n"
  by (simp add: strncpy_def)

lemma cstr_strncpy_fits:
  assumes "length src < n" and "NUL \<notin> set src"
  shows "cstr (strncpy src n) = Inr src"
proof -
  from assms(1) obtain k where k: "n - length src = Suc k"
    by (metis Suc_diff_Suc)
  from assms(1) k have a: "strncpy src n = src @ NUL # replicate k NUL"
    by (simp add: strncpy_def min_absorb1)
  from assms(2) have "takeWhile (\<lambda>c. c \<noteq> NUL) (src @ NUL # replicate k NUL) = src"
    by (intro takeWhile_append_stop) auto
  then show ?thesis by (simp add: cstr_def a)
qed

lemma cstr_strncpy_too_long:
  "n \<le> length src \<Longrightarrow> NUL \<notin> set src \<Longrightarrow> cstr (strncpy src n) = Inl OutOfBounds"
  by (auto simp: cstr_def strncpy_def dest: in_set_takeD)

section \<open>Numbers\<close>

definition digit_val :: "nat \<Rightarrow> char \<Rightarrow> nat option" where
  "digit_val b c =
     (let n = chr_code c;
          v = (if 48 \<le> n \<and> n \<le> 57 then n - 48
               else if 97 \<le> n \<and> n \<le> 122 then n - 87
               else if 65 \<le> n \<and> n \<le> 90 then n - 55
               else 36)
      in if v < b then Some v else None)"

fun scan_digits :: "nat \<Rightarrow> nat \<Rightarrow> string \<Rightarrow> nat \<times> string" where
  "scan_digits b acc [] = (acc, [])"
| "scan_digits b acc (c # cs) =
     (case digit_val b c of
        None \<Rightarrow> (acc, c # cs)
      | Some d \<Rightarrow> scan_digits b (acc * b + d) cs)"

text \<open>
  The subject sequence of \<^verbatim>\<open>strtol\<close>: white space, a sign, for base 16 an optional
  \<^verbatim>\<open>0x\<close> in front of a hexadecimal digit, then digits. \<open>None\<close> when there is no digit.
\<close>

definition skip_sign :: "string \<Rightarrow> bool \<times> string" where
  "skip_sign s = (case s of
       [] \<Rightarrow> (False, s)
     | c # cs \<Rightarrow> if c = CHR ''-'' then (True, cs)
                else if c = CHR ''+'' then (False, cs) else (False, s))"

definition skip_0x :: "nat \<Rightarrow> string \<Rightarrow> string" where
  "skip_0x b s = (case s of
       z # x # d # r \<Rightarrow>
         if b = 16 \<and> z = CHR ''0'' \<and> (x = CHR ''x'' \<or> x = CHR ''X'') \<and> digit_val 16 d \<noteq> None
         then d # r else s
     | _ \<Rightarrow> s)"

definition strto_subject :: "nat \<Rightarrow> string \<Rightarrow> (bool \<times> nat \<times> string) option" where
  "strto_subject b s =
     (case skip_sign (dropWhile isspace s) of (neg, s1) \<Rightarrow>
        (case skip_0x b s1 of
           [] \<Rightarrow> None
         | c # cs \<Rightarrow>
             if digit_val b c = None then None
             else (case scan_digits b 0 (c # cs) of (v, r) \<Rightarrow> Some (neg, v, r))))"

text \<open>Both return the value and the end pointer, which is \<open>s\<close> itself when nothing converts.\<close>

definition strtol :: "nat \<Rightarrow> string \<Rightarrow> int \<times> string" where
  "strtol b s = (case strto_subject b s of
       None \<Rightarrow> (0, s)
     | Some (neg, v, r) \<Rightarrow>
         (if neg then max INT_MIN (- int v) else min INT_MAX (int v), r))"

definition strtoul :: "nat \<Rightarrow> string \<Rightarrow> int \<times> string" where
  "strtoul b s = (case strto_subject b s of
       None \<Rightarrow> (0, s)
     | Some (neg, v, r) \<Rightarrow>
         (if UINT_MAX < int v then UINT_MAX
          else if neg then (- int v) mod 4294967296 else int v, r))"

definition atoi :: "string \<Rightarrow> int" where
  "atoi s = fst (strtol 10 s)"

text \<open>The conversions \<^verbatim>\<open>%d\<close> and \<^verbatim>\<open>%x\<close> of \<^verbatim>\<open>printf\<close>.\<close>

definition digit_char :: "nat \<Rightarrow> char" where
  "digit_char d = ''0123456789abcdef'' ! d"

fun show_base :: "nat \<Rightarrow> nat \<Rightarrow> string" where
  "show_base b n =
     (if b < 2 \<or> n < b then [digit_char n] else show_base b (n div b) @ [digit_char (n mod b)])"

declare show_base.simps [simp del]

definition show_d :: "int \<Rightarrow> string" where
  "show_d x = (if x < 0 then CHR ''-'' # show_base 10 (nat (- x)) else show_base 10 (nat x))"

definition show_x :: "int \<Rightarrow> string" where
  "show_x x = show_base 16 (nat (x mod 4294967296))"

subsection \<open>Reading back what was printed\<close>

lemma digit_val_digit_char:
  assumes "d < b" "b \<le> 16"
  shows "digit_val b (digit_char d) = Some d"
proof -
  from assms have "d < 16" by simp
  then have "d \<in> {0,1,2,3,4,5,6,7,8,9,10,11,12,13,14,15}"
    by (simp only: insert_iff empty_iff) arith
  with assms(1) show ?thesis
    by (auto simp: digit_char_def digit_val_def chr_code_def)
qed

lemma show_base_Cons:
  assumes "2 \<le> b" "b \<le> 16"
  shows "\<exists>d r. show_base b n = digit_char d # r \<and> d < b"
proof (induction n rule: less_induct)
  case (less n)
  show ?case
  proof (cases "n < b")
    case True
    then show ?thesis by (subst show_base.simps) auto
  next
    case False
    with assms have "n div b < n" by (intro div_less_dividend) auto
    from less [OF this] obtain d r where "show_base b (n div b) = digit_char d # r" "d < b"
      by auto
    with False assms show ?thesis by (subst show_base.simps) auto
  qed
qed

definition no_digit_hd :: "nat \<Rightarrow> string \<Rightarrow> bool" where
  "no_digit_hd b r \<longleftrightarrow> (case r of [] \<Rightarrow> True | c # _ \<Rightarrow> digit_val b c = None)"

lemma scan_digits_stop: "no_digit_hd b r \<Longrightarrow> scan_digits b a r = (a, r)"
  by (cases r) (auto simp: no_digit_hd_def)

lemma scan_digits_show_base:
  assumes "2 \<le> b" "b \<le> 16"
  shows "\<exists>k. \<forall>a r. scan_digits b a (show_base b n @ r) = scan_digits b (a * b ^ k + n) r"
proof (induction n rule: less_induct)
  case (less n)
  show ?case
  proof (cases "n < b")
    case True
    with assms show ?thesis
      by (subst show_base.simps, intro exI [of _ 1]) (auto simp: digit_val_digit_char)
  next
    case False
    with assms have "n div b < n" by (intro div_less_dividend) auto
    from less [OF this] obtain k where k:
      "\<And>a r. scan_digits b a (show_base b (n div b) @ r) = scan_digits b (a * b ^ k + n div b) r"
      by auto
    have m: "n mod b < b" using assms by simp
    have "(a * b ^ k + n div b) * b + n mod b = a * b ^ Suc k + n" for a
      by (simp add: algebra_simps)
    with False assms k m show ?thesis
      by (subst show_base.simps, intro exI [of _ "Suc k"])
        (auto simp: digit_val_digit_char)
  qed
qed

lemma scan_show_base:
  assumes "2 \<le> b" "b \<le> 16" "no_digit_hd b r"
  shows "scan_digits b 0 (show_base b n @ r) = (n, r)"
proof -
  from scan_digits_show_base [OF assms(1,2), of n] obtain k where
    "\<forall>a r. scan_digits b a (show_base b n @ r) = scan_digits b (a * b ^ k + n) r" by auto
  with assms(3) show ?thesis by (simp add: scan_digits_stop)
qed

end
