(* ===== verification/Misc.thy ===== *)
theory Misc
  imports CString
begin

text \<open>
  \<^verbatim>\<open>fwril-100/misc.c\<close>: the prefix test every response classifier of the AT channel and of
  the driver is built on.
\<close>

fun strStartsWith :: "string \<Rightarrow> string \<Rightarrow> bool" where
  "strStartsWith (l # line) (p # prefix) = (if l \<noteq> p then False else strStartsWith line prefix)"
| "strStartsWith line prefix = (prefix = [])"

lemma strStartsWith_iff: "strStartsWith line prefix \<longleftrightarrow> (\<exists>rest. line = prefix @ rest)"
  by (induction line prefix rule: strStartsWith.induct) auto

lemma strStartsWith_eq_starts_with: "strStartsWith line prefix = starts_with line prefix"
  by (simp add: strStartsWith_iff starts_with_iff)

lemma strStartsWith_append [simp]: "strStartsWith (prefix @ rest) prefix"
  by (auto simp: strStartsWith_iff)

lemma strStartsWith_Nil [simp]: "strStartsWith line []"
  by (simp add: strStartsWith_iff)

end
