(* ===== verification/AtTok.thy ===== *)
theory AtTok
  imports Misc
begin

text \<open>
  \<^verbatim>\<open>fwril-100/at_tok.c\<close>: the tokenizer for AT response lines. The cursor \<^verbatim>\<open>*p_cur\<close> is
  \<open>None\<close> for NULL and otherwise the rest of the line; \<^verbatim>\<open>strsep\<close> overwrites the separator
  with NUL, so a token is the text in front of it. An operation returns its return code, what it
  leaves in \<^verbatim>\<open>*p_out\<close>, and the new cursor.

  The lemmas give the progress of the cursor (through the locale \<open>token_reader\<close>), the range
  of parsed integers, and the round trips: fields joined by commas, and numbers printed with
  \<^verbatim>\<open>%d\<close> or \<^verbatim>\<open>%x\<close>, are read back unchanged.
\<close>

section \<open>The operations\<close>

type_synonym cursor = "string option"

abbreviation QUOTE :: char where "QUOTE \<equiv> CHR 0x22"
abbreviation COMMA :: char where "COMMA \<equiv> CHR '',''"

definition at_tok_start :: "cursor \<Rightarrow> int \<times> cursor" where
  "at_tok_start p_cur = (case p_cur of
       None \<Rightarrow> (-1, None)
     | Some s \<Rightarrow> (case strchr s (CHR '':'') of
           None \<Rightarrow> (-1, None)
         | Some r \<Rightarrow> (0, Some (tl r))))"

fun skipWhiteSpace :: "cursor \<Rightarrow> cursor" where
  "skipWhiteSpace None = None"
| "skipWhiteSpace (Some []) = Some []"
| "skipWhiteSpace (Some (c # cs)) =
     (if isspace c then skipWhiteSpace (Some cs) else Some (c # cs))"

fun skipNextComma :: "cursor \<Rightarrow> cursor" where
  "skipNextComma None = None"
| "skipNextComma (Some []) = Some []"
| "skipNextComma (Some (c # cs)) = (if c = COMMA then Some cs else skipNextComma (Some cs))"

definition nextTok :: "cursor \<Rightarrow> string option \<times> cursor" where
  "nextTok p_cur = (case skipWhiteSpace p_cur of
       None \<Rightarrow> (None, None)
     | Some s \<Rightarrow>
         if s \<noteq> [] \<and> hd s = QUOTE
         then (case strsep (tl s) QUOTE of (ret, cur) \<Rightarrow> (Some ret, skipNextComma cur))
         else (case strsep s COMMA of (ret, cur) \<Rightarrow> (Some ret, cur)))"

definition at_tok_nextint_base :: "cursor \<Rightarrow> int \<Rightarrow> nat \<Rightarrow> bool \<Rightarrow> int \<times> int \<times> cursor" where
  "at_tok_nextint_base p_cur p_out base uns = (case p_cur of
       None \<Rightarrow> (-1, p_out, None)
     | Some _ \<Rightarrow> (case nextTok p_cur of
           (None, cur) \<Rightarrow> (-1, p_out, cur)
         | (Some ret, cur) \<Rightarrow>
             (case (if uns then strtoul base ret else strtol base ret) of
                (l, end_) \<Rightarrow> (if end_ = ret then -1 else 0, cint l, cur))))"

definition at_tok_nextint :: "cursor \<Rightarrow> int \<Rightarrow> int \<times> int \<times> cursor" where
  "at_tok_nextint p_cur p_out = at_tok_nextint_base p_cur p_out 10 False"

definition at_tok_nexthexint :: "cursor \<Rightarrow> int \<Rightarrow> int \<times> int \<times> cursor" where
  "at_tok_nexthexint p_cur p_out = at_tok_nextint_base p_cur p_out 16 True"

text \<open>
  The local \<^verbatim>\<open>result\<close> of \<^verbatim>\<open>at_tok_nextbool\<close> is read only after a successful
  \<^verbatim>\<open>at_tok_nextint\<close>, which assigns it, so its initial value does not matter.
\<close>

definition at_tok_nextbool :: "cursor \<Rightarrow> int option \<Rightarrow> int \<times> int option \<times> cursor" where
  "at_tok_nextbool p_cur p_out = (case at_tok_nextint p_cur 0 of
       (ret, result, cur) \<Rightarrow>
         if ret < 0 then (-1, p_out, cur)
         else if \<not> (result = 0 \<or> result = 1) then (-1, p_out, cur)
         else (ret, (case p_out of None \<Rightarrow> None | Some _ \<Rightarrow> Some result), cur))"

definition at_tok_nextstr :: "cursor \<Rightarrow> string option \<Rightarrow> int \<times> string option \<times> cursor" where
  "at_tok_nextstr p_cur p_out = (case p_cur of
       None \<Rightarrow> (-1, p_out, None)
     | Some _ \<Rightarrow> (case nextTok p_cur of (tok, cur) \<Rightarrow> (0, tok, cur)))"

definition at_tok_hasmore :: "cursor \<Rightarrow> bool" where
  "at_tok_hasmore p_cur = (\<not> (p_cur = None \<or> p_cur = Some []))"

section \<open>Progress\<close>

fun cursor_size :: "cursor \<Rightarrow> nat" where
  "cursor_size None = 0"
| "cursor_size (Some s) = Suc (length s)"

lemma skipWhiteSpace_dropWhile:
  "skipWhiteSpace p = map_option (dropWhile isspace) p"
  by (induction p rule: skipWhiteSpace.induct) auto

lemma cursor_size_skipNextComma [simp]: "cursor_size (skipNextComma p) \<le> cursor_size p"
  by (induction p rule: skipNextComma.induct) auto

lemma strsep_size: "strsep s d = (t, r) \<Longrightarrow> cursor_size r \<le> length s"
  using strsep_cases [of s d t] by auto

lemma nextTok_Some:
  assumes "nextTok (Some s) = (tok, cur)"
  shows "tok \<noteq> None" and "cursor_size cur < cursor_size (Some s)"
proof -
  obtain u where u: "skipWhiteSpace (Some s) = Some u" and len: "length u \<le> length s"
    by (auto simp: skipWhiteSpace_dropWhile length_dropWhile_le)
  show "tok \<noteq> None"
    using assms u by (auto simp: nextTok_def split: if_splits prod.splits)
  show "cursor_size cur < cursor_size (Some s)"
  proof (cases "u \<noteq> [] \<and> hd u = QUOTE")
    case True
    with assms u obtain r where r: "strsep (tl u) QUOTE = (the tok, r)" "cur = skipNextComma r"
      by (auto simp: nextTok_def split: prod.splits)
    from strsep_size [OF r(1)] have "cursor_size r \<le> length u" by simp
    with r(2) have "cursor_size cur \<le> length u"
      by (metis cursor_size_skipNextComma le_trans)
    with len show ?thesis by simp
  next
    case False
    with assms u have "strsep u COMMA = (the tok, cur)"
      by (auto simp: nextTok_def split: prod.splits)
    with len show ?thesis using strsep_size [of u COMMA] by fastforce
  qed
qed

text \<open>
  What a reader of tokens promises: it fails on NULL, and every call moves the cursor strictly
  towards NULL. A loop that reads tokens until it fails therefore ends.
\<close>

fun tok_reads :: "(cursor \<Rightarrow> int \<times> 'a \<times> cursor) \<Rightarrow> nat \<Rightarrow> cursor \<Rightarrow> bool" where
  "tok_reads next_tok 0 cur = True"
| "tok_reads next_tok (Suc n) cur =
     (case next_tok cur of (ret, _, cur') \<Rightarrow> 0 \<le> ret \<and> tok_reads next_tok n cur')"

locale token_reader =
  fixes next_tok :: "cursor \<Rightarrow> int \<times> 'a \<times> cursor"
  assumes null_fails: "fst (next_tok None) < 0"
    and advances: "next_tok (Some s) = (ret, out, cur) \<Longrightarrow> cursor_size cur < cursor_size (Some s)"
begin

lemma reads_bound: "tok_reads next_tok n cur \<Longrightarrow> n \<le> cursor_size cur"
proof (induction n arbitrary: cur)
  case 0
  show ?case by simp
next
  case (Suc n)
  obtain ret out cur' where n: "next_tok cur = (ret, out, cur')" by (cases "next_tok cur")
  with Suc.prems have "0 \<le> ret" and r: "tok_reads next_tok n cur'" by auto
  with null_fails n obtain s where s: "cur = Some s" by (cases cur) auto
  with n have "cursor_size cur' < cursor_size cur" using advances by blast
  with Suc.IH [OF r] show ?case by simp
qed

end

lemma at_tok_nextstr_Some:
  "at_tok_nextstr (Some s) out = (ret, tok, cur) \<Longrightarrow> ret = 0 \<and> tok \<noteq> None"
  by (auto simp: at_tok_nextstr_def split: prod.splits dest: nextTok_Some)

interpretation strs: token_reader "\<lambda>cur. at_tok_nextstr cur out" for out
proof
  show "fst (at_tok_nextstr None out) < 0" by (simp add: at_tok_nextstr_def)
next
  fix s ret tok cur
  assume "at_tok_nextstr (Some s) out = (ret, tok, cur)"
  then show "cursor_size cur < cursor_size (Some s)"
    by (auto simp: at_tok_nextstr_def split: prod.splits dest: nextTok_Some)
qed

interpretation ints: token_reader "\<lambda>cur. at_tok_nextint_base cur out base uns" for out base uns
proof
  show "fst (at_tok_nextint_base None out base uns) < 0" by (simp add: at_tok_nextint_base_def)
next
  fix s ret v cur
  assume "at_tok_nextint_base (Some s) out base uns = (ret, v, cur)"
  then show "cursor_size cur < cursor_size (Some s)"
    by (auto simp: at_tok_nextint_base_def split: prod.splits option.splits dest: nextTok_Some)
qed

section \<open>Ranges\<close>

lemma nextint_base_in_int:
  "at_tok_nextint_base cur out base uns = (ret, v, cur') \<Longrightarrow> in_int out \<Longrightarrow> in_int v"
  by (auto simp: at_tok_nextint_base_def split: option.splits prod.splits)

lemma nextint_base_ret:
  "at_tok_nextint_base cur out base uns = (ret, v, cur') \<Longrightarrow> ret = 0 \<or> ret = -1"
  by (auto simp: at_tok_nextint_base_def split: option.splits prod.splits if_splits)

lemma nextbool_range:
  "at_tok_nextbool cur (Some b) = (0, out, cur') \<Longrightarrow> out = Some 0 \<or> out = Some 1"
  by (auto simp: at_tok_nextbool_def split: prod.splits if_splits)

section \<open>Round trips\<close>

subsection \<open>Fields\<close>

text \<open>
  A field of a response line is printed bare or in double quotes. A bare field holds no comma
  and does not start with white space or a quote; a quoted one may hold anything but a quote.
\<close>

datatype field = Plain string | Quoted string

fun field_text :: "field \<Rightarrow> string" where
  "field_text (Plain s) = s"
| "field_text (Quoted s) = s"

fun field_ok :: "field \<Rightarrow> bool" where
  "field_ok (Plain s) =
     (COMMA \<notin> set s \<and> (s = [] \<or> \<not> isspace (hd s) \<and> hd s \<noteq> QUOTE))"
| "field_ok (Quoted s) = (QUOTE \<notin> set s)"

fun show_field :: "field \<Rightarrow> string" where
  "show_field (Plain s) = s"
| "show_field (Quoted s) = QUOTE # s @ [QUOTE]"

fun show_fields :: "field list \<Rightarrow> string" where
  "show_fields [] = []"
| "show_fields [f] = show_field f"
| "show_fields (f # fs) = show_field f @ COMMA # show_fields fs"

text \<open>The loop of the request handlers: \<open>n\<close> string tokens in a row, giving up at an error.\<close>

fun read_strs :: "nat \<Rightarrow> cursor \<Rightarrow> (string list \<times> cursor) option" where
  "read_strs 0 cur = Some ([], cur)"
| "read_strs (Suc n) cur = (case at_tok_nextstr cur None of
       (ret, tok, cur') \<Rightarrow>
         if ret < 0 then None
         else (case tok of
             None \<Rightarrow> None
           | Some t \<Rightarrow> map_option (\<lambda>(ts, c). (t # ts, c)) (read_strs n cur')))"

lemma read_strs_step:
  "at_tok_nextstr cur None = (0, Some t, cur') \<Longrightarrow> read_strs n cur' = Some (ts, c) \<Longrightarrow>
    read_strs (Suc n) cur = Some (t # ts, c)"
  by simp

lemma not_isspace_comma_quote [simp]: "\<not> isspace COMMA" "\<not> isspace QUOTE"
  by (simp_all add: isspace_def chr_code_def)

lemma skip_ok_field:
  assumes "field_ok f"
  shows "skipWhiteSpace (Some (show_field f @ COMMA # r)) = Some (show_field f @ COMMA # r)"
    and "skipWhiteSpace (Some (show_field f)) = Some (show_field f)"
proof -
  have "show_field f = [] \<or> \<not> isspace (hd (show_field f))"
    using assms by (cases f) auto
  then show "skipWhiteSpace (Some (show_field f @ COMMA # r)) = Some (show_field f @ COMMA # r)"
    and "skipWhiteSpace (Some (show_field f)) = Some (show_field f)"
    by (cases "show_field f"; simp)+
qed

lemma nextTok_field_comma:
  assumes "field_ok f"
  shows "nextTok (Some (show_field f @ COMMA # r)) = (Some (field_text f), Some r)"
  using assms skip_ok_field(1) [OF assms, of r]
  by (cases f) (auto simp: nextTok_def strsep_delim hd_append)

lemma nextTok_field_last:
  assumes "field_ok f"
  shows "nextTok (Some (show_field f)) =
    (Some (field_text f), case f of Plain _ \<Rightarrow> None | Quoted _ \<Rightarrow> Some [])"
  using assms skip_ok_field(2) [OF assms]
  by (cases f) (auto simp: nextTok_def strsep_delim strsep_no_delim)

lemma read_strs_fields:
  assumes "fs \<noteq> []" and "\<forall>f \<in> set fs. field_ok f"
  shows "read_strs (length fs) (Some (show_fields fs)) =
    Some (map field_text fs, case last fs of Plain _ \<Rightarrow> None | Quoted _ \<Rightarrow> Some [])"
  using assms
proof (induction fs rule: show_fields.induct)
  case 1
  then show ?case by simp
next
  case (2 f)
  then show ?case by (simp add: at_tok_nextstr_def nextTok_field_last)
next
  case (3 f g fs)
  then have IH: "read_strs (length (g # fs)) (Some (show_fields (g # fs))) =
    Some (map field_text (g # fs), case last (g # fs) of Plain _ \<Rightarrow> None | Quoted _ \<Rightarrow> Some [])"
    by simp
  have step: "at_tok_nextstr (Some (show_fields (f # g # fs))) None =
      (0, Some (field_text f), Some (show_fields (g # fs)))"
    using 3 by (simp add: at_tok_nextstr_def nextTok_field_comma)
  show ?case using read_strs_step [OF step IH] by simp
qed

subsection \<open>Numbers\<close>

definition num_end :: "string \<Rightarrow> bool" where
  "num_end r \<longleftrightarrow> (case r of [] \<Rightarrow> True | c # _ \<Rightarrow> c = COMMA)"

lemma digit_char_class:
  assumes "d < 16"
  shows "digit_char d \<noteq> COMMA" "digit_char d \<noteq> QUOTE" "\<not> isspace (digit_char d)"
    "digit_char d \<noteq> CHR ''-''" "digit_char d \<noteq> CHR ''+''"
    "digit_char d \<noteq> CHR ''x''" "digit_char d \<noteq> CHR ''X''"
proof -
  from assms have "d \<in> {0,1,2,3,4,5,6,7,8,9,10,11,12,13,14,15}"
    by (simp only: insert_iff empty_iff) arith
  then show "digit_char d \<noteq> COMMA" "digit_char d \<noteq> QUOTE" "\<not> isspace (digit_char d)"
    "digit_char d \<noteq> CHR ''-''" "digit_char d \<noteq> CHR ''+''"
    "digit_char d \<noteq> CHR ''x''" "digit_char d \<noteq> CHR ''X''"
    by (auto simp: digit_char_def isspace_def chr_code_def)
qed

lemma show_base_chars:
  assumes "2 \<le> b" "b \<le> 16"
  shows "c \<in> set (show_base b n) \<Longrightarrow> \<exists>d < b. c = digit_char d"
proof (induction n rule: less_induct)
  case (less n)
  show ?case
  proof (cases "n < b")
    case True
    with less.prems show ?thesis by (auto simp: show_base.simps [of b n])
  next
    case False
    with assms have lt: "n div b < n" by (intro div_less_dividend) auto
    from less.prems False assms have "c \<in> set (show_base b (n div b)) \<or> c = digit_char (n mod b)"
      by (auto simp: show_base.simps [of b n])
    moreover have "n mod b < b" using assms by simp
    ultimately show ?thesis using less.IH [OF lt] by blast
  qed
qed

lemma show_base_not_in:
  assumes "2 \<le> b" "b \<le> 16" and "\<And>d. d < 16 \<Longrightarrow> digit_char d \<noteq> c"
  shows "c \<notin> set (show_base b n)"
proof
  assume "c \<in> set (show_base b n)"
  from show_base_chars [OF assms(1,2) this] obtain d where "d < b" "c = digit_char d" by blast
  with assms(2) assms(3) [of d] show False by simp
qed

lemma show_base_plain:
  assumes "2 \<le> b" "b \<le> 16"
  shows "COMMA \<notin> set (show_base b n)"
    and "show_base b n \<noteq> []"
    and "\<not> isspace (hd (show_base b n))" and "hd (show_base b n) \<noteq> QUOTE"
    and "hd (show_base b n) \<noteq> CHR ''-''" and "hd (show_base b n) \<noteq> CHR ''+''"
proof -
  obtain d r where d: "show_base b n = digit_char d # r" "d < b"
    using show_base_Cons [OF assms] by blast
  with assms have "d < 16" by simp
  with d show "show_base b n \<noteq> []" "\<not> isspace (hd (show_base b n))"
    "hd (show_base b n) \<noteq> QUOTE" "hd (show_base b n) \<noteq> CHR ''-''"
    "hd (show_base b n) \<noteq> CHR ''+''"
    by (auto simp: digit_char_class)
  show "COMMA \<notin> set (show_base b n)"
    by (rule show_base_not_in [OF assms]) (rule digit_char_class)
qed

lemma num_field_ok: "2 \<le> b \<Longrightarrow> b \<le> 16 \<Longrightarrow> field_ok (Plain (show_base b n))"
  using show_base_plain by simp

lemma neg_num_field_ok: "field_ok (Plain (CHR ''-'' # show_base 10 n))"
  using show_base_plain(1) [of 10] by (simp add: isspace_def chr_code_def)

lemma skip_0x_show_base:
  assumes "2 \<le> b" "b \<le> 16"
  shows "skip_0x b (show_base b n) = show_base b n"
proof -
  have "CHR ''x'' \<notin> set (show_base b n)" "CHR ''X'' \<notin> set (show_base b n)"
    by (rule show_base_not_in [OF assms], erule digit_char_class)+
  then show ?thesis by (auto simp: skip_0x_def split: list.splits)
qed

lemma strto_subject_show_base:
  assumes "2 \<le> b" "b \<le> 16"
  shows "strto_subject b (show_base b n) = Some (False, n, [])"
    and "strto_subject b (CHR ''-'' # show_base b n) = Some (True, n, [])"
proof -
  obtain d r where d: "show_base b n = digit_char d # r" "d < b"
    using show_base_Cons [OF assms] by blast
  with assms have d16: "d < 16" by simp
  have scan: "scan_digits b 0 (show_base b n) = (n, [])"
    using scan_show_base [OF assms, of "[]"] by (simp add: no_digit_hd_def)
  have dv: "digit_val b (digit_char d) = Some d"
    using d(2) assms(2) by (rule digit_val_digit_char)
  have sg: "skip_sign (show_base b n) = (False, show_base b n)"
    using d digit_char_class [OF d16] by (simp add: skip_sign_def)
  have ws: "dropWhile isspace (show_base b n) = show_base b n"
    using d digit_char_class [OF d16] by simp
  show "strto_subject b (show_base b n) = Some (False, n, [])"
    using dv d(1) scan ws sg skip_0x_show_base [OF assms, of n] by (simp add: strto_subject_def)
  have "skip_sign (dropWhile isspace (CHR ''-'' # show_base b n)) = (True, show_base b n)"
    by (simp add: skip_sign_def isspace_def chr_code_def)
  then show "strto_subject b (CHR ''-'' # show_base b n) = Some (True, n, [])"
    using dv d(1) scan skip_0x_show_base [OF assms, of n]
    by (simp add: strto_subject_def del: dropWhile.simps)
qed

lemma strtol_show_d: "in_int x \<Longrightarrow> strtol 10 (show_d x) = (x, [])"
  by (auto simp: strtol_def show_d_def strto_subject_show_base in_int_def INT_MAX_def INT_MIN_def)

lemma strtoul_show_x: "strtoul 16 (show_x x) = (x mod 4294967296, [])"
proof -
  have "x mod 4294967296 \<le> UINT_MAX" by (simp add: UINT_MAX_def)
  then show ?thesis
    by (auto simp: strtoul_def show_x_def strto_subject_show_base)
qed

lemma show_base_length: "2 \<le> b \<Longrightarrow> 0 < k \<Longrightarrow> n < b ^ k \<Longrightarrow> length (show_base b n) \<le> k"
proof (induction k arbitrary: n)
  case (Suc k)
  show ?case
  proof (cases "n < b")
    case True
    then show ?thesis by (simp add: show_base.simps)
  next
    case False
    with Suc.prems have "0 < k" "n div b < b ^ k" by (cases k; simp add: less_mult_imp_div_less mult.commute)+
    with Suc False show ?thesis by (simp add: show_base.simps [of b n])
  qed
qed simp

lemma show_d_length: "0 < k \<Longrightarrow> \<bar>x\<bar> < 10 ^ k \<Longrightarrow> length (show_d x) \<le> Suc k"
  "0 < k \<Longrightarrow> 0 \<le> x \<Longrightarrow> x < 10 ^ k \<Longrightarrow> length (show_d x) \<le> k"
proof -
  have n: "0 < k \<Longrightarrow> 0 \<le> y \<Longrightarrow> y < 10 ^ k \<Longrightarrow> length (show_base 10 (nat y)) \<le> k" for y :: int
    by (intro show_base_length) (simp_all add: nat_less_iff)
  from n [of x] n [of "- x"]
  show "0 < k \<Longrightarrow> \<bar>x\<bar> < 10 ^ k \<Longrightarrow> length (show_d x) \<le> Suc k"
    "0 < k \<Longrightarrow> 0 \<le> x \<Longrightarrow> x < 10 ^ k \<Longrightarrow> length (show_d x) \<le> k"
    by (auto simp: show_d_def)
qed

lemma show_d_field_ok: "field_ok (Plain (show_d x))"
  using num_field_ok [of 10] neg_num_field_ok by (simp add: show_d_def del: field_ok.simps)

lemma show_x_field_ok: "field_ok (Plain (show_x x))"
  using num_field_ok [of 16] by (simp add: show_x_def)

lemma show_d_nonempty: "show_d x \<noteq> []" and show_x_nonempty: "show_x x \<noteq> []"
  using show_base_plain(2) [of 10] show_base_plain(2) [of 16] by (auto simp: show_d_def show_x_def)

text \<open>The next field of a line that continues after it, or ends there.\<close>

definition then_rest :: "string \<Rightarrow> string option \<Rightarrow> string" where
  "then_rest s r = (case r of None \<Rightarrow> s | Some t \<Rightarrow> s @ COMMA # t)"

lemma nextTok_plain:
  "field_ok (Plain s) \<Longrightarrow> nextTok (Some (then_rest s r)) = (Some s, r)"
  using nextTok_field_comma [of "Plain s"] nextTok_field_last [of "Plain s"]
  by (cases r) (simp_all add: then_rest_def)

lemma nextint_show_d:
  assumes "in_int x"
  shows "at_tok_nextint (Some (then_rest (show_d x) r)) out = (0, x, r)"
  using nextTok_plain [OF show_d_field_ok, of x r] strtol_show_d [OF assms]
    show_d_nonempty [of x] assms
  by (simp add: at_tok_nextint_def at_tok_nextint_base_def cint_id)

lemma nexthexint_show_x:
  assumes "in_int x"
  shows "at_tok_nexthexint (Some (then_rest (show_x x) r)) out = (0, x, r)"
proof -
  have "cint (x mod 4294967296) = cint x" by (simp add: cint_def mod_simps)
  then show ?thesis
    using nextTok_plain [OF show_x_field_ok, of x r] strtoul_show_x [of x]
      show_x_nonempty [of x] assms
    by (simp add: at_tok_nexthexint_def at_tok_nextint_base_def cint_id)
qed

lemma at_tok_start_prefix:
  "CHR '':'' \<notin> set p \<Longrightarrow> at_tok_start (Some (p @ CHR '':'' # r)) = (0, Some r)"
  by (simp add: at_tok_start_def strchr_append)

section \<open>Properties\<close>

text \<open>
  C28 (round trip). A response line \<^verbatim>\<open>PREFIX:f1,f2,...\<close> is taken apart into exactly the
  fields it was printed from, quotes removed: \<^verbatim>\<open>at_tok_start\<close> skips the prefix, and as many
  calls of \<^verbatim>\<open>at_tok_nextstr\<close> as there are fields all succeed and return the texts in order.
\<close>

theorem at_tok_fields_roundtrip:
  assumes "CHR '':'' \<notin> set p" and "fs \<noteq> []" and "\<forall>f \<in> set fs. field_ok f"
  shows "at_tok_start (Some (p @ CHR '':'' # show_fields fs)) = (0, Some (show_fields fs)) \<and>
    read_strs (length fs) (snd (at_tok_start (Some (p @ CHR '':'' # show_fields fs)))) =
      Some (map field_text fs, case last fs of Plain _ \<Rightarrow> None | Quoted _ \<Rightarrow> Some [])"
  using at_tok_start_prefix [OF assms(1)] read_strs_fields [OF assms(2,3)] by simp

theorem at_tok_fields_roundtrip_witness:
  "at_tok_start (Some (''+COPS'' @ CHR '':'' # show_fields [Plain ''0'', Quoted ''a,b''])) =
      (0, Some (show_fields [Plain ''0'', Quoted ''a,b''])) \<and>
    read_strs (length [Plain ''0'', Quoted ''a,b''])
      (snd (at_tok_start (Some (''+COPS'' @ CHR '':'' # show_fields [Plain ''0'', Quoted ''a,b''])))) =
      Some (map field_text [Plain ''0'', Quoted ''a,b''],
        case last [Plain ''0'', Quoted ''a,b''] of Plain _ \<Rightarrow> None | Quoted _ \<Rightarrow> Some [])"
  by (rule at_tok_fields_roundtrip) (simp_all add: isspace_def chr_code_def)

text \<open>
  C29 (round trip). A number of C's \<^verbatim>\<open>int\<close> range printed with \<^verbatim>\<open>%d\<close> is read back by
  \<^verbatim>\<open>at_tok_nextint\<close>, and printed with \<^verbatim>\<open>%x\<close> by \<^verbatim>\<open>at_tok_nexthexint\<close>, also the
  negative ones, whether more fields follow or not; the cursor is left behind the number's comma.
\<close>

theorem at_tok_int_roundtrip:
  assumes "in_int x"
  shows "at_tok_nextint (Some (then_rest (show_d x) r)) out = (0, x, r) \<and>
    at_tok_nexthexint (Some (then_rest (show_x x) r)) out = (0, x, r)"
  using nextint_show_d [OF assms] nexthexint_show_x [OF assms] by simp

theorem at_tok_int_roundtrip_witness:
  "at_tok_nextint (Some (then_rest (show_d (-5)) (Some ''7''))) 0 = (0, -5, Some ''7'') \<and>
    at_tok_nexthexint (Some (then_rest (show_x (-5)) (Some ''7''))) 0 = (0, -5, Some ''7'')"
  using at_tok_int_roundtrip [of "-5" "Some ''7''" 0] by (simp add: in_int_def INT_MAX_def INT_MIN_def)

text \<open>
  C34 (termination). A loop that reads tokens until the tokenizer reports an error ends: the
  number of successful reads, of strings or of integers in any base, is bounded by the length of
  the line.
\<close>

theorem at_tok_loop_bound:
  "(tok_reads (\<lambda>cur. at_tok_nextstr cur out) n (Some s) \<longrightarrow> n \<le> Suc (length s)) \<and>
   (tok_reads (\<lambda>cur. at_tok_nextint_base cur out' base uns) m (Some s) \<longrightarrow> m \<le> Suc (length s))"
  using strs.reads_bound [of out n "Some s"] ints.reads_bound [of out' base uns m "Some s"] by simp

theorem at_tok_loop_bound_witness:
  "tok_reads (\<lambda>cur. at_tok_nextstr cur None) 3 (Some ''1,2,3'') \<and> (3::nat) \<le> 6 \<and>
    tok_reads (\<lambda>cur. at_tok_nextint_base cur 0 10 False) 3 (Some ''1,2,3'')"
proof -
  have "tok_reads (\<lambda>cur. at_tok_nextstr cur None) 3 (Some ''1,2,3'')" by code_simp
  moreover have "tok_reads (\<lambda>cur. at_tok_nextint_base cur 0 10 False) 3 (Some ''1,2,3'')"
    by code_simp
  ultimately show ?thesis using at_tok_loop_bound [of None 3 "''1,2,3''" 0 10 False 3] by simp
qed

end
