(* ===== verification/AtBuffer.thy ===== *)
theory AtBuffer
  imports CString
begin

text \<open>
  The input side of \<^verbatim>\<open>fwril-100/atchannel.c\<close>: the receive buffer \<^verbatim>\<open>s_ATBuffer\<close> with its
  cursor, \<^verbatim>\<open>findNextEOL\<close> and \<^verbatim>\<open>readline\<close>. The array is a function from indices to
  characters and every access checks the index against the array's size, so that an access
  outside of it is the value \<open>Inl OutOfBounds\<close>.

  The serial port is the list of what the calls of \<^verbatim>\<open>read\<close> will see: a chunk of bytes
  (delivered in pieces when it is longer than the room left), an interruption, an error; the
  end of the list is the end of the input.
\<close>

section \<open>Model\<close>

definition MAX_AT_RESPONSE :: nat where
  "MAX_AT_RESPONSE = 8192"

abbreviation CR :: char where "CR \<equiv> CHR 0x0D"
abbreviation LF :: char where "LF \<equiv> CHR 0x0A"

definition is_eol :: "char \<Rightarrow> bool" where
  "is_eol c \<longleftrightarrow> c = CR \<or> c = LF"

record rl_state =
  s_ATBuffer :: "nat \<Rightarrow> char"
  s_ATBufferCur :: nat
  s_readCount :: int

definition rl_init :: rl_state where
  "rl_init = \<lparr>s_ATBuffer = (\<lambda>_. NUL), s_ATBufferCur = 0, s_readCount = 0\<rparr>"

datatype rd_event = RdData string | RdEINTR | RdError

text \<open>The array \<^verbatim>\<open>char s_ATBuffer[MAX_AT_RESPONSE+1]\<close>: indices \<open>0\<close> to \<open>MAX_AT_RESPONSE\<close>.\<close>

definition peek :: "(nat \<Rightarrow> char) \<Rightarrow> nat \<Rightarrow> char c_result" where
  "peek b i = (if i \<le> MAX_AT_RESPONSE then Inr (b i) else Inl OutOfBounds)"

function scanEOL :: "(nat \<Rightarrow> char) \<Rightarrow> nat \<Rightarrow> nat option c_result" where
  "scanEOL b i =
     (if MAX_AT_RESPONSE < i then Inl OutOfBounds
      else if b i = NUL then Inr None
      else if is_eol (b i) then Inr (Some i)
      else scanEOL b (Suc i))"
  by pat_completeness auto
termination
  by (relation "measure (\<lambda>(b, i). Suc MAX_AT_RESPONSE - i)") auto

declare scanEOL.simps [simp del]

definition findNextEOL :: "(nat \<Rightarrow> char) \<Rightarrow> nat \<Rightarrow> nat option c_result" where
  "findNextEOL b cur =
     and_then (peek b cur) (\<lambda>c0.
       if c0 \<noteq> CHR ''>'' then scanEOL b cur
       else and_then (peek b (cur + 1)) (\<lambda>c1.
         if c1 \<noteq> CHR '' '' then scanEOL b cur
         else and_then (peek b (cur + 2)) (\<lambda>c2.
           if c2 \<noteq> NUL then scanEOL b cur
           else Inr (Some (cur + 2)))))"

text \<open>The two loops \<^verbatim>\<open>while (*s_ATBufferCur == '\r' || ...)\<close>.\<close>

function skipEOLs :: "(nat \<Rightarrow> char) \<Rightarrow> nat \<Rightarrow> nat c_result" where
  "skipEOLs b i =
     (if MAX_AT_RESPONSE < i then Inl OutOfBounds
      else if is_eol (b i) then skipEOLs b (Suc i) else Inr i)"
  by pat_completeness auto
termination
  by (relation "measure (\<lambda>(b, i). Suc MAX_AT_RESPONSE - i)") auto

declare skipEOLs.simps [simp del]

text \<open>\<^verbatim>\<open>strlen\<close> of the text that starts at an index of the array.\<close>

function strlen_at :: "(nat \<Rightarrow> char) \<Rightarrow> nat \<Rightarrow> nat c_result" where
  "strlen_at b i =
     (if MAX_AT_RESPONSE < i then Inl OutOfBounds
      else if b i = NUL then Inr 0
      else and_then (strlen_at b (Suc i)) (\<lambda>n. Inr (Suc n)))"
  by pat_completeness auto
termination
  by (relation "measure (\<lambda>(b, i). Suc MAX_AT_RESPONSE - i)") auto

declare strlen_at.simps [simp del]

definition memmove_front :: "(nat \<Rightarrow> char) \<Rightarrow> nat \<Rightarrow> nat \<Rightarrow> nat \<Rightarrow> char" where
  "memmove_front b cur n = (\<lambda>i. if i < n then b (cur + i) else b i)"

definition store :: "(nat \<Rightarrow> char) \<Rightarrow> nat \<Rightarrow> string \<Rightarrow> nat \<Rightarrow> char" where
  "store b i d = (\<lambda>j. if i \<le> j \<and> j < i + length d then d ! (j - i) else b j)"

text \<open>
  \<^verbatim>\<open>do count = read(...); while (count < 0 && errno == EINTR);\<close> with room for \<open>n\<close> bytes:
  the count, the bytes and what is left to read.
\<close>

fun read_fd :: "nat \<Rightarrow> rd_event list \<Rightarrow> int \<times> string \<times> rd_event list" where
  "read_fd n [] = (0, [], [])"
| "read_fd n (RdEINTR # es) = read_fd n es"
| "read_fd n (RdError # es) = (-1, [], es)"
| "read_fd n (RdData bs # es) =
     (int (length (take n bs)), take n bs,
      if drop n bs = [] then es else RdData (drop n bs) # es)"

fun ev_size :: "rd_event list \<Rightarrow> nat" where
  "ev_size [] = 0"
| "ev_size (RdData bs # es) = Suc (length bs) + ev_size es"
| "ev_size (_ # es) = Suc (ev_size es)"

lemma read_fd_size: "0 < fst (read_fd n es) \<Longrightarrow> ev_size (snd (snd (read_fd n es))) < ev_size es"
  by (induction n es rule: read_fd.induct) auto

lemma read_fd_size': "(c, d, es') = read_fd n es \<Longrightarrow> 0 < c \<Longrightarrow> ev_size es' < ev_size es"
  using read_fd_size [of n es] by (metis fst_conv snd_conv)

text \<open>A full buffer without a line end is ditched: \<^verbatim>\<open>Input line exceeded buffer\<close>.\<close>

definition ditch_full :: "rl_state \<Rightarrow> nat \<Rightarrow> rl_state \<times> nat" where
  "ditch_full st p_read =
     (if MAX_AT_RESPONSE - p_read = 0
      then (st\<lparr>s_ATBufferCur := 0, s_ATBuffer := (s_ATBuffer st)(0 := NUL)\<rparr>, 0)
      else (st, p_read))"

text \<open>
  The loop \<^verbatim>\<open>while (p_eol == NULL)\<close>; \<open>Inr (Some p_eol, \<dots>)\<close> leaves it with a line end,
  \<open>Inr (None, \<dots>)\<close> is \<^verbatim>\<open>return NULL\<close> at the end of the input or a read error.
\<close>

function fill_line ::
  "rl_state \<Rightarrow> nat \<Rightarrow> rd_event list \<Rightarrow> (nat option \<times> rl_state \<times> rd_event list) c_result" where
  "fill_line st0 p_read0 es =
     (case ditch_full st0 p_read0 of (st, p_read) \<Rightarrow>
      (case read_fd (MAX_AT_RESPONSE - p_read) es of (count, d, es') \<Rightarrow>
         if 0 < count
         then (let b = (store (s_ATBuffer st) p_read d)(p_read + length d := NUL)
               in and_then (skipEOLs b (s_ATBufferCur st)) (\<lambda>cur.
                  and_then (findNextEOL b cur) (\<lambda>p_eol.
                    let st' = st\<lparr>s_ATBuffer := b, s_ATBufferCur := cur,
                                 s_readCount := cint (s_readCount st + count)\<rparr>
                    in if p_eol \<noteq> None then Inr (p_eol, st', es')
                       else fill_line st' (p_read + length d) es')))
         else Inr (None, st, es')))"
  by pat_completeness auto
termination
  by (relation "measure (\<lambda>(st, p, es). ev_size es)") (auto dest: read_fd_size')

declare fill_line.simps [simp del]

text \<open>
  The first half of \<^verbatim>\<open>readline\<close>: what is left in the buffer. It gives the line end if the
  buffer holds a whole line, and otherwise the index \<^verbatim>\<open>p_read\<close> where the next bytes go.
\<close>

definition readline_start :: "rl_state \<Rightarrow> (nat option \<times> rl_state \<times> nat) c_result" where
  "readline_start st =
     and_then (peek (s_ATBuffer st) (s_ATBufferCur st)) (\<lambda>c.
       if c = NUL
       then Inr (None, st\<lparr>s_ATBufferCur := 0, s_ATBuffer := (s_ATBuffer st)(0 := NUL)\<rparr>, 0)
       else and_then (skipEOLs (s_ATBuffer st) (s_ATBufferCur st)) (\<lambda>cur.
            and_then (findNextEOL (s_ATBuffer st) cur) (\<lambda>p_eol.
              if p_eol \<noteq> None then Inr (p_eol, st\<lparr>s_ATBufferCur := cur\<rparr>, 0)
              else and_then (strlen_at (s_ATBuffer st) cur) (\<lambda>len.
                Inr (None, st\<lparr>s_ATBuffer := memmove_front (s_ATBuffer st) cur (len + 1),
                              s_ATBufferCur := 0\<rparr>, len)))))"

text \<open>The line that starts at the cursor and ends at \<^verbatim>\<open>p_eol\<close> is handed out.\<close>

definition take_line :: "nat \<Rightarrow> rl_state \<Rightarrow> string \<times> rl_state" where
  "take_line p_eol st =
     (map (s_ATBuffer st) [s_ATBufferCur st ..< p_eol],
      st\<lparr>s_ATBuffer := (s_ATBuffer st)(p_eol := NUL), s_ATBufferCur := p_eol + 1\<rparr>)"

definition readline ::
  "rl_state \<Rightarrow> rd_event list \<Rightarrow> (string option \<times> rl_state \<times> rd_event list) c_result" where
  "readline st es =
     and_then (readline_start st) (\<lambda>(p_eol, st, p_read).
     and_then (if p_eol = None then fill_line st p_read es else Inr (p_eol, st, es))
       (\<lambda>(p_eol, st, es).
          case p_eol of
            None \<Rightarrow> Inr (None, st, es)
          | Some e \<Rightarrow> (case take_line e st of (ret, st) \<Rightarrow> Inr (Some ret, st, es))))"

section \<open>What the buffer holds\<close>

text \<open>
  \<open>holds b i s\<close>: the text at index \<open>i\<close> of the array is \<open>s\<close>, its terminator included
  within the array's bounds.
\<close>

fun holds :: "(nat \<Rightarrow> char) \<Rightarrow> nat \<Rightarrow> string \<Rightarrow> bool" where
  "holds b i [] = (i \<le> MAX_AT_RESPONSE \<and> b i = NUL)"
| "holds b i (c # s) = (b i = c \<and> c \<noteq> NUL \<and> holds b (Suc i) s)"

lemma holds_bound: "holds b i s \<Longrightarrow> i + length s \<le> MAX_AT_RESPONSE"
  by (induction s arbitrary: i) fastforce+

lemma holds_no_NUL: "holds b i s \<Longrightarrow> NUL \<notin> set s"
  by (induction s arbitrary: i) auto

lemma holds_cong: "(\<And>j. i \<le> j \<Longrightarrow> j \<le> i + length s \<Longrightarrow> b' j = b j) \<Longrightarrow> holds b i s = holds b' i s"
proof (induction s arbitrary: i)
  case Nil
  then show ?case by simp
next
  case (Cons c s)
  from Cons.prems have "b' i = b i" and "holds b (Suc i) s = holds b' (Suc i) s"
    by (auto intro!: Cons.IH)
  then show ?case by simp
qed

lemma holds_append: "holds b i (s @ t) \<longleftrightarrow>
    NUL \<notin> set s \<and> (\<forall>k < length s. b (i + k) = s ! k) \<and> holds b (i + length s) t"
proof (induction s arbitrary: i)
  case Nil
  then show ?case by simp
next
  case (Cons c s)
  have "(\<forall>k < length (c # s). b (i + k) = (c # s) ! k) \<longleftrightarrow>
      b i = c \<and> (\<forall>k < length s. b (Suc i + k) = s ! k)"
    by (auto simp: less_Suc_eq_0_disj)
  then show ?case using Cons.IH [of "Suc i"] by auto
qed

lemma holds_map: "holds b i (s @ t) \<Longrightarrow> map b [i ..< i + length s] = s"
  by (auto simp: holds_append intro!: nth_equalityI)

lemma scanEOL_holds:
  "holds b i s \<Longrightarrow> scanEOL b i = Inr (if \<exists>c \<in> set s. is_eol c
     then Some (i + length (takeWhile (\<lambda>c. \<not> is_eol c) s)) else None)"
proof (induction s arbitrary: i)
  case Nil
  then show ?case by (simp add: scanEOL.simps)
next
  case (Cons c s)
  then have "i \<le> MAX_AT_RESPONSE" using holds_bound by fastforce
  with Cons show ?case by (simp add: scanEOL.simps [of b i])
qed

lemma not_is_eol_NUL [simp]: "\<not> is_eol NUL"
  by (simp add: is_eol_def NUL_def)

lemma skipEOLs_holds:
  "holds b i s \<Longrightarrow> skipEOLs b i = Inr (i + length (takeWhile is_eol s)) \<and>
     holds b (i + length (takeWhile is_eol s)) (dropWhile is_eol s)"
proof (induction s arbitrary: i)
  case Nil
  then show ?case by (simp add: skipEOLs.simps)
next
  case (Cons c s)
  then have "i \<le> MAX_AT_RESPONSE" using holds_bound by fastforce
  with Cons.prems Cons.IH [of "Suc i"] show ?case by (auto simp: skipEOLs.simps [of b i])
qed

lemma strlen_at_holds: "holds b i s \<Longrightarrow> strlen_at b i = Inr (length s)"
proof (induction s arbitrary: i)
  case Nil
  then show ?case by (simp add: strlen_at.simps)
next
  case (Cons c s)
  then have "i \<le> MAX_AT_RESPONSE" using holds_bound by fastforce
  with Cons show ?case by (simp add: strlen_at.simps [of b i])
qed

lemma peek_holds: "holds b i s \<Longrightarrow> peek b i = Inr (case s of [] \<Rightarrow> NUL | c # _ \<Rightarrow> c)"
  using holds_bound by (cases s) (fastforce simp: peek_def)+

lemma findNextEOL_holds:
  assumes "holds b i s" "CHR ''>'' \<notin> set s"
  shows "findNextEOL b i = scanEOL b i"
  using assms peek_holds [OF assms(1)] by (cases s) (auto simp: findNextEOL_def NUL_def)

lemma holds_memmove_front:
  assumes "holds b cur s"
  shows "holds (memmove_front b cur (length s + 1)) 0 s"
proof -
  have s: "NUL \<notin> set s" "\<forall>k < length s. b (cur + k) = s ! k" "b (cur + length s) = NUL"
    and len: "cur + length s \<le> MAX_AT_RESPONSE"
    using assms holds_append [of b cur s "[]"] holds_bound [OF assms] by auto
  then show ?thesis
    using holds_append [of "memmove_front b cur (length s + 1)" 0 s "[]"]
    by (auto simp: memmove_front_def)
qed

lemma holds_store:
  assumes "holds b i s" "NUL \<notin> set d" "i + length s + length d \<le> MAX_AT_RESPONSE"
  shows "holds ((store b (i + length s) d)(i + length s + length d := NUL)) i (s @ d)"
proof -
  let ?b = "(store b (i + length s) d)(i + length s + length d := NUL)"
  have s: "NUL \<notin> set s" "\<forall>k < length s. b (i + k) = s ! k"
    using assms(1) holds_append [of b i s "[]"] by auto
  have "holds ?b (i + length s) d"
    using assms(2,3) holds_append [of ?b "i + length s" d "[]"] by (auto simp: store_def)
  with s show ?thesis
    by (auto simp: holds_append store_def)
qed

end
