(* ===== verification/AtChannel.thy ===== *)
theory AtChannel
  imports AtTok AtBuffer
begin

text \<open>
  \<^verbatim>\<open>fwril-100/atchannel.c\<close>: classification of the lines the modem sends, the pending command,
  writing a command, waiting for its final response, and the public \<^verbatim>\<open>at_send_command\<close>
  family. The static variables of the file are the fields of \<open>at_chan\<close>; a function pointer is
  modelled by whether it is set. The intermediate responses are a list with the head of the C
  list first.

  While a command waits, the reader thread runs. What happens meanwhile is a list of
  \<open>cmd_event\<close>s: lines, two-line SMS indications, the end of the input, a timeout, a spurious
  wake-up. If the list ends before the wait loop does, the caller is \<open>Blocked\<close>. Calls of the
  user's handlers are collected as \<open>callback\<close>s, in order.
\<close>

section \<open>Data\<close>

definition AT_ERROR_GENERIC :: int where "AT_ERROR_GENERIC = -1"
definition AT_ERROR_COMMAND_PENDING :: int where "AT_ERROR_COMMAND_PENDING = -2"
definition AT_ERROR_CHANNEL_CLOSED :: int where "AT_ERROR_CHANNEL_CLOSED = -3"
definition AT_ERROR_TIMEOUT :: int where "AT_ERROR_TIMEOUT = -4"
definition AT_ERROR_INVALID_THREAD :: int where "AT_ERROR_INVALID_THREAD = -5"
definition AT_ERROR_INVALID_RESPONSE :: int where "AT_ERROR_INVALID_RESPONSE = -6"

definition HANDSHAKE_RETRY_COUNT :: nat where "HANDSHAKE_RETRY_COUNT = 8"
definition HANDSHAKE_TIMEOUT_MSEC :: nat where "HANDSHAKE_TIMEOUT_MSEC = 250"

lemmas at_error_defs =
  AT_ERROR_GENERIC_def AT_ERROR_COMMAND_PENDING_def AT_ERROR_CHANNEL_CLOSED_def
  AT_ERROR_TIMEOUT_def AT_ERROR_INVALID_THREAD_def AT_ERROR_INVALID_RESPONSE_def

datatype ATCommandType = NO_RESULT | NUMERIC | SINGLELINE | MULTILINE

record ATResponse =
  success :: int
  finalResponse :: "string option"
  p_intermediates :: "string list"

datatype wr_event = WrCount nat | WrEINTR | WrError

record at_chan =
  s_fd :: int
  s_unsolHandler :: bool
  s_type :: ATCommandType
  s_responsePrefix :: "string option"
  s_smsPDU :: "string option"
  sp_response :: "ATResponse option"
  s_onTimeout :: bool
  s_onReaderClosed :: bool
  s_readerClosed :: int
  rl :: rl_state
  wr_script :: "wr_event list"  \<comment> \<open>what the next calls of write return; then all is accepted\<close>
  wire :: string                \<comment> \<open>the bytes the port has accepted\<close>

datatype callback = CbUnsol string "string option" | CbReaderClosed | CbTimeout

datatype cmd_event = Line string | SmsLines string string | ReaderEOF | TimedOut | Spurious

datatype thread = ReaderThread | CommandThread

section \<open>Line classification\<close>

definition s_finalResponsesError :: "string list" where
  "s_finalResponsesError =
     [''ERROR'', ''+CMS ERROR:'', ''+CME ERROR:'', ''NO CARRIER'', ''NO ANSWER'', ''NO DIALTONE'']"

fun startsWithAny :: "string \<Rightarrow> string list \<Rightarrow> bool" where
  "startsWithAny line [] = False"
| "startsWithAny line (p # ps) = (if strStartsWith line p then True else startsWithAny line ps)"

definition isFinalResponseError :: "string \<Rightarrow> bool" where
  "isFinalResponseError line = startsWithAny line s_finalResponsesError"

definition s_finalResponsesSuccess :: "string list" where
  "s_finalResponsesSuccess = [''OK'', ''CONNECT'']"

definition isFinalResponseSuccess :: "string \<Rightarrow> bool" where
  "isFinalResponseSuccess line = startsWithAny line s_finalResponsesSuccess"

definition isFinalResponse :: "string \<Rightarrow> bool" where
  "isFinalResponse line \<longleftrightarrow> isFinalResponseSuccess line \<or> isFinalResponseError line"

definition s_smsUnsoliciteds :: "string list" where
  "s_smsUnsoliciteds = [''+CMT:'', ''+CDS:'', ''+CBM:'']"

definition isSMSUnsolicited :: "string \<Rightarrow> bool" where
  "isSMSUnsolicited line = startsWithAny line s_smsUnsoliciteds"

section \<open>Writing to the port\<close>

text \<open>One \<^verbatim>\<open>write\<close> of \<open>n\<close> bytes, repeated while it is interrupted.\<close>

fun write_fd :: "nat \<Rightarrow> wr_event list \<Rightarrow> int \<times> wr_event list" where
  "write_fd n [] = (int n, [])"
| "write_fd n (WrEINTR # ws) = write_fd n ws"
| "write_fd n (WrError # ws) = (-1, ws)"
| "write_fd n (WrCount k # ws) = (int (min k n), ws)"

lemma write_fd_shrinks:
  "(c, ws') = write_fd n ws \<Longrightarrow> 0 < n \<Longrightarrow> length ws' + (n - nat c) < length ws + n"
  by (induction n ws rule: write_fd.induct) fastforce+

function write_all :: "string \<Rightarrow> wr_event list \<Rightarrow> bool \<times> string \<times> wr_event list" where
  "write_all s ws =
     (if s = [] then (True, [], ws)
      else (case write_fd (length s) ws of (written, ws') \<Rightarrow>
        if written < 0 then (False, [], ws')
        else (case write_all (drop (nat written) s) ws' of
                (ok, sent, ws'') \<Rightarrow> (ok, take (nat written) s @ sent, ws''))))"
  by pat_completeness auto
termination
  by (relation "measure (\<lambda>(s, ws). length ws + length s)") (auto dest: write_fd_shrinks)

declare write_all.simps [simp del]

text \<open>\<^verbatim>\<open>do write(fd, c, 1) while (interrupted or 0 written)\<close>\<close>

fun write_term :: "wr_event list \<Rightarrow> bool \<times> wr_event list" where
  "write_term [] = (True, [])"
| "write_term (WrEINTR # ws) = write_term ws"
| "write_term (WrError # ws) = (False, ws)"
| "write_term (WrCount k # ws) = (if k = 0 then write_term ws else (True, ws))"

text \<open>\<^verbatim>\<open>writeline\<close> and \<^verbatim>\<open>writeCtrlZ\<close> are the same code up to the terminator.\<close>

definition write_with :: "char \<Rightarrow> string \<Rightarrow> at_chan \<Rightarrow> int \<times> at_chan" where
  "write_with term s ch =
     (if s_fd ch < 0 \<or> s_readerClosed ch > 0 then (AT_ERROR_CHANNEL_CLOSED, ch)
      else (case write_all s (wr_script ch) of (ok, sent, ws) \<Rightarrow>
        if \<not> ok then (AT_ERROR_GENERIC, ch\<lparr>wire := wire ch @ sent, wr_script := ws\<rparr>)
        else (case write_term ws of (ok', ws') \<Rightarrow>
          if \<not> ok' then (AT_ERROR_GENERIC, ch\<lparr>wire := wire ch @ sent, wr_script := ws'\<rparr>)
          else (0, ch\<lparr>wire := wire ch @ sent @ [term], wr_script := ws'\<rparr>))))"

definition writeline :: "string \<Rightarrow> at_chan \<Rightarrow> int \<times> at_chan" where
  "writeline s ch = write_with CR s ch"

definition writeCtrlZ :: "string \<Rightarrow> at_chan \<Rightarrow> int \<times> at_chan" where
  "writeCtrlZ s ch = write_with (CHR 0x1A) s ch"

section \<open>The reader thread\<close>

definition addIntermediate :: "string \<Rightarrow> ATResponse \<Rightarrow> ATResponse" where
  "addIntermediate line r = r\<lparr>p_intermediates := line # p_intermediates r\<rparr>"

definition handleFinalResponse :: "string \<Rightarrow> ATResponse \<Rightarrow> ATResponse" where
  "handleFinalResponse line r = r\<lparr>finalResponse := Some line\<rparr>"

definition handleUnsolicited :: "string \<Rightarrow> at_chan \<Rightarrow> callback list" where
  "handleUnsolicited line ch = (if s_unsolHandler ch then [CbUnsol line None] else [])"

definition line_is_digit :: "string \<Rightarrow> bool" where
  "line_is_digit line = (case line of [] \<Rightarrow> False | c # _ \<Rightarrow> isdigit c)"

definition processLine :: "string \<Rightarrow> at_chan \<Rightarrow> (at_chan \<times> callback list) c_result" where
  "processLine line ch =
     (let unsol = Inr (ch, handleUnsolicited line ch) in
      case sp_response ch of
        None \<Rightarrow> unsol
      | Some r \<Rightarrow>
          (let add = Inr (ch\<lparr>sp_response := Some (addIntermediate line r)\<rparr>, []) in
           if isFinalResponseSuccess line
           then Inr (ch\<lparr>sp_response := Some (handleFinalResponse line (r\<lparr>success := 1\<rparr>))\<rparr>, [])
           else if isFinalResponseError line
           then Inr (ch\<lparr>sp_response := Some (handleFinalResponse line (r\<lparr>success := 0\<rparr>))\<rparr>, [])
           else if s_smsPDU ch \<noteq> None \<and> line = ''> ''
           then Inr ((snd (writeCtrlZ (the (s_smsPDU ch)) ch))\<lparr>s_smsPDU := None\<rparr>, [])
           else (case s_type ch of
               NO_RESULT \<Rightarrow> unsol
             | NUMERIC \<Rightarrow>
                 if p_intermediates r = [] \<and> line_is_digit line then add else unsol
             | SINGLELINE \<Rightarrow>
                 if p_intermediates r = []
                 then and_then (deref (s_responsePrefix ch)) (\<lambda>prefix.
                        if strStartsWith line prefix then add else unsol)
                 else unsol
             | MULTILINE \<Rightarrow>
                 and_then (deref (s_responsePrefix ch)) (\<lambda>prefix.
                   if strStartsWith line prefix then add else unsol))))"

definition onReaderClosed :: "at_chan \<Rightarrow> at_chan \<times> callback list" where
  "onReaderClosed ch =
     (if s_onReaderClosed ch \<and> s_readerClosed ch = 0
      then (ch\<lparr>s_readerClosed := 1\<rparr>, [CbReaderClosed]) else (ch, []))"

text \<open>
  One round of \<^verbatim>\<open>readerLoop\<close>, with \<open>True\<close> when the loop is left: a line is read and
  processed; the first line of a two-line SMS indication is delivered together with the next.
\<close>

definition readerLoop_round ::
  "at_chan \<Rightarrow> rd_event list \<Rightarrow> (bool \<times> at_chan \<times> callback list \<times> rd_event list) c_result" where
  "readerLoop_round ch es =
     and_then (readline (rl ch) es) (\<lambda>(line, st, es).
       case line of
         None \<Rightarrow> Inr (True, ch\<lparr>rl := st\<rparr>, [], es)
       | Some line1 \<Rightarrow>
           if isSMSUnsolicited line1
           then and_then (readline st es) (\<lambda>(line, st, es).
                  case line of
                    None \<Rightarrow> Inr (True, ch\<lparr>rl := st\<rparr>, [], es)
                  | Some line2 \<Rightarrow> Inr (False, ch\<lparr>rl := st\<rparr>,
                      if s_unsolHandler ch then [CbUnsol line1 (Some line2)] else [], es))
           else and_then (processLine line1 (ch\<lparr>rl := st\<rparr>)) (\<lambda>(ch, cbs).
                  Inr (False, ch, cbs, es)))"

text \<open>The thread's main function; fuel bounds the number of rounds.\<close>

fun readerLoop :: "nat \<Rightarrow> at_chan \<Rightarrow> rd_event list \<Rightarrow> (at_chan \<times> callback list) c_result" where
  "readerLoop 0 ch es = Inl Blocked"
| "readerLoop (Suc n) ch es =
     and_then (readerLoop_round ch es) (\<lambda>(stop, ch, cbs, es).
       if stop then (case onReaderClosed ch of (ch, cbs') \<Rightarrow> Inr (ch, cbs @ cbs'))
       else and_then (readerLoop n ch es) (\<lambda>(ch, cbs'). Inr (ch, cbs @ cbs')))"

section \<open>The command thread\<close>

definition at_response_new :: ATResponse where
  "at_response_new = \<lparr>success = 0, finalResponse = None, p_intermediates = []\<rparr>"

definition clearPendingCommand :: "at_chan \<Rightarrow> at_chan" where
  "clearPendingCommand ch = ch\<lparr>sp_response := None, s_responsePrefix := None, s_smsPDU := None\<rparr>"

text \<open>The list reversal loop of \<^verbatim>\<open>reverseIntermediates\<close>, from \<^verbatim>\<open>pcur\<close> onto the new head.\<close>

fun reverse_onto :: "string list \<Rightarrow> string list \<Rightarrow> string list" where
  "reverse_onto [] acc = acc"
| "reverse_onto (pcur # pnext) acc = reverse_onto pnext (pcur # acc)"

definition reverseIntermediates :: "ATResponse \<Rightarrow> ATResponse" where
  "reverseIntermediates r = r\<lparr>p_intermediates := reverse_onto (p_intermediates r) []\<rparr>"

text \<open>What the reader thread does while a command waits.\<close>

definition reader_event :: "cmd_event \<Rightarrow> at_chan \<Rightarrow> (at_chan \<times> callback list) c_result" where
  "reader_event e ch = (case e of
       Line l \<Rightarrow> processLine l ch
     | SmsLines l1 l2 \<Rightarrow> Inr (ch, if s_unsolHandler ch then [CbUnsol l1 (Some l2)] else [])
     | ReaderEOF \<Rightarrow> Inr (onReaderClosed ch)
     | TimedOut \<Rightarrow> Inr (ch, [])
     | Spurious \<Rightarrow> Inr (ch, []))"

text \<open>The first part of \<^verbatim>\<open>at_send_command_full_nolock\<close>, up to the wait loop.\<close>

definition start_command ::
  "string \<Rightarrow> ATCommandType \<Rightarrow> string option \<Rightarrow> string option \<Rightarrow> at_chan \<Rightarrow> int \<times> at_chan" where
  "start_command command type responsePrefix smspdu ch =
     (if sp_response ch \<noteq> None then (AT_ERROR_COMMAND_PENDING, ch)
      else (case writeline command ch of (err, ch) \<Rightarrow>
        if err < 0 then (err, ch)
        else (0, ch\<lparr>s_type := type, s_responsePrefix := responsePrefix, s_smsPDU := smspdu,
                   sp_response := Some at_response_new\<rparr>)))"

text \<open>
  The loop \<^verbatim>\<open>while (sp_response->finalResponse == NULL && s_readerClosed == 0)\<close>. It returns
  whether it was left by a timeout, which only a wait with a time limit can see.
\<close>

fun wait_loop :: "nat \<Rightarrow> cmd_event list \<Rightarrow> at_chan \<Rightarrow>
    (bool \<times> at_chan \<times> callback list \<times> cmd_event list) c_result" where
  "wait_loop timeoutMsec es ch =
     and_then (deref (sp_response ch)) (\<lambda>r.
       if finalResponse r = None \<and> s_readerClosed ch = 0
       then (case es of
           [] \<Rightarrow> Inl Blocked
         | e # es' \<Rightarrow>
             if e = TimedOut \<and> timeoutMsec \<noteq> 0 then Inr (True, ch, [], es')
             else and_then (reader_event e ch) (\<lambda>(ch, cbs).
                  and_then (wait_loop timeoutMsec es' ch) (\<lambda>(t, ch, cbs', rest).
                    Inr (t, ch, cbs @ cbs', rest))))
       else Inr (False, ch, [], es))"

declare wait_loop.simps [simp del]

record cmd_result =
  cr_err :: int
  cr_out :: "ATResponse option"      \<comment> \<open>what is stored in \<^verbatim>\<open>*pp_outResponse\<close>, if anything\<close>
  cr_chan :: at_chan
  cr_cbs :: "callback list"
  cr_rest :: "cmd_event list"

text \<open>The part behind the wait loop, down to the label \<^verbatim>\<open>error\<close>.\<close>

definition finish_command ::
  "bool \<Rightarrow> bool \<Rightarrow> at_chan \<Rightarrow> callback list \<Rightarrow> cmd_event list \<Rightarrow> cmd_result" where
  "finish_command want timedout ch cbs rest =
     (if timedout
      then \<lparr>cr_err = AT_ERROR_TIMEOUT, cr_out = None, cr_chan = clearPendingCommand ch,
            cr_cbs = cbs, cr_rest = rest\<rparr>
      else \<lparr>cr_err = (if s_readerClosed ch > 0 then AT_ERROR_CHANNEL_CLOSED else 0),
            cr_out = (if want then map_option reverseIntermediates (sp_response ch) else None),
            cr_chan = clearPendingCommand (ch\<lparr>sp_response := None\<rparr>),
            cr_cbs = cbs, cr_rest = rest\<rparr>)"

definition at_send_command_full_nolock ::
  "string \<Rightarrow> ATCommandType \<Rightarrow> string option \<Rightarrow> string option \<Rightarrow> nat \<Rightarrow> bool \<Rightarrow> cmd_event list \<Rightarrow>
     at_chan \<Rightarrow> cmd_result c_result" where
  "at_send_command_full_nolock command type responsePrefix smspdu timeoutMsec want es ch =
     (case start_command command type responsePrefix smspdu ch of (err, ch) \<Rightarrow>
        if err < 0
        then Inr \<lparr>cr_err = err, cr_out = None, cr_chan = clearPendingCommand ch,
                  cr_cbs = [], cr_rest = es\<rparr>
        else and_then (wait_loop timeoutMsec es ch) (\<lambda>(timedout, ch, cbs, rest).
               Inr (finish_command want timedout ch cbs rest)))"

definition at_send_command_full ::
  "thread \<Rightarrow> string \<Rightarrow> ATCommandType \<Rightarrow> string option \<Rightarrow> string option \<Rightarrow> nat \<Rightarrow> bool \<Rightarrow>
     cmd_event list \<Rightarrow> at_chan \<Rightarrow> cmd_result c_result" where
  "at_send_command_full self command type responsePrefix smspdu timeoutMsec want es ch =
     (if self = ReaderThread
      then Inr \<lparr>cr_err = AT_ERROR_INVALID_THREAD, cr_out = None, cr_chan = ch, cr_cbs = [],
                cr_rest = es\<rparr>
      else and_then
        (at_send_command_full_nolock command type responsePrefix smspdu timeoutMsec want es ch)
        (\<lambda>res. Inr (if cr_err res = AT_ERROR_TIMEOUT \<and> s_onTimeout (cr_chan res)
                    then res\<lparr>cr_cbs := cr_cbs res @ [CbTimeout]\<rparr> else res)))"

definition at_send_command ::
  "thread \<Rightarrow> string \<Rightarrow> bool \<Rightarrow> cmd_event list \<Rightarrow> at_chan \<Rightarrow> cmd_result c_result" where
  "at_send_command self command want es ch =
     at_send_command_full self command NO_RESULT None None 0 want es ch"

text \<open>
  The check the single-line, numeric and SMS variants share: a successful command must have an
  intermediate response.
\<close>

definition need_intermediate :: "bool \<Rightarrow> cmd_result \<Rightarrow> cmd_result c_result" where
  "need_intermediate want res =
     (if cr_err res = 0 \<and> want
      then and_then (deref (cr_out res)) (\<lambda>r.
             Inr (if success r > 0 \<and> p_intermediates r = []
                  then res\<lparr>cr_out := None, cr_err := AT_ERROR_INVALID_RESPONSE\<rparr> else res))
      else Inr res)"

definition at_send_command_singleline ::
  "thread \<Rightarrow> string \<Rightarrow> string \<Rightarrow> bool \<Rightarrow> cmd_event list \<Rightarrow> at_chan \<Rightarrow> cmd_result c_result" where
  "at_send_command_singleline self command responsePrefix want es ch =
     and_then (at_send_command_full self command SINGLELINE (Some responsePrefix) None 0 want es ch)
       (need_intermediate want)"

definition at_send_command_numeric ::
  "thread \<Rightarrow> string \<Rightarrow> bool \<Rightarrow> cmd_event list \<Rightarrow> at_chan \<Rightarrow> cmd_result c_result" where
  "at_send_command_numeric self command want es ch =
     and_then (at_send_command_full self command NUMERIC None None 0 want es ch)
       (need_intermediate want)"

definition at_send_command_sms ::
  "thread \<Rightarrow> string \<Rightarrow> string \<Rightarrow> string \<Rightarrow> bool \<Rightarrow> cmd_event list \<Rightarrow> at_chan \<Rightarrow> cmd_result c_result"
  where
  "at_send_command_sms self command pdu responsePrefix want es ch =
     and_then (at_send_command_full self command SINGLELINE (Some responsePrefix) (Some pdu) 0 want
        es ch)
       (need_intermediate want)"

definition at_send_command_multiline ::
  "thread \<Rightarrow> string \<Rightarrow> string \<Rightarrow> bool \<Rightarrow> cmd_event list \<Rightarrow> at_chan \<Rightarrow> cmd_result c_result" where
  "at_send_command_multiline self command responsePrefix want es ch =
     at_send_command_full self command MULTILINE (Some responsePrefix) None 0 want es ch"

text \<open>\<^verbatim>\<open>at_handshake\<close>: up to \<open>n\<close> more attempts, the last error is returned.\<close>

fun handshake_tries :: "nat \<Rightarrow> int \<Rightarrow> cmd_event list \<Rightarrow> at_chan \<Rightarrow> cmd_result c_result" where
  "handshake_tries 0 err es ch =
     Inr \<lparr>cr_err = err, cr_out = None, cr_chan = ch, cr_cbs = [], cr_rest = es\<rparr>"
| "handshake_tries (Suc n) err es ch =
     and_then (at_send_command_full_nolock ''ATE0Q0V1'' NO_RESULT None None HANDSHAKE_TIMEOUT_MSEC
        False es ch)
       (\<lambda>res. if cr_err res = 0 then Inr res
              else and_then (handshake_tries n (cr_err res) (cr_rest res) (cr_chan res))
                     (\<lambda>res'. Inr (res'\<lparr>cr_cbs := cr_cbs res @ cr_cbs res'\<rparr>)))"

definition at_handshake :: "thread \<Rightarrow> cmd_event list \<Rightarrow> at_chan \<Rightarrow> cmd_result c_result" where
  "at_handshake self es ch =
     (if self = ReaderThread
      then Inr \<lparr>cr_err = AT_ERROR_INVALID_THREAD, cr_out = None, cr_chan = ch, cr_cbs = [],
                cr_rest = es\<rparr>
      else handshake_tries HANDSHAKE_RETRY_COUNT 0 es ch)"

section \<open>Opening, closing, error codes\<close>

text \<open>
  \<^verbatim>\<open>at_open\<close> on a build without the OMAP power control ioctl; \<open>create_ret\<close> is what
  \<^verbatim>\<open>pthread_create\<close> returns. The receive buffer is not touched.
\<close>

definition at_open :: "int \<Rightarrow> bool \<Rightarrow> int \<Rightarrow> at_chan \<Rightarrow> int \<times> at_chan" where
  "at_open fd h create_ret ch =
     (if create_ret < 0 then -1 else 0,
      ch\<lparr>s_fd := fd, s_unsolHandler := h, s_readerClosed := 0, s_responsePrefix := None,
         s_smsPDU := None, sp_response := None\<rparr>)"

definition at_close :: "at_chan \<Rightarrow> at_chan" where
  "at_close ch = ch\<lparr>s_fd := -1, s_readerClosed := 1\<rparr>"

definition at_set_on_timeout :: "bool \<Rightarrow> at_chan \<Rightarrow> at_chan" where
  "at_set_on_timeout h ch = ch\<lparr>s_onTimeout := h\<rparr>"

definition at_set_on_reader_closed :: "bool \<Rightarrow> at_chan \<Rightarrow> at_chan" where
  "at_set_on_reader_closed h ch = ch\<lparr>s_onReaderClosed := h\<rparr>"

definition CME_ERROR_NON_CME :: int where "CME_ERROR_NON_CME = -1"
definition CME_SUCCESS :: int where "CME_SUCCESS = 0"
definition CME_SIM_NOT_INSERTED :: int where "CME_SIM_NOT_INSERTED = 10"

definition at_get_cme_error :: "ATResponse \<Rightarrow> int" where
  "at_get_cme_error r =
     (if success r > 0 then CME_SUCCESS
      else if finalResponse r = None \<or> \<not> strStartsWith (the (finalResponse r)) ''+CME ERROR:''
      then CME_ERROR_NON_CME
      else (case at_tok_start (finalResponse r) of (err, p_cur) \<Rightarrow>
        if err < 0 then CME_ERROR_NON_CME
        else (case at_tok_nextint p_cur 0 of (err, ret, _) \<Rightarrow>
          if err < 0 then CME_ERROR_NON_CME else ret)))"

end
