(* ===== verification/AtProtocol.thy ===== *)
theory AtProtocol
  imports AtChannel
begin

text \<open>
  Laws of the AT channel. \<open>pending_ok\<close> is the invariant of the pending command: the intermediate
  responses collected so far fit the command's type. \<open>idle\<close> is the state between commands,
  which every call of the \<^verbatim>\<open>at_send_command\<close> family restores. The locale \<open>at_port\<close> states
  what a caller may rely on when a call returns, and is interpreted by each of the public
  operations; its client lemmas are the facts the request handlers use before they follow the
  response pointers.
\<close>

section \<open>The pending command\<close>

definition idle :: "at_chan \<Rightarrow> bool" where
  "idle ch \<longleftrightarrow> sp_response ch = None \<and> s_responsePrefix ch = None \<and> s_smsPDU ch = None"

definition expected :: "ATCommandType \<Rightarrow> string option \<Rightarrow> string \<Rightarrow> bool" where
  "expected type prefix line = (case type of
       NO_RESULT \<Rightarrow> False
     | NUMERIC \<Rightarrow> line_is_digit line
     | SINGLELINE \<Rightarrow> strStartsWith line (the prefix)
     | MULTILINE \<Rightarrow> strStartsWith line (the prefix))"

definition pending_ok :: "at_chan \<Rightarrow> bool" where
  "pending_ok ch \<longleftrightarrow> (case sp_response ch of
       None \<Rightarrow> True
     | Some r \<Rightarrow> 0 \<le> success r \<and>
         (s_type ch \<in> {SINGLELINE, MULTILINE} \<longrightarrow> s_responsePrefix ch \<noteq> None) \<and>
         (\<forall>l \<in> set (p_intermediates r). expected (s_type ch) (s_responsePrefix ch) l \<and>
            \<not> isFinalResponse l) \<and>
         (s_type ch \<noteq> MULTILINE \<longrightarrow> length (p_intermediates r) \<le> 1))"

lemma idle_pending_ok: "idle ch \<Longrightarrow> pending_ok ch"
  by (simp add: idle_def pending_ok_def)

lemma idle_clear [simp]: "idle (clearPendingCommand ch)"
  by (simp add: idle_def clearPendingCommand_def)

text \<open>The fields of the channel that writing to the port leaves alone.\<close>

lemma write_with_frame [simp]:
  "sp_response (snd (write_with t s ch)) = sp_response ch"
  "s_responsePrefix (snd (write_with t s ch)) = s_responsePrefix ch"
  "s_smsPDU (snd (write_with t s ch)) = s_smsPDU ch"
  "s_type (snd (write_with t s ch)) = s_type ch"
  "s_readerClosed (snd (write_with t s ch)) = s_readerClosed ch"
  "s_onReaderClosed (snd (write_with t s ch)) = s_onReaderClosed ch"
  "s_onTimeout (snd (write_with t s ch)) = s_onTimeout ch"
  "s_unsolHandler (snd (write_with t s ch)) = s_unsolHandler ch"
  "s_fd (snd (write_with t s ch)) = s_fd ch"
  "rl (snd (write_with t s ch)) = rl ch"
  by (auto simp: write_with_def split: prod.splits)

lemma processLine_no_fault: "pending_ok ch \<Longrightarrow> \<exists>ch' cbs. processLine line ch = Inr (ch', cbs)"
  by (auto simp: processLine_def pending_ok_def Let_def
      split: option.splits ATCommandType.splits if_splits)

lemma processLine_pending_ok:
  assumes "pending_ok ch" "processLine line ch = Inr (ch', cbs)"
  shows "pending_ok ch'"
proof (cases "sp_response ch")
  case None
  with assms show ?thesis by (simp add: processLine_def)
next
  case (Some r)
  with assms show ?thesis
    by (auto simp: processLine_def pending_ok_def Let_def handleFinalResponse_def
        addIntermediate_def expected_def isFinalResponse_def writeCtrlZ_def c_simps
        split: ATCommandType.splits if_splits)
qed

text \<open>Exactly one of four things happens to a line while a command is pending.\<close>

datatype line_fate = Final | Prompt | Intermediate | Unsolicited

definition line_fate :: "at_chan \<Rightarrow> ATResponse \<Rightarrow> string \<Rightarrow> line_fate" where
  "line_fate ch r line =
     (if isFinalResponse line then Final
      else if s_smsPDU ch \<noteq> None \<and> line = ''> '' then Prompt
      else if expected (s_type ch) (s_responsePrefix ch) line \<and>
        (s_type ch = MULTILINE \<or> p_intermediates r = []) then Intermediate
      else Unsolicited)"

lemma processLine_fate:
  assumes "pending_ok ch" "sp_response ch = Some r"
  shows "processLine line ch = Inr (case line_fate ch r line of
      Final \<Rightarrow> (ch\<lparr>sp_response := Some (r\<lparr>success := (if isFinalResponseSuccess line then 1 else 0),
                 finalResponse := Some line\<rparr>)\<rparr>, [])
    | Prompt \<Rightarrow> ((snd (writeCtrlZ (the (s_smsPDU ch)) ch))\<lparr>s_smsPDU := None\<rparr>, [])
    | Intermediate \<Rightarrow> (ch\<lparr>sp_response := Some (addIntermediate line r)\<rparr>, [])
    | Unsolicited \<Rightarrow> (ch, handleUnsolicited line ch))"
  using assms
  by (auto simp: processLine_def pending_ok_def line_fate_def isFinalResponse_def expected_def
      handleFinalResponse_def Let_def split: ATCommandType.splits)

lemma processLine_none:
  "sp_response ch = None \<Longrightarrow> processLine line ch = Inr (ch, handleUnsolicited line ch)"
  by (simp add: processLine_def)

subsection \<open>Waiting\<close>

text \<open>What the reader keeps while a command waits.\<close>

definition waiting_ok :: "at_chan \<Rightarrow> bool" where
  "waiting_ok ch \<longleftrightarrow> pending_ok ch \<and> sp_response ch \<noteq> None \<and> 0 \<le> s_readerClosed ch"

lemma processLine_keeps:
  assumes "pending_ok ch" "processLine line ch = Inr (ch', cbs)"
  shows "s_type ch' = s_type ch" "s_responsePrefix ch' = s_responsePrefix ch"
    "s_readerClosed ch' = s_readerClosed ch" "(sp_response ch' = None) = (sp_response ch = None)"
    "s_onTimeout ch' = s_onTimeout ch" "s_unsolHandler ch' = s_unsolHandler ch"
    "s_onReaderClosed ch' = s_onReaderClosed ch" "s_fd ch' = s_fd ch"
  using assms processLine_fate [OF assms(1)] processLine_none [of ch line]
  by (cases "sp_response ch"; auto simp: writeCtrlZ_def split: line_fate.splits)+

lemma reader_event_no_fault: "pending_ok ch \<Longrightarrow> \<exists>ch' cbs. reader_event e ch = Inr (ch', cbs)"
  using processLine_no_fault
  by (auto simp: reader_event_def onReaderClosed_def split: cmd_event.splits)

lemma reader_event_keeps:
  assumes "pending_ok ch" "reader_event e ch = Inr (ch', cbs)"
  shows "pending_ok ch'" "s_type ch' = s_type ch" "s_responsePrefix ch' = s_responsePrefix ch"
    "(sp_response ch' = None) = (sp_response ch = None)" "s_onTimeout ch' = s_onTimeout ch"
    "0 \<le> s_readerClosed ch \<Longrightarrow> 0 \<le> s_readerClosed ch'"
  using assms processLine_keeps [OF assms(1)] processLine_pending_ok [OF assms(1)]
  by (auto simp: reader_event_def onReaderClosed_def pending_ok_def
      split: cmd_event.splits if_splits option.splits)

lemma reader_event_waiting_ok:
  "waiting_ok ch \<Longrightarrow> reader_event e ch = Inr (ch', cbs) \<Longrightarrow> waiting_ok ch'"
  using reader_event_keeps [of ch e ch' cbs] by (auto simp: waiting_ok_def)

text \<open>The loop's exit condition, and the steps of the loop.\<close>

definition wait_over :: "at_chan \<Rightarrow> bool" where
  "wait_over ch \<longleftrightarrow> (\<exists>r. sp_response ch = Some r \<and>
     (finalResponse r \<noteq> None \<or> s_readerClosed ch \<noteq> 0))"

lemma wait_loop_over: "wait_over ch \<Longrightarrow> wait_loop tmo es ch = Inr (False, ch, [], es)"
  by (subst wait_loop.simps) (auto simp: wait_over_def)

lemma wait_loop_Nil:
  "waiting_ok ch \<Longrightarrow> \<not> wait_over ch \<Longrightarrow> wait_loop tmo [] ch = Inl Blocked"
  by (subst wait_loop.simps) (auto simp: wait_over_def waiting_ok_def)

lemma wait_loop_Cons:
  assumes "waiting_ok ch" "\<not> wait_over ch"
  shows "wait_loop tmo (e # es) ch =
    (if e = TimedOut \<and> tmo \<noteq> 0 then Inr (True, ch, [], es)
     else and_then (reader_event e ch) (\<lambda>(ch, cbs).
          and_then (wait_loop tmo es ch) (\<lambda>(t, ch, cbs', rest). Inr (t, ch, cbs @ cbs', rest))))"
  using assms by (subst wait_loop.simps) (auto simp: wait_over_def waiting_ok_def)

lemma wait_loop_faults:
  "waiting_ok ch \<Longrightarrow> wait_loop tmo es ch = Inl f \<Longrightarrow> f = Blocked"
proof (induction es arbitrary: ch)
  case Nil
  then show ?case using wait_loop_over wait_loop_Nil by (cases "wait_over ch") fastforce+
next
  case (Cons e es)
  show ?case
  proof (cases "wait_over ch \<or> e = TimedOut \<and> tmo \<noteq> 0")
    case True
    with Cons.prems wait_loop_over [of ch tmo "e # es"] wait_loop_Cons [of ch tmo e es]
    show ?thesis by (cases "wait_over ch") (auto split: if_splits)
  next
    case False
    obtain ch' cbs where re: "reader_event e ch = Inr (ch', cbs)"
      using reader_event_no_fault Cons.prems(1) unfolding waiting_ok_def by blast
    with False Cons.prems(1) have "wait_loop tmo (e # es) ch =
        and_then (wait_loop tmo es ch') (\<lambda>(t, ch, cbs', rest). Inr (t, ch, cbs @ cbs', rest))"
      by (subst wait_loop_Cons) auto
    with Cons.prems(2) have "wait_loop tmo es ch' = Inl f" by (auto simp: c_simps)
    with Cons.IH reader_event_waiting_ok [OF Cons.prems(1) re] show ?thesis by blast
  qed
qed

text \<open>When the loop is left, the command has its final response, the channel is closed, or the
  time is over; what has been collected still fits the command.\<close>

lemma wait_loop_result:
  assumes "waiting_ok ch" "wait_loop tmo es ch = Inr (t, ch', cbs, rest)"
  shows "waiting_ok ch' \<and> s_type ch' = s_type ch \<and> s_responsePrefix ch' = s_responsePrefix ch \<and>
    s_onTimeout ch' = s_onTimeout ch \<and> (t \<longrightarrow> tmo \<noteq> 0) \<and> (\<not> t \<longrightarrow> wait_over ch')"
  using assms
proof (induction es arbitrary: ch cbs)
  case Nil
  then show ?case using wait_loop_over wait_loop_Nil by (cases "wait_over ch") fastforce+
next
  case (Cons e es)
  show ?case
  proof (cases "wait_over ch \<or> e = TimedOut \<and> tmo \<noteq> 0")
    case True
    with Cons.prems wait_loop_over [of ch tmo "e # es"] wait_loop_Cons [of ch tmo e es]
    show ?thesis by (cases "wait_over ch") (auto split: if_splits)
  next
    case False
    obtain ch1 cbs1 where re: "reader_event e ch = Inr (ch1, cbs1)"
      using reader_event_no_fault Cons.prems(1) unfolding waiting_ok_def by blast
    with False Cons.prems obtain cbs' where "wait_loop tmo es ch1 = Inr (t, ch', cbs', rest)"
      by (subst (asm) wait_loop_Cons) (auto simp: c_simps)
    from Cons.IH [OF reader_event_waiting_ok [OF Cons.prems(1) re] this]
    show ?thesis using reader_event_keeps [OF _ re] Cons.prems(1) by (auto simp: waiting_ok_def)
  qed
qed

section \<open>The contract of a command\<close>

lemma start_command_cases:
  assumes "idle ch" "start_command cmd type pre pdu ch = (err, ch')"
  shows "err < 0 \<and> ch' = snd (writeline cmd ch) \<or>
    err = 0 \<and> fst (writeline cmd ch) \<ge> 0 \<and>
    ch' = (snd (writeline cmd ch))\<lparr>s_type := type, s_responsePrefix := pre, s_smsPDU := pdu,
                   sp_response := Some at_response_new\<rparr>"
  using assms by (auto simp: start_command_def idle_def split: prod.splits if_splits)

lemma started_waiting_ok:
  assumes "0 \<le> s_readerClosed ch" "type \<in> {SINGLELINE, MULTILINE} \<longrightarrow> pre \<noteq> None"
  shows "waiting_ok (ch\<lparr>s_type := type, s_responsePrefix := pre, s_smsPDU := pdu,
                   sp_response := Some at_response_new\<rparr>)"
  using assms by (auto simp: waiting_ok_def pending_ok_def at_response_new_def)

lemma write_with_ret: "fst (write_with t s ch) \<in> {0, AT_ERROR_GENERIC, AT_ERROR_CHANNEL_CLOSED}"
  by (auto simp: write_with_def split: prod.splits)

lemma start_command_err:
  assumes "start_command cmd type pre pdu ch = (err, ch')"
  shows "err \<in> {0, AT_ERROR_GENERIC, AT_ERROR_COMMAND_PENDING, AT_ERROR_CHANNEL_CLOSED}"
  using assms write_with_ret [of CR cmd ch]
  by (auto simp: start_command_def writeline_def split: prod.splits if_splits)

text \<open>
  The response a command hands out: it has a final response, and a successful one has
  intermediate responses that satisfy \<open>shape\<close>.
\<close>

definition good_response :: "(string list \<Rightarrow> bool) \<Rightarrow> ATResponse \<Rightarrow> bool" where
  "good_response shape r \<longleftrightarrow> finalResponse r \<noteq> None \<and> 0 \<le> success r \<and> (success r > 0 \<longrightarrow> shape (p_intermediates r))"

definition fits_type :: "ATCommandType \<Rightarrow> string option \<Rightarrow> string list \<Rightarrow> bool" where
  "fits_type type pre ls \<longleftrightarrow> (\<forall>l \<in> set ls. expected type pre l) \<and> (type \<noteq> MULTILINE \<longrightarrow> length ls \<le> 1)"

lemma reverse_onto_rev: "reverse_onto xs acc = rev xs @ acc"
  by (induction xs acc rule: reverse_onto.induct) auto

lemma reverseIntermediates_simps [simp]:
  "p_intermediates (reverseIntermediates r) = rev (p_intermediates r)"
  "finalResponse (reverseIntermediates r) = finalResponse r"
  "success (reverseIntermediates r) = success r"
  by (simp_all add: reverseIntermediates_def reverse_onto_rev)

text \<open>The facts about a started command, from the wait to the answer.\<close>

lemma waited_result:
  fixes want :: bool
  assumes "waiting_ok ch" "wait_loop tmo es ch = Inr (t, ch', cbs, rest)"
  defines "res \<equiv> finish_command want t ch' cbs rest"
  shows "idle (cr_chan res)"
    and "cr_err res \<in> {0, AT_ERROR_CHANNEL_CLOSED, AT_ERROR_TIMEOUT}"
    and "tmo = 0 \<Longrightarrow> cr_err res \<noteq> AT_ERROR_TIMEOUT"
    and "s_onTimeout (cr_chan res) = s_onTimeout ch"
    and "cr_err res = 0 \<Longrightarrow> want \<Longrightarrow> \<exists>r. cr_out res = Some r \<and>
      good_response (fits_type (s_type ch) (s_responsePrefix ch)) r"
proof -
  note w = wait_loop_result [OF assms(1,2)]
  show "idle (cr_chan res)" "cr_err res \<in> {0, AT_ERROR_CHANNEL_CLOSED, AT_ERROR_TIMEOUT}"
    by (auto simp: res_def finish_command_def)
  show "tmo = 0 \<Longrightarrow> cr_err res \<noteq> AT_ERROR_TIMEOUT" "s_onTimeout (cr_chan res) = s_onTimeout ch"
    using w by (auto simp: res_def finish_command_def at_error_defs clearPendingCommand_def)
  assume e: "cr_err res = 0" and want
  from e have "\<not> t" by (auto simp: res_def finish_command_def at_error_defs)
  with w have "wait_over ch'" by simp
  then obtain r where r: "sp_response ch' = Some r"
    and fin: "finalResponse r \<noteq> None \<or> s_readerClosed ch' \<noteq> 0" by (auto simp: wait_over_def)
  from e w have "s_readerClosed ch' = 0"
    by (auto simp: res_def finish_command_def at_error_defs waiting_ok_def split: if_splits)
  with fin have "finalResponse r \<noteq> None" by simp
  moreover have "0 \<le> success r" "fits_type (s_type ch) (s_responsePrefix ch) (rev (p_intermediates r))"
    using w r by (auto simp: waiting_ok_def pending_ok_def fits_type_def)
  moreover have "cr_out res = Some (reverseIntermediates r)"
    using r \<open>\<not> t\<close> \<open>want\<close> by (simp add: res_def finish_command_def)
  ultimately show "\<exists>r. cr_out res = Some r \<and>
      good_response (fits_type (s_type ch) (s_responsePrefix ch)) r"
    by (auto simp: good_response_def)
qed

definition chan_ok :: "at_chan \<Rightarrow> bool" where
  "chan_ok ch \<longleftrightarrow> idle ch \<and> 0 \<le> s_readerClosed ch"

text \<open>
  The interface a request handler calls through: between commands the channel is idle, a call
  ends in no other fault than waiting for ever, its error code is never positive, and with
  error code 0 there is a response of the promised shape.
\<close>

locale at_port =
  fixes send :: "cmd_event list \<Rightarrow> at_chan \<Rightarrow> cmd_result c_result"
    and shape :: "string list \<Rightarrow> bool"
  assumes send_fault: "chan_ok ch \<Longrightarrow> send es ch = Inl f \<Longrightarrow> f = Blocked"
    and send_chan: "chan_ok ch \<Longrightarrow> send es ch = Inr res \<Longrightarrow> chan_ok (cr_chan res)"
    and send_err: "chan_ok ch \<Longrightarrow> send es ch = Inr res \<Longrightarrow> cr_err res \<le> 0"
    and send_resp: "chan_ok ch \<Longrightarrow> send es ch = Inr res \<Longrightarrow> cr_err res = 0 \<Longrightarrow>
      \<exists>r. cr_out res = Some r \<and> good_response shape r"
begin

text \<open>The guard \<^verbatim>\<open>err < 0 || p_response->success == 0\<close> never reads through NULL.\<close>

lemma guard_safe:
  assumes "chan_ok ch" "send es ch = Inr res" "\<not> cr_err res < 0"
  shows "\<exists>r. cr_out res = Some r \<and> finalResponse r \<noteq> None"
proof -
  from send_err [OF assms(1,2)] assms(3) have "cr_err res = 0" by simp
  with send_resp [OF assms(1,2)] show ?thesis by (auto simp: good_response_def)
qed

lemma guard_shape:
  assumes "chan_ok ch" "send es ch = Inr res" "\<not> cr_err res < 0" "success (the (cr_out res)) \<noteq> 0"
  shows "shape (p_intermediates (the (cr_out res)))"
proof -
  from send_err [OF assms(1,2)] assms(3) have "cr_err res = 0" by simp
  with send_resp [OF assms(1,2)] assms(4) show ?thesis by (auto simp: good_response_def)
qed

end

text \<open>A port whose successful answers carry a line: the handlers read the first one.\<close>

locale at_line_port = at_port +
  assumes shape_line: "shape ls \<Longrightarrow> ls \<noteq> []"
begin

lemma first_line_safe:
  assumes "chan_ok ch" "send es ch = Inr res" "\<not> cr_err res < 0" "success (the (cr_out res)) \<noteq> 0"
  shows "\<exists>l ls. p_intermediates (the (cr_out res)) = l # ls"
  using guard_shape [OF assms] shape_line by (cases "p_intermediates (the (cr_out res))") auto

end

subsection \<open>The public operations keep the contract\<close>

lemma chan_ok_finish: "waiting_ok ch \<Longrightarrow> chan_ok (cr_chan (finish_command want t ch cbs rest))"
  by (auto simp: chan_ok_def finish_command_def waiting_ok_def clearPendingCommand_def idle_def)

lemma nolock_contract:
  assumes ch: "chan_ok ch" and pre: "type \<in> {SINGLELINE, MULTILINE} \<longrightarrow> pre \<noteq> None"
  shows "at_send_command_full_nolock cmd type pre pdu tmo want es ch = Inl f \<Longrightarrow> f = Blocked"
    and "at_send_command_full_nolock cmd type pre pdu tmo want es ch = Inr res \<Longrightarrow>
      chan_ok (cr_chan res) \<and>
      cr_err res \<in> {0, AT_ERROR_GENERIC, AT_ERROR_CHANNEL_CLOSED, AT_ERROR_TIMEOUT} \<and>
      (tmo = 0 \<longrightarrow> cr_err res \<noteq> AT_ERROR_TIMEOUT) \<and>
      (cr_err res = 0 \<and> want \<longrightarrow> (\<exists>r. cr_out res = Some r \<and> good_response (fits_type type pre) r))"
proof -
  obtain err ch1 where st: "start_command cmd type pre pdu ch = (err, ch1)"
    by (cases "start_command cmd type pre pdu ch")
  have idle: "idle ch" and rc: "0 \<le> s_readerClosed ch" using ch by (auto simp: chan_ok_def)
  note cs = start_command_cases [OF idle st]
  have np: "err \<noteq> AT_ERROR_COMMAND_PENDING"
    using st idle write_with_ret [of CR cmd ch]
    by (auto simp: start_command_def idle_def writeline_def at_error_defs split: prod.splits if_splits)
  have ok1: "\<not> err < 0 \<Longrightarrow> waiting_ok ch1 \<and> s_type ch1 = type \<and> s_responsePrefix ch1 = pre"
    using cs started_waiting_ok [of "snd (writeline cmd ch)" type pre pdu] rc pre
    by (auto simp: writeline_def)
  show "at_send_command_full_nolock cmd type pre pdu tmo want es ch = Inl f \<Longrightarrow> f = Blocked"
    using st ok1 wait_loop_faults
    by (auto simp: at_send_command_full_nolock_def c_simps split: if_splits)
  assume r: "at_send_command_full_nolock cmd type pre pdu tmo want es ch = Inr res"
  show "chan_ok (cr_chan res) \<and>
      cr_err res \<in> {0, AT_ERROR_GENERIC, AT_ERROR_CHANNEL_CLOSED, AT_ERROR_TIMEOUT} \<and>
      (tmo = 0 \<longrightarrow> cr_err res \<noteq> AT_ERROR_TIMEOUT) \<and>
      (cr_err res = 0 \<and> want \<longrightarrow> (\<exists>r. cr_out res = Some r \<and> good_response (fits_type type pre) r))"
  proof (cases "err < 0")
    case True
    with r st cs rc start_command_err [OF st] np show ?thesis
      by (auto simp: at_send_command_full_nolock_def chan_ok_def clearPendingCommand_def
          writeline_def idle_def at_error_defs)
  next
    case False
    with r st obtain t ch2 cbs rest where w: "wait_loop tmo es ch1 = Inr (t, ch2, cbs, rest)"
      and res: "res = finish_command want t ch2 cbs rest"
      by (auto simp: at_send_command_full_nolock_def c_simps)
    have ok: "waiting_ok ch1" "s_type ch1 = type" "s_responsePrefix ch1 = pre"
      using ok1 False by auto
    note wr = waited_result [OF ok(1) w, where want = want, folded res]
    have "chan_ok (cr_chan res)"
      using wait_loop_result [OF ok(1) w] unfolding res by (auto intro: chan_ok_finish)
    with wr ok show ?thesis by auto
  qed
qed

lemma full_contract:
  assumes ch: "chan_ok ch" and pre: "type \<in> {SINGLELINE, MULTILINE} \<longrightarrow> pre \<noteq> None"
  shows "at_send_command_full CommandThread cmd type pre pdu 0 want es ch = Inl f \<Longrightarrow> f = Blocked"
    and "at_send_command_full CommandThread cmd type pre pdu 0 want es ch = Inr res \<Longrightarrow>
      chan_ok (cr_chan res) \<and> cr_err res \<in> {0, AT_ERROR_GENERIC, AT_ERROR_CHANNEL_CLOSED} \<and>
      (cr_err res = 0 \<and> want \<longrightarrow> (\<exists>r. cr_out res = Some r \<and> good_response (fits_type type pre) r))"
proof -
  show "at_send_command_full CommandThread cmd type pre pdu 0 want es ch = Inl f \<Longrightarrow> f = Blocked"
    using nolock_contract(1) [OF assms] by (auto simp: at_send_command_full_def c_simps)
  assume "at_send_command_full CommandThread cmd type pre pdu 0 want es ch = Inr res"
  then obtain res0 where n: "at_send_command_full_nolock cmd type pre pdu 0 want es ch = Inr res0"
    and res: "res = (if cr_err res0 = AT_ERROR_TIMEOUT \<and> s_onTimeout (cr_chan res0)
                    then res0\<lparr>cr_cbs := cr_cbs res0 @ [CbTimeout]\<rparr> else res0)"
    by (auto simp: at_send_command_full_def c_simps)
  from nolock_contract(2) [OF assms n] res
  show "chan_ok (cr_chan res) \<and> cr_err res \<in> {0, AT_ERROR_GENERIC, AT_ERROR_CHANNEL_CLOSED} \<and>
      (cr_err res = 0 \<and> want \<longrightarrow> (\<exists>r. cr_out res = Some r \<and> good_response (fits_type type pre) r))"
    by auto
qed

lemma need_intermediate_contract:
  assumes "cr_err res \<in> {0, AT_ERROR_GENERIC, AT_ERROR_CHANNEL_CLOSED}"
    and "cr_err res = 0 \<longrightarrow> (\<exists>r. cr_out res = Some r \<and> good_response shape r)"
  shows "need_intermediate True res \<noteq> Inl f"
    and "need_intermediate True res = Inr res' \<Longrightarrow> cr_chan res' = cr_chan res \<and> cr_err res' \<le> 0 \<and>
      (cr_err res' = 0 \<longrightarrow> (\<exists>r. cr_out res' = Some r \<and>
         good_response (\<lambda>ls. shape ls \<and> ls \<noteq> []) r))"
proof -
  show "need_intermediate True res \<noteq> Inl f"
    using assms(2) by (auto simp: need_intermediate_def c_simps)
  assume n: "need_intermediate True res = Inr res'"
  show "cr_chan res' = cr_chan res \<and> cr_err res' \<le> 0 \<and>
      (cr_err res' = 0 \<longrightarrow> (\<exists>r. cr_out res' = Some r \<and>
         good_response (\<lambda>ls. shape ls \<and> ls \<noteq> []) r))"
  proof (cases "cr_err res = 0")
    case True
    with assms(2) obtain r where r: "cr_out res = Some r" "good_response shape r" by blast
    with n True have "res' = (if success r > 0 \<and> p_intermediates r = []
        then res\<lparr>cr_out := None, cr_err := AT_ERROR_INVALID_RESPONSE\<rparr> else res)"
      by (simp add: need_intermediate_def c_simps)
    with r True show ?thesis by (auto simp: good_response_def at_error_defs)
  next
    case False
    with n assms(1) show ?thesis by (auto simp: need_intermediate_def at_error_defs)
  qed
qed

text \<open>A command that needs an intermediate response, over any command type.\<close>

lemma checked_command_contract:
  assumes ch: "chan_ok ch" and pre: "type \<in> {SINGLELINE, MULTILINE} \<longrightarrow> pre \<noteq> None"
    and m_def: "m = and_then (at_send_command_full CommandThread cmd type pre pdu 0 True es ch)
      (need_intermediate True)"
  shows "m = Inl f \<Longrightarrow> f = Blocked"
    and "m = Inr res \<Longrightarrow> chan_ok (cr_chan res) \<and> cr_err res \<le> 0 \<and>
      (cr_err res = 0 \<longrightarrow> (\<exists>r. cr_out res = Some r \<and>
        good_response (\<lambda>ls. fits_type type pre ls \<and> ls \<noteq> []) r))"
proof -
  note fc = full_contract [OF ch pre, where want = True]
  note ni = need_intermediate_contract [where shape = "fits_type type pre"]
  show "m = Inl f \<Longrightarrow> f = Blocked"
    unfolding m_def and_then_Inl_iff using fc ni(1) by blast
  assume "m = Inr res"
  then obtain res0 where f: "at_send_command_full CommandThread cmd type pre pdu 0 True es ch = Inr res0"
    and n: "need_intermediate True res0 = Inr res"
    unfolding m_def and_then_Inr_iff by blast
  from fc(2) [OF f] ni(2) [OF _ _ n]
  show "chan_ok (cr_chan res) \<and> cr_err res \<le> 0 \<and>
      (cr_err res = 0 \<longrightarrow> (\<exists>r. cr_out res = Some r \<and>
        good_response (\<lambda>ls. fits_type type pre ls \<and> ls \<noteq> []) r))"
    by auto
qed

definition one_line :: "(string \<Rightarrow> bool) \<Rightarrow> string list \<Rightarrow> bool" where
  "one_line P ls \<longleftrightarrow> (\<exists>l. ls = [l] \<and> P l)"

lemma fits_type_one_line:
  "type \<in> {NUMERIC, SINGLELINE} \<Longrightarrow> (fits_type type pre ls \<and> ls \<noteq> []) = one_line (expected type pre) ls"
  by (cases ls) (auto simp: fits_type_def one_line_def)

lemma checked_line_port:
  assumes pre: "type \<in> {NUMERIC, SINGLELINE}" "type = SINGLELINE \<longrightarrow> pre \<noteq> None"
    and send: "\<And>es ch. send es ch = and_then
      (at_send_command_full CommandThread cmd type pre pdu 0 True es ch) (need_intermediate True)"
  shows "at_line_port send (one_line (expected type pre))"
proof -
  have p: "type \<in> {SINGLELINE, MULTILINE} \<longrightarrow> pre \<noteq> None" using pre by auto
  have shape: "(\<lambda>ls. fits_type type pre ls \<and> ls \<noteq> []) = one_line (expected type pre)"
    using fits_type_one_line [OF pre(1)] by (intro ext)
  note c = checked_command_contract [OF _ p send, unfolded shape]
  show ?thesis
    by unfold_locales (use c in \<open>auto simp: one_line_def\<close>)
qed

lemma expected_simps [simp]:
  "expected SINGLELINE (Some prefix) = (\<lambda>l. strStartsWith l prefix)"
  "expected MULTILINE (Some prefix) = (\<lambda>l. strStartsWith l prefix)"
  "expected NUMERIC pre = line_is_digit" "expected NO_RESULT pre = (\<lambda>l. False)"
  by (auto simp: expected_def)

interpretation singleline: at_line_port
  "at_send_command_singleline CommandThread cmd prefix True"
  "one_line (\<lambda>l. strStartsWith l prefix)" for cmd prefix
  using checked_line_port [of SINGLELINE "Some prefix"]
  by (simp add: at_send_command_singleline_def)

interpretation numeric: at_line_port
  "at_send_command_numeric CommandThread cmd True" "one_line line_is_digit" for cmd
  using checked_line_port [of NUMERIC None]
  by (simp add: at_send_command_numeric_def)

interpretation sms: at_line_port
  "at_send_command_sms CommandThread cmd pdu prefix True"
  "one_line (\<lambda>l. strStartsWith l prefix)" for cmd pdu prefix
  using checked_line_port [of SINGLELINE "Some prefix"]
  by (simp add: at_send_command_sms_def)

lemma full_port:
  assumes pre: "type \<in> {SINGLELINE, MULTILINE} \<longrightarrow> pre \<noteq> None"
    and send: "\<And>es ch. send es ch = at_send_command_full CommandThread cmd type pre pdu 0 True es ch"
  shows "at_port send (fits_type type pre)"
proof
  fix es ch f res
  assume ch: "chan_ok ch"
  note c = full_contract [OF ch pre, where want = True]
  show "send es ch = Inl f \<Longrightarrow> f = Blocked" unfolding send by (rule c(1))
  assume "send es ch = Inr res"
  note r = c(2) [OF this [unfolded send]]
  then show "chan_ok (cr_chan res)" "cr_err res \<le> 0" by (auto simp: at_error_defs)
  show "cr_err res = 0 \<Longrightarrow> \<exists>r. cr_out res = Some r \<and> good_response (fits_type type pre) r"
    using r by blast
qed

lemma fits_type_lists [simp]:
  "fits_type MULTILINE pre = list_all (expected MULTILINE pre)"
  "fits_type NO_RESULT pre = (\<lambda>ls. ls = [])"
  by (auto simp: fits_type_def list_all_iff expected_def intro!: ext)

interpretation multiline: at_port
  "at_send_command_multiline CommandThread cmd prefix True"
  "list_all (\<lambda>l. strStartsWith l prefix)" for cmd prefix
  using full_port [of MULTILINE "Some prefix"]
  by (simp add: at_send_command_multiline_def)

interpretation plain: at_port
  "at_send_command CommandThread cmd True" "\<lambda>ls. ls = []" for cmd
  using full_port [of NO_RESULT None]
  by (simp add: at_send_command_def)

end
