(* ===== verification/AtFraming.thy ===== *)
theory AtFraming
  imports AtBuffer
begin

text \<open>
  Correctness of \<^verbatim>\<open>readline\<close> (\<^verbatim>\<open>fwril-100/atchannel.c\<close>) against a specification on the
  byte stream alone. \<open>next_line\<close> says what the next line of a text is and what follows it;
  however the port cuts the stream into chunks, successive calls of \<open>readline\<close> deliver the
  lines of the stream, as long as no line overflows the buffer and the SMS prompt character
  does not occur. The prompt is the exception: after it the cursor is left behind the end of
  the received text, and bytes of earlier lines are delivered again.
\<close>

section \<open>Specification\<close>

definition next_line :: "string \<Rightarrow> (string \<times> string) option" where
  "next_line t = (let u = dropWhile is_eol t in
     if \<exists>c \<in> set u. is_eol c
     then Some (takeWhile (\<lambda>c. \<not> is_eol c) u, tl (dropWhile (\<lambda>c. \<not> is_eol c) u)) else None)"

lemma next_line_shorter: "next_line t = Some (l, r) \<Longrightarrow> length r < length t"
proof -
  assume "next_line t = Some (l, r)"
  then have ex: "\<exists>c \<in> set (dropWhile is_eol t). is_eol c"
    and r: "r = tl (dropWhile (\<lambda>c. \<not> is_eol c) (dropWhile is_eol t))"
    by (auto simp: next_line_def Let_def split: if_splits)
  let ?v = "dropWhile (\<lambda>c. \<not> is_eol c) (dropWhile is_eol t)"
  from ex have "?v \<noteq> []" by (auto simp: dropWhile_eq_Nil_conv)
  moreover have "length ?v \<le> length t"
    by (meson length_dropWhile_le le_trans)
  ultimately show ?thesis using r by (cases ?v) auto
qed

function complete_lines :: "string \<Rightarrow> string list" where
  "complete_lines t = (case next_line t of
       None \<Rightarrow> []
     | Some (l, r) \<Rightarrow> l # complete_lines r)"
  by pat_completeness auto
termination
  by (relation "measure length") (auto dest: next_line_shorter)

declare complete_lines.simps [simp del]

text \<open>The bytes the port will deliver, and a port that delivers them without an error.\<close>

fun stream :: "rd_event list \<Rightarrow> string" where
  "stream [] = []"
| "stream (RdData bs # es) = bs @ stream es"
| "stream (_ # es) = stream es"

fun clean :: "rd_event list \<Rightarrow> bool" where
  "clean [] = True"
| "clean (RdData bs # es) = (bs \<noteq> [] \<and> clean es)"
| "clean (RdEINTR # es) = clean es"
| "clean (RdError # es) = False"

text \<open>
  \<open>fits e w t\<close>: after \<open>e\<close> line ends and \<open>w\<close> characters of a line, reading on through
  \<open>t\<close> never fills the buffer before a line is complete.
\<close>

fun fits :: "nat \<Rightarrow> nat \<Rightarrow> string \<Rightarrow> bool" where
  "fits e w [] = (e + w < MAX_AT_RESPONSE)"
| "fits e w (c # t) = (e + w < MAX_AT_RESPONSE \<and>
     (if is_eol c then (if w = 0 then fits (Suc e) 0 t else fits 0 0 t) else fits e (Suc w) t))"

lemma fits_bound: "fits e w t \<Longrightarrow> e + w < MAX_AT_RESPONSE"
  by (cases t) auto

lemma fits_mono: "fits e w t \<Longrightarrow> e' \<le> e \<Longrightarrow> fits e' w t"
  by (induction e w t arbitrary: e' rule: fits.induct) auto

lemma fits_skip: "fits e 0 (n @ t) \<Longrightarrow> \<forall>c \<in> set n. is_eol c \<Longrightarrow> fits (e + length n) 0 t"
  by (induction n arbitrary: e) fastforce+

lemma fits_word: "fits e w (s @ t) \<Longrightarrow> \<forall>c \<in> set s. \<not> is_eol c \<Longrightarrow> fits e (w + length s) t"
  by (induction s arbitrary: w) fastforce+

lemma fits_line:
  assumes "fits e w (s @ c # t)" "\<forall>c \<in> set s. \<not> is_eol c" "is_eol c" "0 < w + length s"
  shows "fits 0 0 t"
  using fits_word [OF assms(1,2)] assms(3,4) by auto

lemma fits_short: "e + w + length t < MAX_AT_RESPONSE \<Longrightarrow> fits e w t"
  by (induction e w t rule: fits.induct) auto

section \<open>One call\<close>

lemma read_fd_clean:
  assumes "clean es" "0 < n"
  shows "(stream es = [] \<longrightarrow> read_fd n es = (0, [], [])) \<and>
    (stream es \<noteq> [] \<longrightarrow> (\<exists>d es'. read_fd n es = (int (length d), d, es') \<and> d \<noteq> [] \<and>
       length d \<le> n \<and> clean es' \<and> stream es = d @ stream es'))"
  using assms
proof (induction n es rule: read_fd.induct)
  case (4 n bs es)
  then have "take n bs \<noteq> []" by (cases bs) auto
  moreover have "bs = take n bs @ drop n bs" by simp
  ultimately show ?case using 4 by (auto simp flip: append_assoc)
qed auto

definition text_ok :: "string \<Rightarrow> bool" where
  "text_ok t \<longleftrightarrow> NUL \<notin> set t \<and> CHR ''>'' \<notin> set t"

lemma text_ok_append [simp]: "text_ok (s @ t) \<longleftrightarrow> text_ok s \<and> text_ok t"
  by (auto simp: text_ok_def)

lemma text_ok_dropWhile: "text_ok s \<Longrightarrow> text_ok (dropWhile P s)"
  by (auto simp: text_ok_def dest: set_dropWhileD)

text \<open>
  The situation in which the line loop stops: the buffer holds \<open>pend\<close> at the cursor and, with
  what is still to come, this is the text that is left; the line end is the first one in
  \<open>pend\<close>.
\<close>

definition found_line :: "rl_state \<Rightarrow> rd_event list \<Rightarrow> nat \<Rightarrow> string \<Rightarrow> bool" where
  "found_line st es p_eol u \<longleftrightarrow> (\<exists>pend.
     holds (s_ATBuffer st) (s_ATBufferCur st) pend \<and> clean es \<and> pend @ stream es = u \<and>
     (\<exists>c \<in> set pend. is_eol c) \<and>
     p_eol = s_ATBufferCur st + length (takeWhile (\<lambda>c. \<not> is_eol c) pend))"

lemma findNextEOL_pend:
  "holds b i s \<Longrightarrow> text_ok s \<Longrightarrow> findNextEOL b i = Inr (if \<exists>c \<in> set s. is_eol c
     then Some (i + length (takeWhile (\<lambda>c. \<not> is_eol c) s)) else None)"
  by (simp add: findNextEOL_holds scanEOL_holds text_ok_def)

lemma dropWhile_eol_append:
  assumes "\<forall>c \<in> set s. \<not> is_eol c" "s \<noteq> []"
  shows "dropWhile is_eol (s @ t) = s @ t" and "takeWhile is_eol (s @ t) = []"
  using assms by (cases s; simp)+

text \<open>One round of the loop that receives the bytes \<open>d\<close>.\<close>

lemma fill_line_round:
  assumes h: "holds (s_ATBuffer st) (s_ATBufferCur st) s" and pr: "p = s_ATBufferCur st + length s"
    and fit: "p < MAX_AT_RESPONSE" and rd: "read_fd (MAX_AT_RESPONSE - p) es = (int (length d), d, es')"
    and d: "d \<noteq> []" "length d \<le> MAX_AT_RESPONSE - p" and ok: "text_ok s" "text_ok d"
    and n: "n = takeWhile is_eol (s @ d)" and u: "u = dropWhile is_eol (s @ d)"
    and st': "st' = st\<lparr>s_ATBuffer := (store (s_ATBuffer st) p d)(p + length d := NUL),
      s_ATBufferCur := s_ATBufferCur st + length n,
      s_readCount := cint (s_readCount st + int (length d))\<rparr>"
  shows "holds (s_ATBuffer st') (s_ATBufferCur st') u"
    and "fill_line st p es = (if \<exists>c \<in> set u. is_eol c
      then Inr (Some (s_ATBufferCur st' + length (takeWhile (\<lambda>c. \<not> is_eol c) u)), st', es')
      else fill_line st' (p + length d) es')"
proof -
  let ?b = "(store (s_ATBuffer st) p d)(p + length d := NUL)"
  have full: "holds ?b (s_ATBufferCur st) (s @ d)"
    using holds_store [OF h, of d] d(2) fit ok(2) pr by (simp add: text_ok_def)
  have sk: "skipEOLs ?b (s_ATBufferCur st) = Inr (s_ATBufferCur st + length n)"
    and hu: "holds ?b (s_ATBufferCur st + length n) u"
    using skipEOLs_holds [OF full] n u by auto
  show "holds (s_ATBuffer st') (s_ATBufferCur st') u" using hu st' by simp
  have "text_ok (s @ d)" using ok by simp
  then have "text_ok u" unfolding u by (rule text_ok_dropWhile)
  from findNextEOL_pend [OF hu this] sk rd fit d(1) st'
  show "fill_line st p es = (if \<exists>c \<in> set u. is_eol c
      then Inr (Some (s_ATBufferCur st' + length (takeWhile (\<lambda>c. \<not> is_eol c) u)), st', es')
      else fill_line st' (p + length d) es')"
    by (subst fill_line.simps) (simp add: ditch_full_def)
qed

lemma fits_round:
  assumes "fits e (length s) (d @ t)" "\<forall>c \<in> set s. \<not> is_eol c"
    and "\<not> (\<exists>c \<in> set (dropWhile is_eol (s @ d)). is_eol c)"
  shows "fits (e + length (takeWhile is_eol (s @ d))) (length (dropWhile is_eol (s @ d))) t"
proof (cases "s = []")
  case True
  let ?n = "takeWhile is_eol d" and ?u = "dropWhile is_eol d"
  have eq: "?n @ ?u @ t = d @ t" by (metis append_assoc takeWhile_dropWhile_id)
  have "fits e 0 (?n @ ?u @ t)" unfolding eq using assms(1) True by simp
  then have "fits (e + length ?n) 0 (?u @ t)"
    by (rule fits_skip) (auto dest: set_takeWhileD)
  from fits_word [OF this] assms(3) True show ?thesis by simp
next
  case False
  from dropWhile_eol_append [OF assms(2) False, of d] assms(3)
  have "\<forall>c \<in> set d. \<not> is_eol c" by auto
  from fits_word [OF assms(1) this] dropWhile_eol_append [OF assms(2) False, of d]
  show ?thesis by simp
qed

lemma dropWhile_eol_twice: "dropWhile is_eol (s @ t) = dropWhile is_eol (dropWhile is_eol s @ t)"
  by (induction s) auto

lemma dropWhile_idem_append:
  "dropWhile is_eol s \<noteq> [] \<Longrightarrow> dropWhile is_eol (dropWhile is_eol s @ t) = dropWhile is_eol s @ t"
  by (induction s) auto

lemma fill_line_end:
  assumes "clean es" "stream es = []" "p < MAX_AT_RESPONSE"
  shows "fill_line st p es = Inr (None, st, [])"
proof -
  have "read_fd (MAX_AT_RESPONSE - p) es = (0, [], [])" using read_fd_clean [OF assms(1)] assms(2,3) by simp
  then show ?thesis using assms(3) by (subst fill_line.simps) (simp add: ditch_full_def)
qed

text \<open>What is left to read behind a round: \<open>v\<close> is the text in the buffer without leading ends of line.\<close>

lemma round_found:
  assumes "v = dropWhile is_eol t" "u = dropWhile is_eol (v @ r)" "\<exists>c \<in> set v. is_eol c"
  shows "u = v @ r" "\<exists>c \<in> set u. is_eol c"
proof -
  have "v \<noteq> []" using assms(3) by auto
  with assms(1,2) show "u = v @ r" using dropWhile_idem_append [of t] by simp
  with assms(3) show "\<exists>c \<in> set u. is_eol c" by auto
qed

lemma fill_line_correct:
  assumes "holds (s_ATBuffer st) (s_ATBufferCur st) s" "\<forall>c \<in> set s. \<not> is_eol c"
    and "clean es" "text_ok (s @ stream es)" "fits (s_ATBufferCur st) (length s) (stream es)"
    and "u = dropWhile is_eol (s @ stream es)" "p = s_ATBufferCur st + length s"
  shows "if \<exists>c \<in> set u. is_eol c
    then \<exists>st' es' e. fill_line st p es = Inr (Some e, st', es') \<and> found_line st' es' e u
    else \<exists>st' es'. fill_line st p es = Inr (None, st', es')"
  using assms
proof (induction "ev_size es" arbitrary: st s es p u rule: less_induct)
  case less
  have fit: "p < MAX_AT_RESPONSE" using fits_bound [OF less.prems(5)] less.prems(7) by simp
  then have room: "0 < MAX_AT_RESPONSE - p" by simp
  show ?case
  proof (cases "stream es = []")
    case True
    then have "\<forall>c \<in> set u. \<not> is_eol c" using less.prems(2,6) by (auto dest: set_dropWhileD)
    with fill_line_end [OF less.prems(3) True fit] show ?thesis by auto
  next
    case False
    then obtain d es' where rd: "read_fd (MAX_AT_RESPONSE - p) es = (int (length d), d, es')"
      and d: "d \<noteq> []" "length d \<le> MAX_AT_RESPONSE - p" and cl: "clean es'"
      and str: "stream es = d @ stream es'"
      using read_fd_clean [OF less.prems(3) room] by auto
    define n where "n = takeWhile is_eol (s @ d)"
    define v where "v = dropWhile is_eol (s @ d)"
    define st' where "st' = st\<lparr>s_ATBuffer := (store (s_ATBuffer st) p d)(p + length d := NUL),
      s_ATBufferCur := s_ATBufferCur st + length n,
      s_readCount := cint (s_readCount st + int (length d))\<rparr>"
    have ok: "text_ok s" "text_ok d" using less.prems(4) str by auto
    note round = fill_line_round [OF less.prems(1,7) fit rd d ok n_def v_def st'_def]
    have u: "u = dropWhile is_eol (v @ stream es')"
      using less.prems(6) str dropWhile_eol_twice [of "s @ d"] by (simp add: v_def)
    show ?thesis
    proof (cases "\<exists>c \<in> set v. is_eol c")
      case True
      note f = round_found [OF v_def u True]
      then have "found_line st' es' (s_ATBufferCur st' + length (takeWhile (\<lambda>c. \<not> is_eol c) v)) u"
        using round(1) cl True unfolding found_line_def by blast
      with f(2) show ?thesis using round(2) True by auto
    next
      case nov: False
      have sz: "ev_size es' < ev_size es"
        using read_fd_size [of "MAX_AT_RESPONSE - p" es] rd d(1) by simp
      have cur': "s_ATBufferCur st' = s_ATBufferCur st + length n" by (simp add: st'_def)
      have fit': "fits (s_ATBufferCur st') (length v) (stream es')" unfolding cur' n_def v_def
        by (rule fits_round [OF _ less.prems(2) nov [unfolded v_def]]) (use less.prems(5) str in simp)
      have ok': "text_ok (v @ stream es')" using less.prems(4) str by (simp add: v_def text_ok_dropWhile)
      have p': "p + length d = s_ATBufferCur st' + length v"
        using less.prems(7) length_take_drop_While [of is_eol "s @ d"] by (simp add: cur' n_def v_def)
      have "fill_line st p es = fill_line st' (p + length d) es'" using round(2) nov by simp
      then show ?thesis
        using less.hyps [OF sz round(1) _ cl ok' fit' u p'] nov by (simp only: bex_simps) blast
    qed
  qed
qed

lemma take_line_correct:
  assumes "found_line st es e u"
  shows "\<exists>st' pend. take_line e st = (takeWhile (\<lambda>c. \<not> is_eol c) u, st') \<and>
    holds (s_ATBuffer st') (s_ATBufferCur st') pend \<and> clean es \<and>
    pend @ stream es = tl (dropWhile (\<lambda>c. \<not> is_eol c) u)"
proof -
  let ?P = "\<lambda>c. \<not> is_eol c"
  obtain pend where h: "holds (s_ATBuffer st) (s_ATBufferCur st) pend" and cl: "clean es"
    and u: "pend @ stream es = u" and ex: "\<exists>c \<in> set pend. is_eol c"
    and e: "e = s_ATBufferCur st + length (takeWhile ?P pend)"
    using assms unfolding found_line_def by blast
  obtain c r where split: "pend = takeWhile ?P pend @ c # r" and "is_eol c"
    using split_list_first_propE [OF ex] by (metis (no_types, lifting) takeWhile_append_stop)
  have tw: "takeWhile ?P u = takeWhile ?P pend" and dw: "tl (dropWhile ?P u) = r @ stream es"
    using ex u split \<open>is_eol c\<close>
    by (metis takeWhile_append1, metis append_Cons append_assoc dropWhile_append_stop list.sel(3)
        set_takeWhileD)
  have line: "map (s_ATBuffer st) [s_ATBufferCur st ..< e] = takeWhile ?P u"
    unfolding e tw by (rule holds_map [of _ _ _ "c # r"]) (use h split in simp)
  have "holds (s_ATBuffer st) e (c # r)"
    using h holds_append [of _ _ "takeWhile ?P pend" "c # r"] split e by metis
  then have "holds ((s_ATBuffer st)(e := NUL)) (e + 1) r"
    using holds_cong [of "Suc e" r "(s_ATBuffer st)(e := NUL)" "s_ATBuffer st"] by simp
  with line cl dw show ?thesis by (simp add: take_line_def)
qed

lemma readline_start_correct:
  assumes h: "holds (s_ATBuffer st) (s_ATBufferCur st) pend" and ok: "text_ok pend"
    and cl: "clean es" and u: "u = dropWhile is_eol pend"
  shows "if \<exists>c \<in> set u. is_eol c
    then \<exists>st' e. readline_start st = Inr (Some e, st', 0) \<and> found_line st' es e (u @ stream es)
    else \<exists>st'. readline_start st = Inr (None, st', length u) \<and> s_ATBufferCur st' = 0 \<and>
      holds (s_ATBuffer st') 0 u"
proof (cases "pend = []")
  case True
  with h u show ?thesis
    by (simp add: readline_start_def peek_holds [OF h])
next
  case False
  let ?n = "length (takeWhile is_eol pend)"
  have sk: "skipEOLs (s_ATBuffer st) (s_ATBufferCur st) = Inr (s_ATBufferCur st + ?n)"
    and hu: "holds (s_ATBuffer st) (s_ATBufferCur st + ?n) u"
    using skipEOLs_holds [OF h] u by auto
  have pk: "peek (s_ATBuffer st) (s_ATBufferCur st) = Inr (hd pend)" "hd pend \<noteq> NUL"
    using peek_holds [OF h] holds_no_NUL [OF h] False by (auto simp: neq_Nil_conv)
  have "text_ok u" unfolding u using ok by (rule text_ok_dropWhile)
  note eol = findNextEOL_pend [OF hu this]
  show ?thesis
  proof (cases "\<exists>c \<in> set u. is_eol c")
    case True
    with pk sk eol have rs: "readline_start st = Inr (Some (s_ATBufferCur st + ?n +
        length (takeWhile (\<lambda>c. \<not> is_eol c) u)), st\<lparr>s_ATBufferCur := s_ATBufferCur st + ?n\<rparr>, 0)"
      by (simp add: readline_start_def)
    have "found_line (st\<lparr>s_ATBufferCur := s_ATBufferCur st + ?n\<rparr>) es (s_ATBufferCur st + ?n +
        length (takeWhile (\<lambda>c. \<not> is_eol c) u)) (u @ stream es)"
      using True hu cl by (auto simp: found_line_def)
    with True rs show ?thesis by auto
  next
    case False
    with pk sk eol strlen_at_holds [OF hu] holds_memmove_front [OF hu] show ?thesis
      by (simp add: readline_start_def)
  qed
qed

text \<open>The next line of the text that is in the buffer or still to come, and nothing else.\<close>

lemma readline_correct:
  assumes h: "holds (s_ATBuffer st) (s_ATBufferCur st) pend" and cl: "clean es"
    and ok: "text_ok (pend @ stream es)" and fit: "fits 0 0 (pend @ stream es)"
  shows "case next_line (pend @ stream es) of
      None \<Rightarrow> \<exists>st' es'. readline st es = Inr (None, st', es')
    | Some (l, r) \<Rightarrow> \<exists>st' es' pend'. readline st es = Inr (Some l, st', es') \<and> clean es' \<and>
        holds (s_ATBuffer st') (s_ATBufferCur st') pend' \<and> pend' @ stream es' = r"
proof -
  define u where "u = dropWhile is_eol pend"
  define t where "t = dropWhile is_eol (pend @ stream es)"
  have okp: "text_ok pend" using ok by simp
  note start = readline_start_correct [OF h okp cl u_def]
  have fin: ?thesis
    if "readline_start st = Inr (p0, st0, q0)"
      and "(if p0 = None then fill_line st0 q0 es else Inr (p0, st0, es)) = Inr (Some e, st1, es1)"
      and "found_line st1 es1 e t" and "\<exists>c \<in> set t. is_eol c"
    for p0 st0 q0 e st1 es1
    using that take_line_correct [OF that(3)]
    by (auto simp: readline_def next_line_def t_def [symmetric] Let_def)
  show ?thesis
  proof (cases "\<exists>c \<in> set u. is_eol c")
    case True
    then obtain st0 e where "readline_start st = Inr (Some e, st0, 0)"
      and f: "found_line st0 es e (u @ stream es)" using start by auto
    moreover have "u \<noteq> []" using True by auto
    then have "t = u @ stream es"
      unfolding t_def u_def dropWhile_eol_twice [of pend] by (rule dropWhile_idem_append)
    ultimately show ?thesis using True fin [of "Some e" st0 0 e st0 es] by auto
  next
    case False
    then obtain st0 where rs: "readline_start st = Inr (None, st0, length u)"
      and c0: "s_ATBufferCur st0 = 0" and h0: "holds (s_ATBuffer st0) 0 u" using start by auto
    have "fits 0 (length u) (stream es)"
      using fits_round [of 0 "[]" pend "stream es"] fit False
      by (auto simp: u_def intro: fits_mono)
    then have "if \<exists>c \<in> set t. is_eol c
      then \<exists>st' es' e. fill_line st0 (length u) es = Inr (Some e, st', es') \<and> found_line st' es' e t
      else \<exists>st' es'. fill_line st0 (length u) es = Inr (None, st', es')"
      using False h0 c0 cl ok
      by (intro fill_line_correct [of st0 u])
        (auto simp: t_def u_def dropWhile_eol_twice [of pend] text_ok_dropWhile)
    then show ?thesis
      using fin [OF rs] rs
      by (cases "\<exists>c \<in> set t. is_eol c")
        (auto simp: readline_def next_line_def t_def [symmetric] Let_def)
  qed
qed

section \<open>The whole stream\<close>

text \<open>
  \<open>read_lines\<close> is the reader thread's use of \<^verbatim>\<open>readline\<close>: call it until it returns NULL.
  Fuel counts the calls; one more than the number of bytes is always enough.
\<close>

fun read_lines :: "nat \<Rightarrow> rl_state \<Rightarrow> rd_event list \<Rightarrow> string list c_result" where
  "read_lines 0 st es = Inl Blocked"
| "read_lines (Suc n) st es =
     and_then (readline st es) (\<lambda>(l, st', es').
       case l of None \<Rightarrow> Inr []
       | Some line \<Rightarrow> and_then (read_lines n st' es') (\<lambda>ls. Inr (line # ls)))"

lemma read_lines_numeral:
  "read_lines (numeral k) st es =
     and_then (readline st es) (\<lambda>(l, st', es').
       case l of None \<Rightarrow> Inr []
       | Some line \<Rightarrow> and_then (read_lines (pred_numeral k) st' es') (\<lambda>ls. Inr (line # ls)))"
  by (simp add: numeral_eq_Suc)

text \<open>The equations that evaluate \<open>readline\<close> on a concrete input.\<close>

lemmas readline_eval =
  readline_def readline_start_def fill_line.simps scanEOL.simps skipEOLs.simps strlen_at.simps
  findNextEOL_def peek_def ditch_full_def store_def memmove_front_def rl_init_def take_line_def
  is_eol_def NUL_def MAX_AT_RESPONSE_def

lemma next_line_parts:
  assumes "next_line t = Some (l, r)"
  obtains n c where "t = n @ l @ c # r" "\<forall>x \<in> set n. is_eol x" "\<forall>x \<in> set l. \<not> is_eol x"
    "is_eol c" "l \<noteq> []"
proof -
  let ?u = "dropWhile is_eol t"
  from assms have ex: "\<exists>c \<in> set ?u. is_eol c" and l: "l = takeWhile (\<lambda>c. \<not> is_eol c) ?u"
    and r: "r = tl (dropWhile (\<lambda>c. \<not> is_eol c) ?u)"
    by (auto simp: next_line_def Let_def split: if_splits)
  let ?v = "dropWhile (\<lambda>c. \<not> is_eol c) ?u"
  from ex have "?v \<noteq> []" by (auto simp: dropWhile_eq_Nil_conv)
  then have v: "?v = hd ?v # r" "is_eol (hd ?v)"
    using r hd_dropWhile [of "\<lambda>c. \<not> is_eol c" ?u] by auto
  have "t = takeWhile is_eol t @ l @ ?v" unfolding l by simp
  moreover have "?u \<noteq> []" using ex by (metis empty_iff empty_set)
  then have "l \<noteq> []" unfolding l using hd_dropWhile [of is_eol t] by (cases ?u) auto
  ultimately show ?thesis
    using that [of "takeWhile is_eol t" "hd ?v"] v unfolding l by (metis set_takeWhileD)
qed

lemma fits_next_line: "fits 0 0 t \<Longrightarrow> next_line t = Some (l, r) \<Longrightarrow> fits 0 0 r"
proof (erule next_line_parts)
  fix n c
  assume "fits 0 0 t" "t = n @ l @ c # r" "\<forall>x \<in> set n. is_eol x" "\<forall>x \<in> set l. \<not> is_eol x"
    "is_eol c" "l \<noteq> []"
  then show "fits 0 0 r"
    using fits_skip [of 0 n "l @ c # r"] fits_line [of "length n" 0 l c r] by simp
qed

lemma text_ok_next_line: "text_ok t \<Longrightarrow> next_line t = Some (l, r) \<Longrightarrow> text_ok r"
  by (erule next_line_parts) (simp add: text_ok_def)

lemma read_lines_correct:
  assumes "holds (s_ATBuffer st) (s_ATBufferCur st) pend" "clean es"
    and "text_ok (pend @ stream es)" "fits 0 0 (pend @ stream es)"
    and "length (pend @ stream es) < fuel"
  shows "read_lines fuel st es = Inr (complete_lines (pend @ stream es))"
  using assms
proof (induction fuel arbitrary: st es pend)
  case 0
  then show ?case by simp
next
  case (Suc fuel)
  let ?t = "pend @ stream es"
  note one = readline_correct [OF Suc.prems(1-4)]
  show ?case
  proof (cases "next_line ?t")
    case None
    with one show ?thesis by (auto simp: complete_lines.simps [of ?t])
  next
    case (Some lr)
    then obtain l r where lr: "next_line ?t = Some (l, r)" by (cases lr) auto
    with one obtain st' es' pend' where rl: "readline st es = Inr (Some l, st', es')"
      and next_st: "clean es'" "holds (s_ATBuffer st') (s_ATBufferCur st') pend'"
      and r: "pend' @ stream es' = r" by auto
    have "read_lines fuel st' es' = Inr (complete_lines (pend' @ stream es'))"
      using Suc.prems next_line_shorter [OF lr] fits_next_line [OF _ lr] text_ok_next_line [OF _ lr]
      by (intro Suc.IH next_st) (simp_all add: r)
    with rl lr r show ?thesis by (simp add: complete_lines.simps [of ?t])
  qed
qed

lemma holds_rl_init: "holds (s_ATBuffer rl_init) (s_ATBufferCur rl_init) []"
  by (simp add: rl_init_def)

text \<open>Lines sent with CR LF behind each are the lines the specification finds.\<close>

definition frame :: "string list \<Rightarrow> string" where
  "frame ls = concat (map (\<lambda>l. l @ [CR, LF]) ls)"

lemma complete_lines_eol: "is_eol c \<Longrightarrow> complete_lines (c # t) = complete_lines t"
  by (simp add: complete_lines.simps [of "c # t"] complete_lines.simps [of t] next_line_def)

lemma complete_lines_line:
  assumes "l \<noteq> []" "\<forall>c \<in> set l. \<not> is_eol c" "is_eol c"
  shows "complete_lines (l @ c # t) = l # complete_lines t"
proof -
  have "next_line (l @ c # t) = Some (l, t)"
    using assms dropWhile_eol_append(1) [OF assms(2,1), of "c # t"]
    by (auto simp: next_line_def Let_def takeWhile_append_stop dropWhile_append_stop)
  then show ?thesis by (simp add: complete_lines.simps [of "l @ c # t"])
qed

lemma complete_lines_frame:
  "\<forall>l \<in> set ls. l \<noteq> [] \<and> (\<forall>c \<in> set l. \<not> is_eol c) \<Longrightarrow> complete_lines (frame ls) = ls"
proof (induction ls)
  case Nil
  then show ?case by (simp add: frame_def complete_lines.simps next_line_def)
next
  case (Cons l ls)
  have "frame (l # ls) = l @ CR # LF # frame ls" by (simp add: frame_def)
  moreover have "is_eol CR" "is_eol LF" by (simp_all add: is_eol_def)
  ultimately show ?case
    using Cons by (simp add: complete_lines_line complete_lines_eol)
qed

section \<open>Memory safety\<close>

text \<open>
  For any input without the prompt character, including overlong lines and NUL bytes, every
  access of \<open>readline\<close> stays inside the array. The invariant: a terminator lies at or behind
  the cursor, and the array holds no prompt character.
\<close>

definition terminated :: "(nat \<Rightarrow> char) \<Rightarrow> nat \<Rightarrow> nat \<Rightarrow> bool" where
  "terminated b cur j \<longleftrightarrow> cur \<le> j \<and> j \<le> MAX_AT_RESPONSE \<and> b j = NUL"

definition rl_ok :: "rl_state \<Rightarrow> bool" where
  "rl_ok st \<longleftrightarrow> (\<exists>j. terminated (s_ATBuffer st) (s_ATBufferCur st) j) \<and>
     (\<forall>i. s_ATBuffer st i \<noteq> CHR ''>'')"

lemma terminated_holds: "terminated b cur j \<Longrightarrow> \<exists>s. holds b cur s \<and> cur + length s \<le> j"
proof (induction "j - cur" arbitrary: cur)
  case 0
  then show ?case by (intro exI [of _ "[]"]) (auto simp: terminated_def)
next
  case (Suc n)
  show ?case
  proof (cases "b cur = NUL")
    case True
    with Suc.prems show ?thesis by (intro exI [of _ "[]"]) (auto simp: terminated_def)
  next
    case False
    from Suc have "terminated b (Suc cur) j" "n = j - Suc cur" by (auto simp: terminated_def)
    with Suc.hyps(1) obtain s where "holds b (Suc cur) s" "Suc cur + length s \<le> j" by blast
    with False show ?thesis by (intro exI [of _ "b cur # s"]) auto
  qed
qed

lemma holds_terminated: "holds b i s \<Longrightarrow> terminated b i (i + length s)"
  using holds_append [of b i s "[]"] holds_bound [of b i s] by (auto simp: terminated_def)

lemma scan_safe:
  assumes "terminated b cur j" "\<forall>i. b i \<noteq> CHR ''>''"
  obtains cur' where "skipEOLs b cur = Inr cur'" "terminated b cur' j"
    "\<exists>r. findNextEOL b cur' = Inr r \<and> (\<forall>e. r = Some e \<longrightarrow> cur' \<le> e \<and> e < j)"
    "\<exists>n. strlen_at b cur' = Inr n \<and> holds b cur' (map b [cur' ..< cur' + n])"
proof -
  obtain s where s: "holds b cur s" "cur + length s \<le> j"
    using terminated_holds [OF assms(1)] by blast
  let ?n = "length (takeWhile is_eol s)" and ?u = "dropWhile is_eol s"
  have len: "?n + length ?u = length s" by (rule length_take_drop_While)
  have u: "skipEOLs b cur = Inr (cur + ?n)" "holds b (cur + ?n) ?u"
    using skipEOLs_holds [OF s(1)] by auto
  have "CHR ''>'' \<notin> set ?u"
    using holds_append [of b "cur + ?n" ?u "[]"] u(2) assms(2) by (auto simp: in_set_conv_nth)
  then have f: "findNextEOL b (cur + ?n) = Inr (if \<exists>c \<in> set ?u. is_eol c
     then Some (cur + ?n + length (takeWhile (\<lambda>c. \<not> is_eol c) ?u)) else None)"
    using u(2) by (simp add: findNextEOL_holds scanEOL_holds)
  have "\<exists>c \<in> set ?u. is_eol c \<Longrightarrow> length (takeWhile (\<lambda>c. \<not> is_eol c) ?u) < length ?u"
    by (rule length_takeWhile_less) simp
  then have "\<exists>r. findNextEOL b (cur + ?n) = Inr r \<and> (\<forall>e. r = Some e \<longrightarrow> cur + ?n \<le> e \<and> e < j)"
    using f len s(2) by (auto split: if_splits)
  moreover have "terminated b (cur + ?n) j" using assms(1) s(2) len by (simp add: terminated_def)
  moreover have "strlen_at b (cur + ?n) = Inr (length ?u)"
    "map b [cur + ?n ..< cur + ?n + length ?u] = ?u"
    using strlen_at_holds [OF u(2)] holds_map [of b "cur + ?n" ?u "[]"] u(2) by auto
  ultimately show thesis using that [of "cur + ?n"] u by auto
qed

fun no_prompt :: "rd_event list \<Rightarrow> bool" where
  "no_prompt [] = True"
| "no_prompt (RdData bs # es) = (CHR ''>'' \<notin> set bs \<and> no_prompt es)"
| "no_prompt (_ # es) = no_prompt es"

lemma read_fd_no_prompt:
  "no_prompt es \<Longrightarrow> read_fd n es = (c, d, es') \<Longrightarrow>
     no_prompt es' \<and> CHR ''>'' \<notin> set d \<and> length d \<le> n \<and> (0 < c \<longrightarrow> c = int (length d))"
  by (induction n es rule: read_fd.induct) (auto dest: in_set_takeD in_set_dropD split: if_splits)

lemma store_no_prompt:
  "\<forall>i. b i \<noteq> CHR ''>'' \<Longrightarrow> CHR ''>'' \<notin> set d \<Longrightarrow>
     ((store b p d)(q := NUL)) i \<noteq> CHR ''>''"
  by (auto simp: store_def NUL_def in_set_conv_nth)

definition line_ready :: "rl_state \<Rightarrow> nat option \<Rightarrow> bool" where
  "line_ready st r \<longleftrightarrow> (\<forall>i. s_ATBuffer st i \<noteq> CHR ''>'') \<and>
     (\<exists>j. terminated (s_ATBuffer st) (s_ATBufferCur st) j \<and>
        (\<forall>e. r = Some e \<longrightarrow> s_ATBufferCur st \<le> e \<and> e < j))"

lemma fill_line_safe:
  assumes "terminated (s_ATBuffer st) (s_ATBufferCur st) p" "\<forall>i. s_ATBuffer st i \<noteq> CHR ''>''"
    and "no_prompt es"
  shows "\<exists>r st' es'. fill_line st p es = Inr (r, st', es') \<and> no_prompt es' \<and> line_ready st' r"
  using assms
proof (induction "ev_size es" arbitrary: st es p rule: less_induct)
  case less
  obtain st0 q where dt: "ditch_full st p = (st0, q)" by (cases "ditch_full st p")
  obtain c d es' where rd: "read_fd (MAX_AT_RESPONSE - q) es = (c, d, es')"
    by (cases "read_fd (MAX_AT_RESPONSE - q) es")
  note np = read_fd_no_prompt [OF less.prems(3) rd]
  have t0: "terminated (s_ATBuffer st0) (s_ATBufferCur st0) q" "\<forall>i. s_ATBuffer st0 i \<noteq> CHR ''>''"
    using less.prems(1,2) dt by (auto simp: ditch_full_def terminated_def NUL_def split: if_splits)
  show ?case
  proof (cases "0 < c")
    case False
    then have "fill_line st p es = Inr (None, st0, es')"
      using dt rd by (subst fill_line.simps) simp
    with np t0 show ?thesis by (auto simp: line_ready_def)
  next
    case True
    let ?b = "(store (s_ATBuffer st0) q d)(q + length d := NUL)"
    have tb: "terminated ?b (s_ATBufferCur st0) (q + length d)" "\<forall>i. ?b i \<noteq> CHR ''>''"
      using t0 np store_no_prompt [OF t0(2)] by (auto simp: terminated_def)
    from scan_safe [OF tb] obtain cur r where sk: "skipEOLs ?b (s_ATBufferCur st0) = Inr cur"
      and tc: "terminated ?b cur (q + length d)" and fe: "findNextEOL ?b cur = Inr r"
      and re: "\<forall>e. r = Some e \<longrightarrow> cur \<le> e \<and> e < q + length d" by metis
    define st' where "st' = st0\<lparr>s_ATBuffer := ?b, s_ATBufferCur := cur,
       s_readCount := cint (s_readCount st0 + c)\<rparr>"
    have step: "fill_line st p es = (if r \<noteq> None then Inr (r, st', es') else fill_line st' (q + length d) es')"
      using dt rd True sk fe by (subst fill_line.simps) (simp add: st'_def)
    have ready: "line_ready st' r" using tb(2) tc re by (auto simp: line_ready_def st'_def)
    show ?thesis
    proof (cases "r = None")
      case False
      with step np ready show ?thesis by auto
    next
      case None: True
      have "ev_size es' < ev_size es"
        using read_fd_size [of "MAX_AT_RESPONSE - q" es] rd True by simp
      from less.hyps [OF this, of st' "q + length d"] tc tb(2) np step None show ?thesis
        by (auto simp: st'_def)
    qed
  qed
qed

lemma readline_start_safe:
  assumes "rl_ok st"
  shows "\<exists>r st' p. readline_start st = Inr (r, st', p) \<and> line_ready st' r \<and>
    (r = None \<longrightarrow> terminated (s_ATBuffer st') (s_ATBufferCur st') p)"
proof -
  let ?b = "s_ATBuffer st" and ?c = "s_ATBufferCur st"
  from assms obtain j where t: "terminated ?b ?c j" and np: "\<forall>i. ?b i \<noteq> CHR ''>''"
    by (auto simp: rl_ok_def)
  have pk: "peek ?b ?c = Inr (?b ?c)" using t by (simp add: peek_def terminated_def)
  from scan_safe [OF t np] obtain cur r n where sk: "skipEOLs ?b ?c = Inr cur"
    and tc: "terminated ?b cur j" and fe: "findNextEOL ?b cur = Inr r"
    and re: "\<forall>e. r = Some e \<longrightarrow> cur \<le> e \<and> e < j"
    and sl: "strlen_at ?b cur = Inr n" "holds ?b cur (map ?b [cur ..< cur + n])" by metis
  have mv: "terminated (memmove_front ?b cur (n + 1)) 0 n"
    using holds_terminated [OF holds_memmove_front [OF sl(2)]] by simp
  show ?thesis
  proof (cases "?b ?c = NUL")
    case True
    have "terminated (?b(0 := NUL)) 0 0" by (simp add: terminated_def)
    with True pk np show ?thesis
      by (auto simp: readline_start_def line_ready_def NUL_def)
  next
    case False
    with pk sk fe sl(1) mv tc re np show ?thesis
      by (cases r) (auto simp: readline_start_def line_ready_def memmove_front_def)
  qed
qed

lemma take_line_safe: "line_ready st (Some e) \<Longrightarrow> rl_ok (snd (take_line e st))"
  by (auto simp: line_ready_def rl_ok_def take_line_def terminated_def NUL_def Suc_le_eq)

lemma readline_safe:
  assumes "rl_ok st" "no_prompt es"
  shows "\<exists>r st' es'. readline st es = Inr (r, st', es') \<and> rl_ok st' \<and> no_prompt es'"
proof -
  from readline_start_safe [OF assms(1)] obtain r0 st0 p where
    s: "readline_start st = Inr (r0, st0, p)" "line_ready st0 r0"
      "r0 = None \<longrightarrow> terminated (s_ATBuffer st0) (s_ATBufferCur st0) p" by blast
  have "\<exists>r st' es'. (if r0 = None then fill_line st0 p es else Inr (r0, st0, es)) =
      Inr (r, st', es') \<and> no_prompt es' \<and> line_ready st' r"
    using s fill_line_safe [of st0 p es] assms(2) by (auto simp: line_ready_def)
  then obtain r st' es' where f: "(if r0 = None then fill_line st0 p es else Inr (r0, st0, es)) =
      Inr (r, st', es')" "no_prompt es'" "line_ready st' r" by blast
  show ?thesis
  proof (cases r)
    case None
    with s(1) f show ?thesis by (auto simp: readline_def rl_ok_def line_ready_def)
  next
    case (Some e)
    with s(1) f take_line_safe [of st' e] show ?thesis
      by (auto simp: readline_def split: prod.splits)
  qed
qed

lemma rl_ok_init: "rl_ok rl_init"
  by (auto simp: rl_ok_def rl_init_def terminated_def NUL_def)

section \<open>A prompt\<close>

text \<open>The buffer after a first line: the line, and terminators behind it.\<close>

lemma first_line_buffer:
  assumes "l \<noteq> []" "\<forall>c \<in> set l. \<not> is_eol c" "text_ok l" "length l < MAX_AT_RESPONSE"
  shows "\<exists>st. readline rl_init (RdData (l @ [CR]) # es) = Inr (Some l, st, es) \<and>
    s_ATBufferCur st = length l + 1 \<and> (\<forall>i. s_ATBuffer st i = (if i < length l then l ! i else NUL))"
proof -
  let ?d = "l @ [CR]" and ?b = "(\<lambda>_::nat. NUL)(0 := NUL)"
  define st where "st = rl_init\<lparr>s_ATBufferCur := 0, s_ATBuffer := ?b\<rparr>"
  define st' where "st' = st\<lparr>s_ATBuffer := (store (s_ATBuffer st) 0 ?d)(0 + length ?d := NUL),
    s_ATBufferCur := s_ATBufferCur st + length (takeWhile is_eol ([] @ ?d)),
    s_readCount := cint (s_readCount st + int (length ?d))\<rparr>"
  have start: "readline_start rl_init = Inr (None, st, 0)"
    by (simp add: readline_start_def st_def rl_init_def peek_def)
  have u: "dropWhile is_eol ([] @ ?d) = ?d" and n: "takeWhile is_eol ([] @ ?d) = []"
    using dropWhile_eol_append [OF assms(2,1), of "[CR]"] by simp_all
  have eol: "\<exists>c \<in> set ?d. is_eol c" "takeWhile (\<lambda>c. \<not> is_eol c) ?d = l"
    using assms(2) by (auto simp: is_eol_def takeWhile_append)
  have len: "length ?d \<le> MAX_AT_RESPONSE" using assms(4) by simp
  then have rd: "read_fd (MAX_AT_RESPONSE - 0) (RdData ?d # es) = (int (length ?d), ?d, es)" by simp
  have "fill_line st 0 (RdData ?d # es) = Inr (Some (length l), st', es)"
    using fill_line_round(2) [where s = "[]" and st' = st', OF _ _ _ rd _ _ _ _ refl refl]
      len assms(3) u n eol by (simp add: st'_def st_def text_ok_def NUL_def MAX_AT_RESPONSE_def)
  moreover have "map (s_ATBuffer st') [0 ..< length l] = l"
    by (rule nth_equalityI) (simp_all add: st'_def store_def nth_append)
  moreover have "s_ATBufferCur st' = 0" using n by (simp add: st'_def st_def)
  ultimately show ?thesis using start
    by (auto simp: readline_def take_line_def st'_def st_def store_def nth_append)
qed

text \<open>
  The prompt in an empty buffer: it is handed out, and the cursor is left on whatever the buffer has at
  index 3.
\<close>

lemma prompt_leaves_cursor:
  "s_ATBufferCur st \<le> MAX_AT_RESPONSE \<Longrightarrow> s_ATBuffer st (s_ATBufferCur st) = NUL \<Longrightarrow>
   \<exists>st'. readline st (RdData ''> '' # es) = Inr (Some ''> '', st', es) \<and> s_ATBufferCur st' = 3 \<and>
     (\<forall>i \<ge> 3. s_ATBuffer st' i = s_ATBuffer st i)"
  by (auto simp add: readline_eval cong: and_then_weak_cong)

lemma stale_text:
  assumes "\<forall>i \<ge> 3. b i = (if i < length l then l ! i else NUL)" "NUL \<notin> set l" "length l < MAX_AT_RESPONSE"
  shows "holds b 3 (drop 3 l)"
  using assms holds_append [of b 3 "drop 3 l" "[]"]
  by (auto simp: MAX_AT_RESPONSE_def dest: in_set_dropD)

section \<open>Properties\<close>

text \<open>
  C8 (refinement). However the bytes of the modem are cut into reads and interrupted, the lines
  \<^verbatim>\<open>readline\<close> hands out are exactly the complete lines of the byte stream, in order, and at
  the end of the stream it returns NULL: for a stream without NUL and prompt characters in which
  no line overruns the buffer of 8192 bytes. Fuel bounds the number of calls; one more than the
  number of bytes is enough.
\<close>

theorem readline_delivers_lines:
  assumes "clean es" "text_ok (stream es)" "fits 0 0 (stream es)"
  shows "read_lines (Suc (length (stream es))) rl_init es = Inr (complete_lines (stream es))"
  using read_lines_correct [OF holds_rl_init, of es "Suc (length (stream es))"] assms by simp

theorem readline_delivers_lines_witness:
  "read_lines 21 rl_init [RdData ''+CSQ: 31'', RdEINTR, RdData (''000'' @ [CR]),
      RdData ([LF, CR, LF] @ ''OK'' @ [CR, LF] @ ''+'')] = Inr [''+CSQ: 31000'', ''OK'']"
proof -
  let ?es = "[RdData ''+CSQ: 31'', RdEINTR, RdData (''000'' @ [CR]),
      RdData ([LF, CR, LF] @ ''OK'' @ [CR, LF] @ ''+'')]"
  have "clean ?es" "text_ok (stream ?es)" "fits 0 0 (stream ?es)"
    by (simp_all add: text_ok_def NUL_def fits_short MAX_AT_RESPONSE_def)
  note readline_delivers_lines [OF this]
  moreover have "complete_lines (stream ?es) = [''+CSQ: 31000'', ''OK'']" by code_simp
  moreover have "Suc (length (stream ?es)) = 21" by simp
  ultimately show ?thesis by (simp only:)
qed

text \<open>
  C15 (safety). Whatever bytes arrive, NUL bytes and lines longer than the buffer included, as long
  as there is no prompt character among them: a call of \<^verbatim>\<open>readline\<close> returns without an
  access outside \<^verbatim>\<open>s_ATBuffer\<close>, and leaves the buffer in a state from which the same holds.
\<close>

theorem readline_memory_safe:
  "rl_ok rl_init \<and> (rl_ok st \<and> no_prompt es \<longrightarrow>
     (\<exists>r st' es'. readline st es = Inr (r, st', es') \<and> rl_ok st' \<and> no_prompt es'))"
  using rl_ok_init readline_safe by blast

theorem readline_memory_safe_witness:
  "\<exists>r st' es'. readline rl_init [RdData (''AT'' @ [NUL] @ ''x''), RdError] = Inr (r, st', es') \<and>
     rl_ok st' \<and> no_prompt es'"
  using readline_memory_safe [of rl_init "[RdData (''AT'' @ [NUL] @ ''x''), RdError]"]
  by (simp add: NUL_def)

text \<open>
  C38 (error). The prompt \<^verbatim>\<open>"> "\<close> that the modem sends for the text of a message has no line
  end; \<^verbatim>\<open>readline\<close> puts its terminator on the terminating NUL and the cursor one behind it, on
  old bytes of the buffer. After any line \<open>l\<close> and a prompt, everything that follows is read as if
  \<open>l\<close> without its first three characters stood in front of it: the lines handed out are those of
  \<open>drop 3 l @ stream es\<close>, where the modem sent \<open>stream es\<close>. For an \<open>l\<close> of at
  most three characters these are the right lines; the rest of a longer one is handed out again.
\<close>

theorem readline_prompt_redelivers:
  assumes "l \<noteq> []" "\<forall>c \<in> set l. \<not> is_eol c" "text_ok l" "length l < MAX_AT_RESPONSE"
    and "clean es" "text_ok (stream es)" "fits 0 0 (drop 3 l @ stream es)"
  shows "read_lines (length l + length (stream es) + 3) rl_init (RdData (l @ [CR]) # RdData ''> '' # es) =
    Inr (l # ''> '' # complete_lines (drop 3 l @ stream es))"
proof -
  from first_line_buffer [OF assms(1-4)] obtain st1 where
    r1: "readline rl_init (RdData (l @ [CR]) # RdData ''> '' # es) = Inr (Some l, st1, RdData ''> '' # es)"
    and s1: "s_ATBufferCur st1 = length l + 1" "\<forall>i. s_ATBuffer st1 i = (if i < length l then l ! i else NUL)"
    by blast
  from prompt_leaves_cursor [of st1 es] s1 assms(4) obtain st2 where
    r2: "readline st1 (RdData ''> '' # es) = Inr (Some ''> '', st2, es)"
    and s2: "s_ATBufferCur st2 = 3" "\<forall>i \<ge> 3. s_ATBuffer st2 i = s_ATBuffer st1 i" by auto
  have "holds (s_ATBuffer st2) (s_ATBufferCur st2) (drop 3 l)"
    unfolding s2(1) using assms(3,4) s1(2) s2(2) by (intro stale_text) (auto simp: text_ok_def)
  moreover have "text_ok (drop 3 l @ stream es)"
    using assms(3,6) by (auto simp: text_ok_def dest: in_set_dropD)
  ultimately have "read_lines (Suc (length l + length (stream es))) st2 es = Inr (complete_lines (drop 3 l @ stream es))"
    using assms(5,7) by (intro read_lines_correct) auto
  with r1 r2 show ?thesis by (simp add: numeral_3_eq_3)
qed

theorem readline_prompt_redelivers_witness:
  "read_lines 11 rl_init [RdData (''ABCDE'' @ [CR]), RdData ''> '', RdData (''x'' @ [CR, LF])] =
     Inr [''ABCDE'', ''> '', ''DEx'']"
proof -
  let ?es = "[RdData (''x'' @ [CR, LF])]"
  have "''ABCDE'' \<noteq> []" "\<forall>c \<in> set ''ABCDE''. \<not> is_eol c" "text_ok ''ABCDE''" "length ''ABCDE'' < MAX_AT_RESPONSE"
    "clean ?es" "text_ok (stream ?es)" "fits 0 0 (drop 3 ''ABCDE'' @ stream ?es)"
    by (simp_all add: text_ok_def is_eol_def NUL_def fits_short MAX_AT_RESPONSE_def)
  note readline_prompt_redelivers [OF this]
  moreover have "complete_lines (drop 3 ''ABCDE'' @ stream ?es) = [''DEx'']" by code_simp
  moreover have "length ''ABCDE'' + length (stream ?es) + 3 = 11" by simp
  ultimately show ?thesis by (simp only: append.simps)
qed

end
