(* ===== verification/AtCommands.thy ===== *)
theory AtCommands
  imports AtProtocol AtFraming
begin

text \<open>
  What the AT channel promises its users, from the bytes on the wire to the response of a
  command: the lines between a command and its final response are divided into intermediate and
  unsolicited ones without loss and in order; a command returns as soon as its final response or
  the end of the input arrives; with no command pending, the reader thread hands every line of
  the byte stream to the unsolicited handler, an SMS indication together with the line behind it.
\<close>

section \<open>Writing\<close>

lemma write_fd_range: "write_fd n ws = (c, ws') \<Longrightarrow> c \<le> int n"
  by (induction n ws rule: write_fd.induct) auto

lemma write_all_prefix:
  "write_all s ws = (ok, sent, ws') \<Longrightarrow> \<exists>r. s = sent @ r \<and> (ok \<longrightarrow> r = [])"
proof (induction s ws arbitrary: ok sent ws' rule: write_all.induct)
  case (1 s ws)
  obtain c ws1 where w: "write_fd (length s) ws = (c, ws1)" by fastforce
  obtain ok1 sent1 ws2 where n: "write_all (drop (nat c) s) ws1 = (ok1, sent1, ws2)" by (rule prod_cases3)
  show ?case
  proof (cases "s = [] \<or> c < 0")
    case True
    with 1(2) w show ?thesis by (auto simp: write_all.simps [of s ws] split: if_splits)
  next
    case False
    with 1(2) w n have e: "ok = ok1" "sent = take (nat c) s @ sent1"
      by (auto simp: write_all.simps [of s ws])
    from 1(1) [OF _ w [symmetric] _ n] False obtain r
      where "drop (nat c) s = sent1 @ r" "ok1 \<longrightarrow> r = []" by auto
    with e show ?thesis by (metis append.assoc append_take_drop_id)
  qed
qed

lemma write_with_wire:
  assumes "write_with t s ch = (err, ch')"
  shows "if err = 0 then wire ch' = wire ch @ s @ [t]
    else \<exists>p r. s = p @ r \<and> wire ch' = wire ch @ p"
proof -
  obtain ok sent ws where w: "write_all s (wr_script ch) = (ok, sent, ws)" by (rule prod_cases3)
  from write_all_prefix [OF w] obtain r where "s = sent @ r" "ok \<longrightarrow> r = []" by blast
  with assms w show ?thesis
    by (auto simp: write_with_def at_error_defs split: if_splits prod.splits)
qed

lemma write_all_free: "write_all s [] = (True, s, [])"
  by (subst write_all.simps) (simp add: write_all.simps)

lemma writeline_free:
  "0 \<le> s_fd ch \<Longrightarrow> s_readerClosed ch \<le> 0 \<Longrightarrow> wr_script ch = [] \<Longrightarrow>
     writeline s ch = (0, ch\<lparr>wire := wire ch @ s @ [CR]\<rparr>)"
  by (simp add: writeline_def write_with_def write_all_free)

section \<open>The lines of a response\<close>

text \<open>The lines that satisfy \<open>P\<close> (all of them, or only the first), and the rest.\<close>

fun pick_lines :: "(string \<Rightarrow> bool) \<Rightarrow> bool \<Rightarrow> string list \<Rightarrow> string list \<times> string list" where
  "pick_lines P multi [] = ([], [])"
| "pick_lines P multi (l # ls) =
     (if P l then (if multi then (case pick_lines P multi ls of (a, b) \<Rightarrow> (l # a, b)) else ([l], ls))
      else (case pick_lines P multi ls of (a, b) \<Rightarrow> (a, l # b)))"

lemma pick_lines_all: "pick_lines P True ls = (filter P ls, filter (\<lambda>l. \<not> P l) ls)"
  by (induction ls) auto

lemma pick_lines_none: "pick_lines (\<lambda>l. False) multi ls = ([], ls)"
  by (induction ls) auto

definition unsol :: "at_chan \<Rightarrow> string list \<Rightarrow> callback list" where
  "unsol ch ls = (if s_unsolHandler ch then map (\<lambda>l. CbUnsol l None) ls else [])"

lemma unsol_simps [simp]:
  "unsol ch [] = []" "unsol ch (l # ls) = handleUnsolicited l ch @ unsol ch ls"
  by (auto simp: unsol_def handleUnsolicited_def)

lemma unsol_cong: "s_unsolHandler ch' = s_unsolHandler ch \<Longrightarrow> unsol ch' ls = unsol ch ls"
  by (simp add: unsol_def)

definition answered :: "string list \<Rightarrow> string \<Rightarrow> at_chan \<Rightarrow> ATResponse \<Rightarrow> at_chan" where
  "answered ls f ch r = ch\<lparr>sp_response := Some (r\<lparr>p_intermediates := rev ls @ p_intermediates r,
     success := (if isFinalResponseSuccess f then 1 else 0), finalResponse := Some f\<rparr>)\<rparr>"

text \<open>
  A waiting command without a message text, from its start to the final response. \<open>takes_more\<close> tells
  whether further intermediate lines are taken.
\<close>

definition takes_more :: "at_chan \<Rightarrow> ATResponse \<Rightarrow> bool" where
  "takes_more ch r \<longleftrightarrow> s_type ch = MULTILINE \<or> p_intermediates r = []"

definition taken :: "at_chan \<Rightarrow> ATResponse \<Rightarrow> string list \<Rightarrow> string list \<times> string list" where
  "taken ch r ls = (if takes_more ch r
     then pick_lines (expected (s_type ch) (s_responsePrefix ch)) (s_type ch = MULTILINE) ls
     else ([], ls))"

lemma taken_step:
  assumes "pending_ok ch" "sp_response ch = Some r" "s_smsPDU ch = None" "\<not> isFinalResponse l"
  shows "\<exists>r' cbs. processLine l ch = Inr (ch\<lparr>sp_response := Some r'\<rparr>, cbs) \<and>
    finalResponse r' = finalResponse r \<and>
    (\<exists>new. p_intermediates r' = new @ p_intermediates r \<and> success r' = success r \<and>
      taken ch r (l # ls) = (case taken (ch\<lparr>sp_response := Some r'\<rparr>) r' ls of (a, b) \<Rightarrow>
        (rev new @ a, (if new = [] then l # b else b))) \<and>
      cbs = (if new = [] then handleUnsolicited l ch else []))"
proof (cases "expected (s_type ch) (s_responsePrefix ch) l \<and> takes_more ch r")
  case True
  then have "line_fate ch r l = Intermediate"
    using assms(3,4) by (auto simp: line_fate_def takes_more_def)
  with processLine_fate [OF assms(1,2), of l] True show ?thesis
    by (intro exI [of _ "addIntermediate l r"] exI [of _ "[]"] conjI exI [of _ "[l]"])
      (auto simp: addIntermediate_def taken_def takes_more_def pick_lines_none split: prod.splits)
next
  case False
  then have "line_fate ch r l = Unsolicited"
    using assms(3,4) by (auto simp: line_fate_def takes_more_def)
  with processLine_fate [OF assms(1,2), of l] False assms(2) show ?thesis
    by (intro exI [of _ r] exI [of _ "handleUnsolicited l ch"] conjI exI [of _ "[]"])
      (auto simp: taken_def takes_more_def split: prod.splits)
qed

lemma wait_loop_lines:
  assumes "pending_ok ch" "sp_response ch = Some r" "finalResponse r = None" "s_smsPDU ch = None"
    and "s_readerClosed ch = 0" "\<forall>l \<in> set ls. \<not> isFinalResponse l" "isFinalResponse f"
  shows "wait_loop tmo (map Line ls @ Line f # rest) ch =
    Inr (False, answered (fst (taken ch r ls)) f ch r, unsol ch (snd (taken ch r ls)), rest)"
  using assms
proof (induction ls arbitrary: ch r)
  case Nil
  then have w: "waiting_ok ch" "\<not> wait_over ch" by (auto simp: waiting_ok_def wait_over_def)
  have "line_fate ch r f = Final" using Nil by (simp add: line_fate_def)
  with processLine_fate [OF Nil.prems(1,2), of f]
  have re: "reader_event (Line f) ch = Inr (answered [] f ch r, [])"
    by (simp add: reader_event_def answered_def)
  have over: "wait_over (answered [] f ch r)" by (simp add: wait_over_def answered_def)
  have "fst (taken ch r []) = [] \<and> snd (taken ch r []) = []" by (simp add: taken_def)
  then show ?case using wait_loop_Cons [OF w, of tmo "Line f" rest] re wait_loop_over [OF over]
    by simp
next
  case (Cons l ls)
  then have w: "waiting_ok ch" "\<not> wait_over ch" by (auto simp: waiting_ok_def wait_over_def)
  from taken_step [OF Cons.prems(1,2,4), of l ls] Cons.prems(6) obtain r' cbs new where
    pl: "processLine l ch = Inr (ch\<lparr>sp_response := Some r'\<rparr>, cbs)" and fr: "finalResponse r' = finalResponse r"
    and pi: "p_intermediates r' = new @ p_intermediates r" "success r' = success r"
    and tk: "taken ch r (l # ls) = (case taken (ch\<lparr>sp_response := Some r'\<rparr>) r' ls of (a, b) \<Rightarrow>
        (rev new @ a, (if new = [] then l # b else b)))"
    and cbs: "cbs = (if new = [] then handleUnsolicited l ch else [])" by auto
  let ?ch = "ch\<lparr>sp_response := Some r'\<rparr>"
  have IH: "wait_loop tmo (map Line ls @ Line f # rest) ?ch =
    Inr (False, answered (fst (taken ?ch r' ls)) f ?ch r', unsol ?ch (snd (taken ?ch r' ls)), rest)"
    using Cons.prems processLine_pending_ok [OF Cons.prems(1) pl] fr by (intro Cons.IH) auto
  obtain a b where ab: "taken ?ch r' ls = (a, b)" by fastforce
  have an: "answered a f ?ch r' = answered (rev new @ a) f ch r"
    using pi by (cases r; cases r') (simp add: answered_def)
  have un: "unsol ?ch b = unsol ch b" by (rule unsol_cong) simp
  show ?case
    using wait_loop_Cons [OF w, of tmo "Line l" "map Line ls @ Line f # rest"] pl IH ab an un tk cbs
    by (simp add: reader_event_def)
qed

section \<open>A command and its answer\<close>

text \<open>The response of a command, and the lines that are not part of it.\<close>

definition answer :: "string list \<Rightarrow> string \<Rightarrow> ATResponse" where
  "answer ls f = \<lparr>success = (if isFinalResponseSuccess f then 1 else 0), finalResponse = Some f,
     p_intermediates = ls\<rparr>"

lemma full_answer:
  assumes ch: "chan_ok ch" "s_readerClosed ch = 0" and wr: "fst (writeline cmd ch) = 0"
    and pre: "type \<in> {SINGLELINE, MULTILINE} \<longrightarrow> pre \<noteq> None"
    and ls: "\<forall>l \<in> set ls. \<not> isFinalResponse l" "isFinalResponse f"
    and parts: "pick_lines (expected type pre) (type = MULTILINE) ls = (a, b)"
  shows "\<exists>res. at_send_command_full CommandThread cmd type pre None 0 True
      (map Line ls @ Line f # rest) ch = Inr res \<and> cr_err res = 0 \<and> cr_out res = Some (answer a f) \<and>
    cr_cbs res = unsol ch b \<and> cr_rest res = rest \<and> chan_ok (cr_chan res) \<and>
    wire (cr_chan res) = wire ch @ cmd @ [CR]"
proof -
  obtain ch1 where w: "writeline cmd ch = (0, ch1)" using wr by (cases "writeline cmd ch") auto
  let ?r = at_response_new
  let ?ch = "ch1\<lparr>s_type := type, s_responsePrefix := pre, s_smsPDU := None, sp_response := Some ?r\<rparr>"
  from ch have idle: "idle ch" by (simp add: chan_ok_def)
  have ch1: "ch1 = snd (write_with CR cmd ch)" using w by (simp add: writeline_def)
  have w1: "s_readerClosed ch1 = 0" "s_unsolHandler ch1 = s_unsolHandler ch"
    unfolding ch1 using ch(2) by simp_all
  have wi: "wire ch1 = wire ch @ cmd @ [CR]"
    using write_with_wire [of CR cmd ch 0 ch1] w by (simp add: writeline_def)
  have st: "start_command cmd type pre None ch = (0, ?ch)"
    using idle w by (simp add: start_command_def idle_def)
  have pend: "waiting_ok ?ch" using started_waiting_ok [OF _ pre, of ch1 None] w1 by simp
  have tk: "taken ?ch ?r ls = (a, b)"
    using parts by (simp add: taken_def takes_more_def at_response_new_def)
  have "wait_loop 0 (map Line ls @ Line f # rest) ?ch =
      Inr (False, answered (fst (taken ?ch ?r ls)) f ?ch ?r, unsol ?ch (snd (taken ?ch ?r ls)), rest)"
    using pend w1 ls by (intro wait_loop_lines) (auto simp: waiting_ok_def at_response_new_def)
  then have wl: "wait_loop 0 (map Line ls @ Line f # rest) ?ch =
      Inr (False, answered a f ?ch ?r, unsol ch b, rest)"
    using unsol_cong [of ?ch ch b] w1 unfolding tk by simp
  let ?res = "finish_command True False (answered a f ?ch ?r) (unsol ch b) rest"
  have "at_send_command_full CommandThread cmd type pre None 0 True
      (map Line ls @ Line f # rest) ch = Inr ?res"
    using st wl w1
    by (simp add: at_send_command_full_def at_send_command_full_nolock_def finish_command_def
        answered_def at_error_defs)
  moreover have "chan_ok (cr_chan ?res)"
    using w1 by (simp add: chan_ok_def finish_command_def answered_def clearPendingCommand_def idle_def)
  moreover have "cr_out ?res = Some (answer a f)"
    by (simp add: finish_command_def answered_def answer_def reverseIntermediates_def
        reverse_onto_rev at_response_new_def)
  ultimately show ?thesis
    using w1 wi by (intro exI [of _ ?res])
      (simp add: finish_command_def answered_def clearPendingCommand_def)
qed

section \<open>Commands return\<close>

text \<open>An event that ends the wait of any pending command.\<close>

definition ends_wait :: "at_chan \<Rightarrow> cmd_event \<Rightarrow> bool" where
  "ends_wait ch e = (case e of Line l \<Rightarrow> isFinalResponse l | ReaderEOF \<Rightarrow> s_onReaderClosed ch | _ \<Rightarrow> False)"

lemma reader_event_onReaderClosed:
  "pending_ok ch \<Longrightarrow> reader_event e ch = Inr (ch', cbs) \<Longrightarrow> s_onReaderClosed ch' = s_onReaderClosed ch"
  using processLine_keeps [of ch]
  by (auto simp: reader_event_def onReaderClosed_def split: cmd_event.splits if_splits)

lemma ends_wait_over:
  assumes "waiting_ok ch" "ends_wait ch e" "reader_event e ch = Inr (ch', cbs)"
  shows "wait_over ch'"
proof (cases e)
  case (Line l)
  from assms(1) obtain r where r: "sp_response ch = Some r" by (auto simp: waiting_ok_def)
  with assms Line have "line_fate ch r l = Final" by (simp add: line_fate_def ends_wait_def)
  with processLine_fate [of ch r l] r assms(1,3) Line show ?thesis
    by (auto simp: waiting_ok_def wait_over_def reader_event_def)
next
  case ReaderEOF
  with assms show ?thesis
    by (auto simp: waiting_ok_def wait_over_def reader_event_def ends_wait_def onReaderClosed_def
        split: if_splits)
qed (use assms in \<open>simp_all add: ends_wait_def\<close>)

lemma wait_loop_returns:
  "waiting_ok ch \<Longrightarrow> e \<in> set es \<Longrightarrow> ends_wait ch e \<Longrightarrow> \<exists>x. wait_loop tmo es ch = Inr x"
proof (induction es arbitrary: ch)
  case Nil
  then show ?case by simp
next
  case (Cons d es)
  show ?case
  proof (cases "wait_over ch \<or> d = TimedOut \<and> tmo \<noteq> 0")
    case True
    with wait_loop_over [of ch tmo "d # es"] wait_loop_Cons [OF Cons.prems(1), of tmo d es]
    show ?thesis by (cases "wait_over ch") auto
  next
    case False
    obtain ch' cbs where re: "reader_event d ch = Inr (ch', cbs)"
      using reader_event_no_fault Cons.prems(1) unfolding waiting_ok_def by blast
    note ok = reader_event_waiting_ok [OF Cons.prems(1) re]
    have "\<exists>x. wait_loop tmo es ch' = Inr x"
    proof (cases "d = e")
      case True
      with ends_wait_over [OF Cons.prems(1,3)] re wait_loop_over show ?thesis by blast
    next
      case d: False
      have "ends_wait ch' e"
        using Cons.prems(1,3) reader_event_onReaderClosed [OF _ re]
        by (auto simp: ends_wait_def waiting_ok_def split: cmd_event.splits)
      with Cons.IH [OF ok] d Cons.prems(2) show ?thesis by simp
    qed
    with False re wait_loop_Cons [OF Cons.prems(1), of tmo d es] show ?thesis by auto
  qed
qed

lemma ends_wait_started: "ends_wait (ch\<lparr>s_type := type, s_responsePrefix := pre, s_smsPDU := pdu,
    sp_response := r\<rparr>) e = ends_wait ch e"
  by (simp add: ends_wait_def split: cmd_event.splits)

lemma full_returns:
  assumes "chan_ok ch" "type \<in> {SINGLELINE, MULTILINE} \<longrightarrow> pre \<noteq> None" "e \<in> set es" "ends_wait ch e"
  shows "\<exists>res. at_send_command_full CommandThread cmd type pre pdu tmo want es ch = Inr res"
proof -
  obtain err ch1 where st: "start_command cmd type pre pdu ch = (err, ch1)" by fastforce
  have idle: "idle ch" and rc: "0 \<le> s_readerClosed ch" using assms(1) by (auto simp: chan_ok_def)
  have "\<not> err < 0 \<Longrightarrow> \<exists>x. wait_loop tmo es ch1 = Inr x"
    using start_command_cases [OF idle st] started_waiting_ok [OF _ assms(2), of "snd (writeline cmd ch)" pdu]
      assms(3,4) rc
    by (intro wait_loop_returns) (auto simp: writeline_def ends_wait_def split: cmd_event.splits)
  with st show ?thesis
    by (auto simp: at_send_command_full_def at_send_command_full_nolock_def)
qed

section \<open>The reader thread with no command pending\<close>

text \<open>What the unsolicited handler is called with for a sequence of lines.\<close>

fun unsol_calls :: "string list \<Rightarrow> callback list" where
  "unsol_calls [] = []"
| "unsol_calls [l] = (if isSMSUnsolicited l then [] else [CbUnsol l None])"
| "unsol_calls (l # m # ls) =
     (if isSMSUnsolicited l then CbUnsol l (Some m) # unsol_calls ls
      else CbUnsol l None # unsol_calls (m # ls))"

lemma unsol_calls_plain:
  "\<not> isSMSUnsolicited l \<Longrightarrow> unsol_calls (l # ls) = CbUnsol l None # unsol_calls ls"
  by (cases ls) auto

text \<open>The channel between two rounds: what is left to come is \<open>t\<close>.\<close>

definition reader_at :: "at_chan \<Rightarrow> rd_event list \<Rightarrow> string \<Rightarrow> bool" where
  "reader_at ch es t \<longleftrightarrow> sp_response ch = None \<and> s_unsolHandler ch \<and> clean es \<and> text_ok t \<and>
     fits 0 0 t \<and>
     (\<exists>pend. holds (s_ATBuffer (rl ch)) (s_ATBufferCur (rl ch)) pend \<and> t = pend @ stream es)"

lemma reader_at_readline:
  assumes "reader_at ch es t"
  shows "case next_line t of
      None \<Rightarrow> \<exists>st' es'. readline (rl ch) es = Inr (None, st', es')
    | Some (l, r) \<Rightarrow> \<exists>st' es'. readline (rl ch) es = Inr (Some l, st', es') \<and>
        reader_at (ch\<lparr>rl := st'\<rparr>) es' r"
proof -
  from assms obtain pend where p: "holds (s_ATBuffer (rl ch)) (s_ATBufferCur (rl ch)) pend"
    "t = pend @ stream es" and c: "clean es" "text_ok t" "fits 0 0 t"
    by (auto simp: reader_at_def)
  note rc = readline_correct [OF p(1) c(1), folded p(2), OF c(2,3)]
  show ?thesis
  proof (cases "next_line t")
    case None
    with rc show ?thesis by simp
  next
    case (Some lr)
    then obtain l r where lr: "next_line t = Some (l, r)" by (cases lr) auto
    with rc text_ok_next_line [OF c(2) lr] fits_next_line [OF c(3) lr] assms show ?thesis
      by (fastforce simp: reader_at_def)
  qed
qed

lemma complete_lines_Some: "next_line t = Some (l, r) \<Longrightarrow> complete_lines t = l # complete_lines r"
  by (simp add: complete_lines.simps [of t])

lemma complete_lines_None: "next_line t = None \<Longrightarrow> complete_lines t = []"
  by (simp add: complete_lines.simps [of t])

text \<open>One round: it stops at the end of the stream, or delivers one or two lines.\<close>

lemma reader_round:
  assumes "reader_at ch es t"
  shows "(\<exists>st es'. readerLoop_round ch es = Inr (True, ch\<lparr>rl := st\<rparr>, [], es') \<and>
        unsol_calls (complete_lines t) = []) \<or>
    (\<exists>st es' cb r. readerLoop_round ch es = Inr (False, ch\<lparr>rl := st\<rparr>, [cb], es') \<and>
        reader_at (ch\<lparr>rl := st\<rparr>) es' r \<and> length r < length t \<and>
        unsol_calls (complete_lines t) = cb # unsol_calls (complete_lines r))"
proof (cases "next_line t")
  case None
  with reader_at_readline [OF assms] show ?thesis
    by (auto simp: readerLoop_round_def complete_lines_None)
next
  case (Some lr)
  then obtain l r where lr: "next_line t = Some (l, r)" by (cases lr) auto
  with reader_at_readline [OF assms] obtain st es1 where
    r1: "readline (rl ch) es = Inr (Some l, st, es1)" and at1: "reader_at (ch\<lparr>rl := st\<rparr>) es1 r" by auto
  note cl = complete_lines_Some [OF lr] and sh = next_line_shorter [OF lr]
  have h: "sp_response ch = None" "s_unsolHandler ch" using assms by (auto simp: reader_at_def)
  show ?thesis
  proof (cases "isSMSUnsolicited l")
    case False
    with r1 h at1 sh cl show ?thesis
      by (intro disjI2) (auto simp: readerLoop_round_def processLine_def handleUnsolicited_def
          unsol_calls_plain)
  next
    case sms: True
    show ?thesis
    proof (cases "next_line r")
      case None
      with reader_at_readline [OF at1] r1 sms cl show ?thesis
        by (auto simp: readerLoop_round_def complete_lines_None)
    next
      case (Some mr)
      then obtain m r' where mr: "next_line r = Some (m, r')" by (cases mr) auto
      with reader_at_readline [OF at1] obtain st2 es2 where
        "readline st es1 = Inr (Some m, st2, es2)" "reader_at (ch\<lparr>rl := st2\<rparr>) es2 r'" by auto
      with r1 sms h cl complete_lines_Some [OF mr] next_line_shorter [OF mr] sh show ?thesis
        by (intro disjI2 exI [of _ st2] exI [of _ es2] exI [of _ "CbUnsol l (Some m)"] exI [of _ r'])
          (simp add: readerLoop_round_def)
    qed
  qed
qed

lemma readerLoop_idle:
  assumes "reader_at ch es t" "length t < fuel"
  shows "\<exists>ch'. readerLoop fuel ch es = Inr (ch', unsol_calls (complete_lines t) @
    (if s_onReaderClosed ch \<and> s_readerClosed ch = 0 then [CbReaderClosed] else []))"
  using assms
proof (induction fuel arbitrary: ch es t)
  case 0
  then show ?case by simp
next
  case (Suc n)
  from reader_round [OF Suc.prems(1)] show ?case
  proof (elim disjE exE conjE)
    fix st es'
    assume "readerLoop_round ch es = Inr (True, ch\<lparr>rl := st\<rparr>, [], es')"
      "unsol_calls (complete_lines t) = []"
    then show ?thesis
      by (simp add: onReaderClosed_def)
  next
    fix st es' cb r
    assume "readerLoop_round ch es = Inr (False, ch\<lparr>rl := st\<rparr>, [cb], es')"
      "reader_at (ch\<lparr>rl := st\<rparr>) es' r" "length r < length t"
      "unsol_calls (complete_lines t) = cb # unsol_calls (complete_lines r)"
    with Suc.IH [of "ch\<lparr>rl := st\<rparr>" es' r] Suc.prems(2) show ?thesis by auto
  qed
qed

section \<open>The handshake\<close>

text \<open>The bytes of \<open>n\<close> attempts.\<close>

definition attempts :: "nat \<Rightarrow> string" where
  "attempts n = concat (replicate n (''ATE0Q0V1'' @ [CR]))"

lemma attempts_simps [simp]:
  "attempts 0 = []" "attempts (Suc n) = ''ATE0Q0V1'' @ CR # attempts n"
  by (simp_all add: attempts_def)

text \<open>An open port that takes all bytes.\<close>

definition writes_all :: "at_chan \<Rightarrow> bool" where
  "writes_all ch \<longleftrightarrow> 0 \<le> s_fd ch \<and> wr_script ch = []"

lemma reader_event_wire:
  assumes "pending_ok ch" "s_smsPDU ch = None" "reader_event e ch = Inr (ch', cbs)"
  shows "wire ch' = wire ch" "wr_script ch' = wr_script ch" "s_fd ch' = s_fd ch" "s_smsPDU ch' = None"
  using assms processLine_fate [OF assms(1)] processLine_none [of ch]
  by (cases "sp_response ch"; auto simp: reader_event_def onReaderClosed_def line_fate_def
      split: cmd_event.splits if_splits)+

lemma wait_loop_wire:
  "waiting_ok ch \<Longrightarrow> s_smsPDU ch = None \<Longrightarrow> wait_loop tmo es ch = Inr (t, ch', cbs, rest) \<Longrightarrow>
     wire ch' = wire ch \<and> wr_script ch' = wr_script ch \<and> s_fd ch' = s_fd ch"
proof (induction es arbitrary: ch cbs)
  case Nil
  then show ?case using wait_loop_over wait_loop_Nil by (cases "wait_over ch") fastforce+
next
  case (Cons e es)
  show ?case
  proof (cases "wait_over ch \<or> e = TimedOut \<and> tmo \<noteq> 0")
    case True
    with Cons.prems wait_loop_over [of ch tmo "e # es"] wait_loop_Cons [of ch tmo e es]
    show ?thesis by (cases "wait_over ch") (auto split: if_splits)
  next
    case False
    obtain ch1 cbs1 where re: "reader_event e ch = Inr (ch1, cbs1)"
      using reader_event_no_fault Cons.prems(1) unfolding waiting_ok_def by blast
    with False Cons.prems obtain cbs' where w: "wait_loop tmo es ch1 = Inr (t, ch', cbs', rest)"
      by (subst (asm) wait_loop_Cons) (auto simp: c_simps)
    note rw = reader_event_wire [OF _ Cons.prems(2) re]
    from Cons.IH [OF reader_event_waiting_ok [OF Cons.prems(1) re] _ w] rw Cons.prems(1)
    show ?thesis by (simp add: waiting_ok_def)
  qed
qed

lemma nolock_wire:
  assumes ch: "chan_ok ch" "writes_all ch"
    and r: "at_send_command_full_nolock cmd NO_RESULT None None tmo want es ch = Inr res"
  shows "writes_all (cr_chan res) \<and> chan_ok (cr_chan res) \<and>
    wire (cr_chan res) = wire ch @ (if s_readerClosed ch > 0 then [] else cmd @ [CR])"
proof (cases "s_readerClosed ch > 0")
  case True
  with ch r show ?thesis
    by (auto simp: at_send_command_full_nolock_def start_command_def chan_ok_def idle_def
        writeline_def write_with_def at_error_defs writes_all_def clearPendingCommand_def)
next
  case False
  have idle: "sp_response ch = None" using ch by (simp add: chan_ok_def idle_def)
  let ?c1 = "ch\<lparr>wire := wire ch @ cmd @ [CR]\<rparr>"
  let ?c = "?c1\<lparr>s_type := NO_RESULT, s_responsePrefix := None, s_smsPDU := None,
    sp_response := Some at_response_new\<rparr>"
  have "start_command cmd NO_RESULT None None ch = (0, ?c)"
    using False ch writeline_free [of ch cmd] idle by (simp add: start_command_def writes_all_def)
  with r obtain t c2 cbs rest where w: "wait_loop tmo es ?c = Inr (t, c2, cbs, rest)"
    and res: "res = finish_command want t c2 cbs rest"
    by (auto simp: at_send_command_full_nolock_def c_simps)
  have ok: "waiting_ok ?c" using started_waiting_ok [of ?c1 NO_RESULT None None] ch
    by (simp add: chan_ok_def)
  from wait_loop_wire [OF ok _ w] have "wire c2 = wire ?c1 \<and> wr_script c2 = [] \<and> s_fd c2 = s_fd ch"
    using ch by (simp add: writes_all_def)
  with False ch res nolock_contract(2) [OF ch(1) _ r] show ?thesis
    by (auto simp: finish_command_def clearPendingCommand_def writes_all_def)
qed

lemma handshake_wire:
  assumes "chan_ok ch" "writes_all ch" "handshake_tries n err es ch = Inr res"
  shows "\<exists>k \<le> n. wire (cr_chan res) = wire ch @ attempts k"
  using assms
proof (induction n arbitrary: err es ch res)
  case 0
  then show ?case by auto
next
  case (Suc n)
  from Suc.prems(3) obtain res0 where r0: "at_send_command_full_nolock ''ATE0Q0V1'' NO_RESULT None
      None HANDSHAKE_TIMEOUT_MSEC False es ch = Inr res0"
    and "(if cr_err res0 = 0 then Inr res0
          else and_then (handshake_tries n (cr_err res0) (cr_rest res0) (cr_chan res0))
             (\<lambda>res'. Inr (res'\<lparr>cr_cbs := cr_cbs res0 @ cr_cbs res'\<rparr>))) = Inr res"
    by (auto simp: c_simps)
  then have rest: "if cr_err res0 = 0 then res = res0 else
      \<exists>res1. handshake_tries n (cr_err res0) (cr_rest res0) (cr_chan res0) = Inr res1 \<and>
        cr_chan res = cr_chan res1"
    by (auto simp: c_simps split: if_splits)
  note nw = nolock_wire [OF Suc.prems(1,2) r0]
  show ?case
  proof (cases "cr_err res0 = 0")
    case True
    with rest nw show ?thesis
      by (cases "s_readerClosed ch > 0") (auto intro: exI [of _ 0] exI [of _ "Suc 0"])
  next
    case False
    with rest nw Suc.IH obtain k where k: "k \<le> n" "wire (cr_chan res) = wire (cr_chan res0) @ attempts k"
      by metis
    with nw show ?thesis
      by (cases "s_readerClosed ch > 0") (auto intro: exI [of _ k] exI [of _ "Suc k"])
  qed
qed

section \<open>Properties\<close>

text \<open>A channel as \<^verbatim>\<open>at_open\<close> leaves it, for the examples below.\<close>

definition fresh_chan :: at_chan where
  "fresh_chan = \<lparr>s_fd = 3, s_unsolHandler = True, s_type = NO_RESULT, s_responsePrefix = None,
     s_smsPDU = None, sp_response = None, s_onTimeout = True, s_onReaderClosed = True,
     s_readerClosed = 0, rl = rl_init, wr_script = [], wire = []\<rparr>"

lemma fresh_chan_ok: "chan_ok fresh_chan" "s_readerClosed fresh_chan = 0" "writes_all fresh_chan"
  "fst (writeline cmd fresh_chan) = 0"
  using writeline_free [of fresh_chan cmd]
  by (simp_all add: fresh_chan_def chan_ok_def idle_def writes_all_def)

text \<open>
  C2 (functional). The answer of a multi-line command: all lines up to the final response that
  start with the prefix become the intermediate responses, in the order they came; all other
  lines go to the unsolicited handler, in the order they came; the response carries the final
  line and whether it means success; later lines are not consumed, the port has seen exactly the
  command and a carriage return, and the channel is idle again.
\<close>

theorem multiline_answer:
  assumes "chan_ok ch" "s_readerClosed ch = 0" "fst (writeline cmd ch) = 0"
    and "\<forall>l \<in> set ls. \<not> isFinalResponse l" "isFinalResponse f"
  shows "\<exists>res. at_send_command_multiline CommandThread cmd prefix True
      (map Line ls @ Line f # rest) ch = Inr res \<and> cr_err res = 0 \<and>
    cr_out res = Some (answer (filter (\<lambda>l. strStartsWith l prefix) ls) f) \<and>
    cr_cbs res = unsol ch (filter (\<lambda>l. \<not> strStartsWith l prefix) ls) \<and> cr_rest res = rest \<and>
    chan_ok (cr_chan res) \<and> wire (cr_chan res) = wire ch @ cmd @ [CR]"
  using full_answer [of ch cmd MULTILINE "Some prefix" ls f] assms
  by (simp add: at_send_command_multiline_def pick_lines_all)

theorem multiline_answer_witness:
  "\<exists>res. at_send_command_multiline CommandThread ''AT+CLCC'' ''+CLCC:'' True
      (map Line [''+CLCC: 1'', ''RING'', ''+CLCC: 2''] @ Line ''OK'' # [Spurious]) fresh_chan = Inr res \<and>
    cr_err res = 0 \<and>
    cr_out res = Some (answer (filter (\<lambda>l. strStartsWith l ''+CLCC:'')
       [''+CLCC: 1'', ''RING'', ''+CLCC: 2'']) ''OK'') \<and>
    cr_cbs res = unsol fresh_chan (filter (\<lambda>l. \<not> strStartsWith l ''+CLCC:'')
       [''+CLCC: 1'', ''RING'', ''+CLCC: 2'']) \<and> cr_rest res = [Spurious] \<and>
    chan_ok (cr_chan res) \<and> wire (cr_chan res) = wire fresh_chan @ ''AT+CLCC'' @ [CR]"
proof -
  have "\<forall>l \<in> set [''+CLCC: 1'', ''RING'', ''+CLCC: 2'']. \<not> isFinalResponse l" by code_simp
  moreover have "isFinalResponse ''OK''" by code_simp
  ultimately show ?thesis by (rule multiline_answer [OF fresh_chan_ok(1,2,4)])
qed

text \<open>
  C27 (functional). The answer of a single-line command: the first line that starts with the
  prefix is the intermediate response, all other lines before the final response are unsolicited;
  if the command succeeds without such a line the caller gets AT\_ERROR\_INVALID\_RESPONSE and no
  response.
\<close>

theorem singleline_answer:
  assumes "chan_ok ch" "s_readerClosed ch = 0" "fst (writeline cmd ch) = 0"
    and "\<forall>l \<in> set ls. \<not> isFinalResponse l" "isFinalResponse f"
    and "pick_lines (\<lambda>l. strStartsWith l prefix) False ls = (a, b)"
  shows "\<exists>res. at_send_command_singleline CommandThread cmd prefix True
      (map Line ls @ Line f # rest) ch = Inr res \<and> cr_cbs res = unsol ch b \<and> cr_rest res = rest \<and>
    chan_ok (cr_chan res) \<and>
    (if a = [] \<and> isFinalResponseSuccess f
     then cr_err res = AT_ERROR_INVALID_RESPONSE \<and> cr_out res = None
     else cr_err res = 0 \<and> cr_out res = Some (answer a f))"
proof -
  have pl: "pick_lines (expected SINGLELINE (Some prefix)) (SINGLELINE = MULTILINE) ls = (a, b)"
    using assms(6) by simp
  have pre: "SINGLELINE \<in> {SINGLELINE, MULTILINE} \<longrightarrow> Some prefix \<noteq> None" by simp
  obtain res where f: "at_send_command_full CommandThread cmd SINGLELINE (Some prefix) None 0 True
      (map Line ls @ Line f # rest) ch = Inr res" "cr_err res = 0" "cr_out res = Some (answer a f)"
    "cr_cbs res = unsol ch b" "cr_rest res = rest" "chan_ok (cr_chan res)"
    using full_answer [OF assms(1-3) pre assms(4,5) pl, of rest] by (elim exE conjE) (rule that)
  have sl: "at_send_command_singleline CommandThread cmd prefix True (map Line ls @ Line f # rest) ch =
      need_intermediate True res"
    unfolding at_send_command_singleline_def f(1) by simp
  show ?thesis
  proof (cases "a = [] \<and> isFinalResponseSuccess f")
    case True
    then have "need_intermediate True res = Inr (res\<lparr>cr_out := None, cr_err := AT_ERROR_INVALID_RESPONSE\<rparr>)"
      unfolding need_intermediate_def f(2,3) by (simp add: answer_def)
    with True f(4-) sl show ?thesis by simp
  next
    case False
    then have "need_intermediate True res = Inr res"
      unfolding need_intermediate_def f(2,3) by (auto simp: answer_def)
    with False f(2-) sl show ?thesis by auto
  qed
qed

theorem singleline_answer_witness:
  "\<exists>res. at_send_command_singleline CommandThread ''AT+CSQ'' ''+CSQ:'' True
      (map Line [''RING'', ''+CSQ: 9'', ''+CSQ: 8''] @ Line ''OK'' # []) fresh_chan = Inr res \<and>
    cr_cbs res = unsol fresh_chan [''RING'', ''+CSQ: 8''] \<and> cr_rest res = [] \<and>
    chan_ok (cr_chan res) \<and>
    (if [''+CSQ: 9''] = [] \<and> isFinalResponseSuccess ''OK''
     then cr_err res = AT_ERROR_INVALID_RESPONSE \<and> cr_out res = None
     else cr_err res = 0 \<and> cr_out res = Some (answer [''+CSQ: 9''] ''OK''))"
proof -
  have "\<forall>l \<in> set [''RING'', ''+CSQ: 9'', ''+CSQ: 8'']. \<not> isFinalResponse l" by code_simp
  moreover have "isFinalResponse ''OK''" by code_simp
  moreover have "pick_lines (\<lambda>l. strStartsWith l ''+CSQ:'') False [''RING'', ''+CSQ: 9'', ''+CSQ: 8''] =
    ([''+CSQ: 9''], [''RING'', ''+CSQ: 8''])" by simp
  ultimately show ?thesis by (rule singleline_answer [OF fresh_chan_ok(1,2,4)])
qed

text \<open>
  C1 (safety). What a caller of the single-line, numeric and SMS operations may rely on, whatever
  the modem sends and whenever the reader thread stops or writes fail: the only way not to return
  is to wait for ever; the error code is never positive; with error code 0 there is a response
  with a final line, and if it says success, exactly one intermediate line, of the expected form.
  The caller's \<^verbatim>\<open>p_response->p_intermediates->line\<close> is then never an access through NULL.
\<close>

theorem checked_command_safe:
  assumes "chan_ok ch"
    and "(send, P) \<in> {(at_send_command_singleline CommandThread cmd prefix True, \<lambda>l. strStartsWith l prefix),
      (at_send_command_numeric CommandThread cmd True, line_is_digit),
      (at_send_command_sms CommandThread cmd pdu prefix True, \<lambda>l. strStartsWith l prefix)}"
  shows "case send es ch of
      Inl f \<Rightarrow> f = Blocked
    | Inr res \<Rightarrow> chan_ok (cr_chan res) \<and> cr_err res \<le> 0 \<and> (cr_err res = 0 \<longrightarrow>
        (\<exists>r. cr_out res = Some r \<and> finalResponse r \<noteq> None \<and>
          (success r > 0 \<longrightarrow> (\<exists>l. p_intermediates r = [l] \<and> P l))))"
proof -
  have port: "at_port send (one_line P)"
    using assms(2) singleline.at_port_axioms numeric.at_port_axioms sms.at_port_axioms by blast
  show ?thesis
  proof (cases "send es ch")
    case (Inl f)
    with at_port.send_fault [OF port assms(1)] show ?thesis by simp
  next
    case (Inr res)
    with at_port.send_chan [OF port assms(1) Inr] at_port.send_err [OF port assms(1) Inr]
      at_port.send_resp [OF port assms(1) Inr]
    show ?thesis by (auto simp: good_response_def one_line_def)
  qed
qed

theorem checked_command_safe_witness:
  "case at_send_command_singleline CommandThread ''AT+CSQ'' ''+CSQ:'' True [Line ''OK''] fresh_chan of
      Inl f \<Rightarrow> f = Blocked
    | Inr res \<Rightarrow> chan_ok (cr_chan res) \<and> cr_err res \<le> 0 \<and> (cr_err res = 0 \<longrightarrow>
        (\<exists>r. cr_out res = Some r \<and> finalResponse r \<noteq> None \<and>
          (success r > 0 \<longrightarrow> (\<exists>l. p_intermediates r = [l] \<and> strStartsWith l ''+CSQ:''))))"
  by (rule checked_command_safe [OF fresh_chan_ok(1), of _ "\<lambda>l. strStartsWith l ''+CSQ:''"
        "''AT+CSQ''" "''+CSQ:''" "[]"]) simp

text \<open>
  C9 (liveness). A command returns once the modem sends a final response, or the reader thread
  ends with its callback registered, whatever else arrives before: for every command type, with
  or without a message text and a time limit.
\<close>

theorem command_returns:
  assumes "chan_ok ch" "type \<in> {SINGLELINE, MULTILINE} \<longrightarrow> pre \<noteq> None" "e \<in> set es" "ends_wait ch e"
  shows "\<exists>res. at_send_command_full CommandThread cmd type pre pdu tmo want es ch = Inr res"
  using full_returns [OF assms] .

theorem command_returns_witness:
  "\<exists>res. at_send_command_full CommandThread ''AT+CMGS=4'' SINGLELINE (Some ''+CMGS:'') (Some ''text'') 0
     True [Line ''RING'', Line ''> '', ReaderEOF] fresh_chan = Inr res"
  by (rule command_returns [OF fresh_chan_ok(1), where e = ReaderEOF])
    (simp_all add: ends_wait_def fresh_chan_def)

text \<open>
  \<^verbatim>\<open>writeline\<close> and \<^verbatim>\<open>writeCtrlZ\<close> against a port that accepts any number
  of bytes at a time, interrupts and fails: return code 0 means that the port has taken the text
  and its terminator, once and in order; otherwise it has taken a prefix of the text. A closed
  channel is not written to at all.
\<close>

theorem writeline_bytes:
  "(if fst (writeline s ch) = 0 then wire (snd (writeline s ch)) = wire ch @ s @ [CR]
    else \<exists>p r. s = p @ r \<and> wire (snd (writeline s ch)) = wire ch @ p) \<and>
   (if fst (writeCtrlZ s ch) = 0 then wire (snd (writeCtrlZ s ch)) = wire ch @ s @ [CHR 0x1A]
    else \<exists>p r. s = p @ r \<and> wire (snd (writeCtrlZ s ch)) = wire ch @ p) \<and>
   (if s_fd ch < 0 \<or> s_readerClosed ch > 0
    then writeline s ch = (AT_ERROR_CHANNEL_CLOSED, ch) else True)"
proof -
  note w = write_with_wire [OF surjective_pairing]
  have "s_fd ch < 0 \<or> s_readerClosed ch > 0 \<Longrightarrow> write_with CR s ch = (AT_ERROR_CHANNEL_CLOSED, ch)"
    by (simp add: write_with_def)
  with w [of CR s ch] w [of "CHR 0x1A" s ch] show ?thesis
    unfolding writeline_def writeCtrlZ_def by (intro conjI) simp_all
qed

text \<open>
  C16 (functional). With no command pending, the reader thread turns the byte stream into calls of
  the unsolicited handler: one call for every complete line, in order, except that the indication
  of a short message and the line behind it make one call together; at the end of the input the
  reader-closed callback runs once. Fuel bounds the rounds of the thread's loop; one more than the
  number of bytes is enough.
\<close>

theorem readerLoop_delivers:
  assumes "sp_response ch = None" "s_unsolHandler ch" "rl ch = rl_init"
    and "clean es" "text_ok (stream es)" "fits 0 0 (stream es)"
  shows "\<exists>ch'. readerLoop (Suc (length (stream es))) ch es = Inr (ch',
    unsol_calls (complete_lines (stream es)) @
    (if s_onReaderClosed ch \<and> s_readerClosed ch = 0 then [CbReaderClosed] else []))"
proof -
  have "reader_at ch es (stream es)"
    using assms holds_rl_init unfolding reader_at_def
    by (intro conjI exI [of _ "[]"]) simp_all
  then show ?thesis by (rule readerLoop_idle) simp
qed

theorem readerLoop_delivers_witness:
  "\<exists>ch'. readerLoop 13 fresh_chan [RdData (''+CMT: 4'' @ [CR]), RdData (''ab'' @ [CR, LF])] =
     Inr (ch', [CbUnsol ''+CMT: 4'' (Some ''ab''), CbReaderClosed])"
proof -
  let ?es = "[RdData (''+CMT: 4'' @ [CR]), RdData (''ab'' @ [CR, LF])]"
  have "sp_response fresh_chan = None" "s_unsolHandler fresh_chan" "rl fresh_chan = rl_init"
    by (simp_all add: fresh_chan_def)
  moreover have "clean ?es" "text_ok (stream ?es)" "fits 0 0 (stream ?es)"
    by (simp_all add: text_ok_def NUL_def fits_short MAX_AT_RESPONSE_def)
  ultimately have "\<exists>ch'. readerLoop (Suc (length (stream ?es))) fresh_chan ?es = Inr (ch',
    unsol_calls (complete_lines (stream ?es)) @ (if s_onReaderClosed fresh_chan \<and>
       s_readerClosed fresh_chan = 0 then [CbReaderClosed] else []))"
    by (rule readerLoop_delivers)
  moreover have "unsol_calls (complete_lines (stream ?es)) = [CbUnsol ''+CMT: 4'' (Some ''ab'')]"
    by code_simp
  moreover have "Suc (length (stream ?es)) = 13" by simp
  moreover have "s_onReaderClosed fresh_chan" "s_readerClosed fresh_chan = 0"
    by (simp_all add: fresh_chan_def)
  ultimately show ?thesis by (simp only:) simp
qed

text \<open>
  C33 (bounds). \<^verbatim>\<open>at_handshake\<close> puts the command \<^verbatim>\<open>ATE0Q0V1\<close> on the wire at most eight
  times, and nothing else, whatever the modem answers; the reader thread itself may not call it.
\<close>

theorem handshake_bound:
  assumes "chan_ok ch" "writes_all ch"
  shows "(at_handshake CommandThread es ch = Inr res \<longrightarrow>
      (\<exists>k \<le> 8. wire (cr_chan res) = wire ch @ attempts k)) \<and>
    (at_handshake ReaderThread es ch = Inr res \<longrightarrow>
      cr_err res = AT_ERROR_INVALID_THREAD \<and> cr_chan res = ch)"
  using handshake_wire [OF assms, of HANDSHAKE_RETRY_COUNT 0 es res]
  by (auto simp: at_handshake_def HANDSHAKE_RETRY_COUNT_def)

theorem handshake_bound_witness:
  "\<exists>res. at_handshake CommandThread [TimedOut, Line ''OK''] fresh_chan = Inr res \<and>
     (\<exists>k \<le> 8. wire (cr_chan res) = wire fresh_chan @ attempts k)"
proof -
  have "\<not> isl (at_handshake CommandThread [TimedOut, Line ''OK''] fresh_chan)" by code_simp
  then obtain res where r: "at_handshake CommandThread [TimedOut, Line ''OK''] fresh_chan = Inr res"
    by (cases "at_handshake CommandThread [TimedOut, Line ''OK''] fresh_chan") auto
  from handshake_bound [OF fresh_chan_ok(1,3), of "[TimedOut, Line ''OK'']" res] r show ?thesis
    by blast
qed

text \<open>
  \<^verbatim>\<open>at_get_cme_error\<close> recovers the code from a failed command's final line
  \<^verbatim>\<open>+CME ERROR: n\<close>, gives 0 for a command that succeeded and -1 for one that failed with any
  other final line.
\<close>

theorem cme_error_roundtrip:
  assumes "in_int n"
  shows "at_get_cme_error \<lparr>success = 0, finalResponse = Some (''+CME ERROR: '' @ show_d n),
      p_intermediates = ls\<rparr> = n \<and>
    at_get_cme_error \<lparr>success = 1, finalResponse = f, p_intermediates = ls\<rparr> = CME_SUCCESS \<and>
    (strStartsWith l ''+CME ERROR:'' \<or> at_get_cme_error \<lparr>success = 0, finalResponse = Some l,
      p_intermediates = ls\<rparr> = CME_ERROR_NON_CME)"
proof -
  have sp: "nextTok (Some (CHR '' '' # t)) = nextTok (Some t)" for t
    by (simp add: nextTok_def isspace_def chr_code_def)
  have "at_tok_nextint (Some (CHR '' '' # show_d n)) 0 = at_tok_nextint (Some (show_d n)) 0"
    unfolding at_tok_nextint_def at_tok_nextint_base_def sp by simp
  also have "\<dots> = (0, n, None)"
    using nextint_show_d [OF assms, of None 0] by (simp add: then_rest_def)
  finally show ?thesis
    by (simp add: at_get_cme_error_def at_tok_start_def)
qed

theorem cme_error_roundtrip_witness:
  "at_get_cme_error \<lparr>success = 0, finalResponse = Some (''+CME ERROR: '' @ show_d 10),
      p_intermediates = []\<rparr> = CME_SIM_NOT_INSERTED"
proof -
  have "in_int 10" by (simp add: in_int_def INT_MAX_def INT_MIN_def)
  from cme_error_roundtrip [OF this, of "[]" None] show ?thesis
    by (simp only: CME_SIM_NOT_INSERTED_def)
qed

end
