(* ===== verification/Runs.thy ===== *)
theory Runs
  imports Prelude
begin

text \<open>
  Interleavings. A system of threads is given by a function \<open>exec\<close>: for an atomic piece of code
  and a state it is \<open>None\<close> when no thread is at that piece, and otherwise the outcome of the
  piece. A run is a sequence of pieces without a fault. \<open>guarded\<close> restricts a system to the
  pieces a scheduler admits.
\<close>

type_synonym ('a, 's) system = "'a \<Rightarrow> 's \<Rightarrow> 's c_result option"

inductive run :: "('a, 's) system \<Rightarrow> 's \<Rightarrow> 'a list \<Rightarrow> 's \<Rightarrow> bool" for exec where
  run_none: "run exec s [] s"
| run_step: "exec a s = Some (Inr s') \<Longrightarrow> run exec s' as s'' \<Longrightarrow> run exec s (a # as) s''"

inductive_cases run_NilE [elim!]: "run exec s [] s'"
inductive_cases run_ConsE: "run exec s (a # as) s'"

inductive_simps run_Nil_iff [simp]: "run exec s [] s'"
inductive_simps run_Cons_iff: "run exec s (a # as) s'"

lemma run_append: "run exec s as u \<Longrightarrow> run exec u bs s' \<Longrightarrow> run exec s (as @ bs) s'"
  by (induction rule: run.induct) (auto intro: run_step)

lemma run_split: "run exec s (as @ bs) s' \<Longrightarrow> \<exists>u. run exec s as u \<and> run exec u bs s'"
proof (induction as arbitrary: s)
  case (Cons a as)
  then show ?case by (fastforce simp: run_Cons_iff)
qed auto

lemma run_keeps:
  "run exec s as s' \<Longrightarrow> I s \<Longrightarrow> (\<And>s a s'. I s \<Longrightarrow> exec a s = Some (Inr s') \<Longrightarrow> I s') \<Longrightarrow> I s'"
  by (induction rule: run.induct) auto

text \<open>Runs can be computed.\<close>

fun execs :: "('a, 's) system \<Rightarrow> 'a list \<Rightarrow> 's \<Rightarrow> 's option" where
  "execs exec [] s = Some s"
| "execs exec (a # as) s = (case exec a s of Some (Inr s') \<Rightarrow> execs exec as s' | _ \<Rightarrow> None)"

lemma run_execs: "execs exec as s = Some s' \<longleftrightarrow> run exec s as s'"
proof (induction as arbitrary: s)
  case (Cons a as)
  then show ?case by (auto simp: run_Cons_iff split: option.splits sum.splits)
qed auto

lemma run_exists: "execs exec as s \<noteq> None \<Longrightarrow> \<exists>s'. run exec s as s'"
  by (auto simp: run_execs)

lemma run_view: "map_option view (execs exec as s) = Some v \<Longrightarrow> \<exists>s'. run exec s as s' \<and> view s' = v"
  by (auto simp: run_execs)

lemma run_deterministic: "run exec s as u \<Longrightarrow> run exec s as v \<Longrightarrow> u = v"
  by (auto simp: run_execs [symmetric])

definition guarded :: "('a \<Rightarrow> 's \<Rightarrow> bool) \<Rightarrow> ('a, 's) system \<Rightarrow> ('a, 's) system" where
  "guarded ok exec a s = (if ok a s then exec a s else None)"

lemma guarded_Some [simp]: "guarded ok exec a s = Some r \<longleftrightarrow> ok a s \<and> exec a s = Some r"
  by (simp add: guarded_def)

lemma run_guarded: "run (guarded ok exec) s as s' \<Longrightarrow> run exec s as s'"
  by (induction rule: run.induct) (auto intro: run_step)

lemma run_guard_mono:
  "run (guarded ok exec) s as s' \<Longrightarrow> (\<And>a s. ok a s \<Longrightarrow> ok' a s) \<Longrightarrow> run (guarded ok' exec) s as s'"
  by (induction rule: run.induct) (auto intro: run_step)

text \<open>The contract of an invariant: it holds at the start, and every admitted piece keeps it.\<close>

locale run_invariant =
  fixes exec :: "('a, 's) system" and start :: "'s \<Rightarrow> bool" and I :: "'s \<Rightarrow> bool"
  assumes starts: "start s \<Longrightarrow> I s"
    and keeps: "I s \<Longrightarrow> exec a s = Some (Inr s') \<Longrightarrow> I s'"
begin

lemma run_from: "run exec s as s' \<Longrightarrow> I s \<Longrightarrow> I s'"
  by (erule run_keeps [where I = I]) (auto intro: keeps)

lemma reachable: "start s \<Longrightarrow> run exec s as s' \<Longrightarrow> I s'"
  using starts run_from by blast

end

end
