(* ===== verification/AtThreads.thy ===== *)
theory AtThreads
  imports AtCommands Runs
begin

text \<open>
  The AT channel under concurrency. Any number of threads may call
  \<^verbatim>\<open>at_send_command_full\<close> (\<^verbatim>\<open>fwril-100/atchannel.c\<close>): in this driver the thread of the
  RIL library, which runs \<^verbatim>\<open>onRequest\<close>, and the thread of the main loop, which polls and
  activates. They share the static variables with the reader thread under
  \<^verbatim>\<open>s_commandmutex\<close>. The code between two releases of the mutex is one atomic piece; waiting
  on \<^verbatim>\<open>s_commandcond\<close> releases it. A signal wakes one of the waiting threads, which one is
  the choice of the scheduler; a thread may also wake up for no reason, or because its time is over.
\<close>

section \<open>Threads\<close>

record cmd_args =
  ca_command :: string
  ca_type :: ATCommandType
  ca_prefix :: "string option"
  ca_pdu :: "string option"
  ca_timeout :: nat
  ca_want :: bool

text \<open>
  A thread in front of the call, waiting on the condition variable, awake but without the mutex
  (after a signal or when its time is over), and behind the call.
\<close>

datatype cmd_thread =
    CmdReady cmd_args
  | CmdWaiting cmd_args
  | CmdWoken cmd_args
  | CmdExpired cmd_args
  | CmdReturned cmd_args int "ATResponse option"

record at_sys =
  sy_chan :: at_chan
  sy_threads :: "cmd_thread list"
  sy_cbs :: "callback list"

definition thread_at :: "nat \<Rightarrow> at_sys \<Rightarrow> cmd_thread option" where
  "thread_at i s = (if i < length (sy_threads s) then Some (sy_threads s ! i) else None)"

definition set_thread :: "nat \<Rightarrow> cmd_thread \<Rightarrow> at_sys \<Rightarrow> at_sys" where
  "set_thread i t s = s\<lparr>sy_threads := (sy_threads s)[i := t]\<rparr>"

fun is_waiting :: "cmd_thread \<Rightarrow> bool" where
  "is_waiting (CmdWaiting _) = True"
| "is_waiting _ = False"

text \<open>\<^verbatim>\<open>pthread_cond_signal\<close>; \<open>who\<close> is the thread it wakes, \<open>None\<close> when no thread waits.\<close>

definition cond_signal :: "nat option \<Rightarrow> at_sys \<Rightarrow> at_sys option" where
  "cond_signal who s = (case who of
       None \<Rightarrow> if list_ex is_waiting (sy_threads s) then None else Some s
     | Some i \<Rightarrow> (case thread_at i s of
           Some (CmdWaiting args) \<Rightarrow> Some (set_thread i (CmdWoken args) s)
         | _ \<Rightarrow> None))"

section \<open>The pieces of a command\<close>

text \<open>The return, with the mutex given back and the timeout callback.\<close>

definition cmd_return :: "nat \<Rightarrow> cmd_args \<Rightarrow> cmd_result \<Rightarrow> at_sys \<Rightarrow> at_sys" where
  "cmd_return i args res s =
     (set_thread i (CmdReturned args (cr_err res) (cr_out res)) s)
       \<lparr>sy_chan := cr_chan res,
        sy_cbs := sy_cbs s @ (if cr_err res = AT_ERROR_TIMEOUT \<and> s_onTimeout (cr_chan res) then [CbTimeout] else [])\<rparr>"

text \<open>
  With the mutex held, the condition of the wait loop is evaluated: the thread waits (again), or
  goes on to the end of \<^verbatim>\<open>at_send_command_full_nolock\<close>.
\<close>

definition cmd_check :: "nat \<Rightarrow> cmd_args \<Rightarrow> at_sys \<Rightarrow> at_sys c_result" where
  "cmd_check i args s =
     and_then (deref (sp_response (sy_chan s))) (\<lambda>r.
       Inr (if finalResponse r = None \<and> s_readerClosed (sy_chan s) = 0 then set_thread i (CmdWaiting args) s
            else cmd_return i args (finish_command (ca_want args) False (sy_chan s) [] []) s))"

definition cmd_enter :: "nat \<Rightarrow> cmd_args \<Rightarrow> at_sys \<Rightarrow> at_sys c_result" where
  "cmd_enter i args s =
     (case start_command (ca_command args) (ca_type args) (ca_prefix args) (ca_pdu args) (sy_chan s) of (err, ch) \<Rightarrow>
        if err < 0
        then Inr (cmd_return i args \<lparr>cr_err = err, cr_out = None, cr_chan = clearPendingCommand ch,
               cr_cbs = [], cr_rest = []\<rparr> s)
        else cmd_check i args (s\<lparr>sy_chan := ch\<rparr>))"

definition cmd_expired :: "nat \<Rightarrow> cmd_args \<Rightarrow> at_sys \<Rightarrow> at_sys" where
  "cmd_expired i args s = cmd_return i args (finish_command (ca_want args) True (sy_chan s) [] []) s"

text \<open>When the reader thread signals.\<close>

definition reader_signals :: "cmd_event \<Rightarrow> at_chan \<Rightarrow> bool" where
  "reader_signals e ch = (case e of
       Line l \<Rightarrow> sp_response ch \<noteq> None \<and> isFinalResponse l
     | ReaderEOF \<Rightarrow> s_onReaderClosed ch \<and> s_readerClosed ch = 0
     | _ \<Rightarrow> False)"

definition signal_if :: "bool \<Rightarrow> nat option \<Rightarrow> at_sys \<Rightarrow> at_sys c_result option" where
  "signal_if b who s =
     (if b then map_option Inr (cond_signal who s) else if who = None then Some (Inr s) else None)"

definition reader_step :: "cmd_event \<Rightarrow> nat option \<Rightarrow> at_sys \<Rightarrow> at_sys c_result option" where
  "reader_step e who s = (case reader_event e (sy_chan s) of
       Inl f \<Rightarrow> Some (Inl f)
     | Inr (ch, cbs) \<Rightarrow> signal_if (reader_signals e (sy_chan s)) who (s\<lparr>sy_chan := ch, sy_cbs := sy_cbs s @ cbs\<rparr>))"

section \<open>Interleavings\<close>

text \<open>
  What the scheduler can do: let a thread enter the call, go on with the mutex, wake up for no
  reason, see the end of its time; let the reader thread handle what it has read; let some thread
  close the channel.
\<close>

datatype at_act =
    Enter nat | Resume nat | Wake nat | Expire nat | Read cmd_event "nat option" | Close "nat option"

fun at_exec :: "(at_act, at_sys) system" where
  "at_exec (Enter i) s = (case thread_at i s of Some (CmdReady args) \<Rightarrow> Some (cmd_enter i args s) | _ \<Rightarrow> None)"
| "at_exec (Resume i) s = (case thread_at i s of
       Some (CmdWoken args) \<Rightarrow> Some (cmd_check i args s)
     | Some (CmdExpired args) \<Rightarrow> Some (Inr (cmd_expired i args s))
     | _ \<Rightarrow> None)"
| "at_exec (Wake i) s = (case thread_at i s of
       Some (CmdWaiting args) \<Rightarrow> Some (Inr (set_thread i (CmdWoken args) s)) | _ \<Rightarrow> None)"
| "at_exec (Expire i) s = (case thread_at i s of
       Some (CmdWaiting args) \<Rightarrow>
         if ca_timeout args = 0 then None else Some (Inr (set_thread i (CmdExpired args) s))
     | _ \<Rightarrow> None)"
| "at_exec (Read e who) s = (if e = TimedOut \<or> e = Spurious then None else reader_step e who s)"
| "at_exec (Close who) s = signal_if True who (s\<lparr>sy_chan := at_close (sy_chan s)\<rparr>)"

text \<open>A thread inside the call.\<close>

fun is_active :: "cmd_thread \<Rightarrow> bool" where
  "is_active (CmdReady _) = False"
| "is_active (CmdReturned _ _ _) = False"
| "is_active _ = True"

text \<open>Commands one at a time: a thread enters only when no other is inside.\<close>

fun one_at_a_time :: "at_act \<Rightarrow> at_sys \<Rightarrow> bool" where
  "one_at_a_time (Enter i) s = (\<not> list_ex is_active (sy_threads s))"
| "one_at_a_time _ s = True"

abbreviation serial_exec :: "(at_act, at_sys) system" where
  "serial_exec \<equiv> guarded one_at_a_time at_exec"

section \<open>Basic laws\<close>

lemma thread_at_simps [simp]:
  "thread_at i (s\<lparr>sy_chan := ch\<rparr>) = thread_at i s" "thread_at i (s\<lparr>sy_cbs := cbs\<rparr>) = thread_at i s"
  by (simp_all add: thread_at_def)

lemma set_thread_simps [simp]:
  "sy_chan (set_thread i t s) = sy_chan s" "sy_cbs (set_thread i t s) = sy_cbs s"
  "thread_at j (set_thread i t s) = (if j = i \<and> thread_at i s \<noteq> None then Some t else thread_at j s)"
  by (auto simp: set_thread_def thread_at_def nth_list_update)

lemma cmd_return_simps [simp]:
  "sy_chan (cmd_return i args res s) = cr_chan res"
  "thread_at j (cmd_return i args res s) =
     (if j = i \<and> thread_at i s \<noteq> None then Some (CmdReturned args (cr_err res) (cr_out res)) else thread_at j s)"
  by (simp_all add: cmd_return_def)

lemma list_ex_threads: "list_ex P (sy_threads s) \<longleftrightarrow> (\<exists>i t. thread_at i s = Some t \<and> P t)"
  by (auto simp: list_ex_length thread_at_def)

lemma cond_signal_cases:
  assumes "cond_signal who s = Some s'"
  shows "who = None \<and> s' = s \<and> (\<forall>i args. thread_at i s \<noteq> Some (CmdWaiting args)) \<or>
    (\<exists>i args. who = Some i \<and> thread_at i s = Some (CmdWaiting args) \<and> s' = set_thread i (CmdWoken args) s)"
  using assms
  by (auto simp: cond_signal_def list_ex_threads split: option.splits cmd_thread.splits if_splits)
    (metis is_waiting.simps(1))

lemma signal_if_cases:
  assumes "signal_if b who s = Some r"
  shows "(\<not> b \<and> r = Inr s) \<or> (b \<and> r = Inr s \<and> (\<forall>i args. thread_at i s \<noteq> Some (CmdWaiting args))) \<or>
    (\<exists>i args. b \<and> who = Some i \<and> thread_at i s = Some (CmdWaiting args) \<and> r = Inr (set_thread i (CmdWoken args) s))"
  using assms by (auto simp: signal_if_def split: if_splits dest!: cond_signal_cases)

section \<open>One command at a time\<close>

definition args_ok :: "cmd_args \<Rightarrow> bool" where
  "args_ok args \<longleftrightarrow> (ca_type args \<in> {SINGLELINE, MULTILINE} \<longrightarrow> ca_prefix args \<noteq> None)"

definition result_ok :: "cmd_args \<Rightarrow> int \<Rightarrow> ATResponse option \<Rightarrow> bool" where
  "result_ok args err out \<longleftrightarrow> err \<le> 0 \<and> (err = 0 \<and> ca_want args \<longrightarrow>
     (\<exists>r. out = Some r \<and> good_response (fits_type (ca_type args) (ca_prefix args)) r))"

text \<open>
  A thread inside the call owns the pending command: what is collected fits it, and as long as it
  waits there is something to wait for.
\<close>

definition owns :: "cmd_args \<Rightarrow> at_chan \<Rightarrow> bool" where
  "owns args ch \<longleftrightarrow> waiting_ok ch \<and> s_type ch = ca_type args \<and> s_responsePrefix ch = ca_prefix args"

fun thread_ok :: "cmd_thread \<Rightarrow> at_chan \<Rightarrow> bool" where
  "thread_ok (CmdReady args) ch = args_ok args"
| "thread_ok (CmdWaiting args) ch = (owns args ch \<and> \<not> wait_over ch)"
| "thread_ok (CmdWoken args) ch = owns args ch"
| "thread_ok (CmdExpired args) ch = (owns args ch \<and> ca_timeout args \<noteq> 0)"
| "thread_ok (CmdReturned args err out) ch = result_ok args err out"

definition serial_ok :: "at_sys \<Rightarrow> bool" where
  "serial_ok s \<longleftrightarrow> 0 \<le> s_readerClosed (sy_chan s) \<and>
     (\<forall>i t. thread_at i s = Some t \<longrightarrow> thread_ok t (sy_chan s)) \<and>
     (\<forall>i j t u. thread_at i s = Some t \<and> thread_at j s = Some u \<and> is_active t \<and> is_active u \<longrightarrow> i = j) \<and>
     ((\<forall>i t. thread_at i s = Some t \<longrightarrow> \<not> is_active t) \<longrightarrow> idle (sy_chan s))"

lemma inactive_thread_ok: "\<not> is_active t \<Longrightarrow> thread_ok t ch = thread_ok t ch'"
  by (cases t) auto

text \<open>The ways to keep the invariant: by the active thread alone, and by a step of the reader.\<close>

lemma serial_ok_update:
  assumes "serial_ok s" "thread_at i s = Some t" "\<And>j u. thread_at j s = Some u \<Longrightarrow> is_active u \<Longrightarrow> j = i"
    and "thread_ok t' ch" "0 \<le> s_readerClosed ch" "\<not> is_active t' \<Longrightarrow> idle ch"
  shows "serial_ok ((set_thread i t' s)\<lparr>sy_chan := ch, sy_cbs := cbs\<rparr>)"
proof -
  have others: "thread_ok u ch" if "thread_at j s = Some u" "j \<noteq> i" for j u
    using assms(1,3) that inactive_thread_ok [of u ch "sy_chan s"] by (auto simp: serial_ok_def)
  let ?s = "(set_thread i t' s)\<lparr>sy_chan := ch, sy_cbs := cbs\<rparr>"
  have th: "thread_at j ?s = (if j = i then Some t' else thread_at j s)" for j using assms(2) by simp
  have ch: "sy_chan ?s = ch" by simp
  have "\<forall>j u. thread_at j ?s = Some u \<longrightarrow> thread_ok u ch" unfolding th using others assms(4) by simp
  moreover have "\<forall>j k u v. thread_at j ?s = Some u \<and> thread_at k ?s = Some v \<and> is_active u \<and> is_active v \<longrightarrow> j = k"
    unfolding th using assms(3) by metis
  moreover have "(\<forall>j u. thread_at j ?s = Some u \<longrightarrow> \<not> is_active u) \<longrightarrow> idle ch"
    unfolding th using assms(6) by metis
  ultimately show ?thesis unfolding serial_ok_def ch using assms(5) by blast
qed

lemma active_unique: "serial_ok s \<Longrightarrow> thread_at i s = Some t \<Longrightarrow> is_active t \<Longrightarrow>
  thread_at j s = Some u \<Longrightarrow> is_active u \<Longrightarrow> j = i"
  unfolding serial_ok_def by blast

lemma serial_ok_thread: "serial_ok s \<Longrightarrow> thread_at i s = Some t \<Longrightarrow> thread_ok t (sy_chan s)"
  by (simp add: serial_ok_def)

text \<open>The check of the loop condition by the thread that owns the command.\<close>

lemma finish_result_ok:
  assumes "owns args ch" "wait_over ch"
  shows "result_ok args (cr_err (finish_command (ca_want args) False ch [] []))
      (cr_out (finish_command (ca_want args) False ch [] []))"
proof -
  have "wait_loop 0 [] ch = Inr (False, ch, [], [])" using assms(2) by (rule wait_loop_over)
  with waited_result [of ch 0 "[]" False ch "[]" "[]" "ca_want args"] assms(1) show ?thesis
    by (auto simp: result_ok_def owns_def at_error_defs)
qed

lemma finish_chan:
  "idle (cr_chan (finish_command want t ch cbs rest))"
  "s_readerClosed (cr_chan (finish_command want t ch cbs rest)) = s_readerClosed ch"
  by (auto simp: finish_command_def clearPendingCommand_def idle_def)

lemma cmd_check_owned:
  assumes "owns args (sy_chan s)"
  shows "cmd_check i args s = Inr (if wait_over (sy_chan s)
    then cmd_return i args (finish_command (ca_want args) False (sy_chan s) [] []) s
    else set_thread i (CmdWaiting args) s)"
  using assms by (auto simp: cmd_check_def owns_def waiting_ok_def wait_over_def)

lemma cmd_return_as_update:
  "cmd_return i args res s = (set_thread i (CmdReturned args (cr_err res) (cr_out res)) s)
     \<lparr>sy_chan := cr_chan res, sy_cbs := sy_cbs (cmd_return i args res s)\<rparr>"
  by (simp add: cmd_return_def)

lemma serial_ok_return:
  assumes "serial_ok s" "thread_at i s = Some t" "\<And>j u. thread_at j s = Some u \<Longrightarrow> is_active u \<Longrightarrow> j = i"
    and "result_ok args (cr_err res) (cr_out res)" "idle (cr_chan res)" "0 \<le> s_readerClosed (cr_chan res)"
  shows "serial_ok (cmd_return i args res s)"
  by (subst cmd_return_as_update, rule serial_ok_update [OF assms(1,2)]) (use assms(3-6) in auto)

text \<open>A step of the reader thread, or a close, seen by the threads inside the call.\<close>

definition env_step :: "bool \<Rightarrow> at_chan \<Rightarrow> at_chan \<Rightarrow> bool" where
  "env_step signals ch ch' \<longleftrightarrow> 0 \<le> s_readerClosed ch' \<and> (idle ch \<longrightarrow> idle ch') \<and>
     (\<forall>args. owns args ch \<longrightarrow> owns args ch') \<and>
     (\<not> signals \<longrightarrow> waiting_ok ch \<longrightarrow> \<not> wait_over ch \<longrightarrow> \<not> wait_over ch')"

lemma serial_ok_env:
  assumes "serial_ok s" "env_step b (sy_chan s) ch" "signal_if b who (s\<lparr>sy_chan := ch, sy_cbs := cbs\<rparr>) = Some r"
  shows "\<exists>s'. r = Inr s' \<and> serial_ok s'"
proof -
  have keep: "thread_ok t ch" if "thread_at i s = Some t" "\<And>args. t = CmdWaiting args \<Longrightarrow> \<not> b" for i t
    using serial_ok_thread [OF assms(1) that(1)] that(2) assms(2) by (cases t) (auto simp: env_step_def owns_def)
  have same: "serial_ok (s\<lparr>sy_chan := ch, sy_cbs := cbs\<rparr>)"
    if "\<And>i t. thread_at i s = Some t \<Longrightarrow> thread_ok t ch"
    using assms(1,2) that unfolding serial_ok_def env_step_def by auto
  from signal_if_cases [OF assms(3)] show ?thesis
  proof (elim disjE exE conjE)
    assume "\<not> b" "r = Inr (s\<lparr>sy_chan := ch, sy_cbs := cbs\<rparr>)"
    with same keep show ?thesis by blast
  next
    assume "r = Inr (s\<lparr>sy_chan := ch, sy_cbs := cbs\<rparr>)"
      "\<forall>i args. thread_at i (s\<lparr>sy_chan := ch, sy_cbs := cbs\<rparr>) \<noteq> Some (CmdWaiting args)"
    with same keep show ?thesis by (metis thread_at_simps)
  next
    fix i args
    assume r: "r = Inr (set_thread i (CmdWoken args) (s\<lparr>sy_chan := ch, sy_cbs := cbs\<rparr>))"
      and "thread_at i (s\<lparr>sy_chan := ch, sy_cbs := cbs\<rparr>) = Some (CmdWaiting args)"
    then have t: "thread_at i s = Some (CmdWaiting args)" by simp
    have e: "set_thread i (CmdWoken args) (s\<lparr>sy_chan := ch, sy_cbs := cbs\<rparr>) =
        (set_thread i (CmdWoken args) s)\<lparr>sy_chan := ch, sy_cbs := cbs\<rparr>" by (simp add: set_thread_def)
    have "serial_ok ((set_thread i (CmdWoken args) s)\<lparr>sy_chan := ch, sy_cbs := cbs\<rparr>)"
      using serial_ok_thread [OF assms(1) t] assms(2) active_unique [OF assms(1) t]
      by (intro serial_ok_update [OF assms(1) t]) (auto simp: env_step_def)
    with r e show ?thesis by simp
  qed
qed

lemma env_step_close: "env_step True ch (at_close ch)"
  by (auto simp: env_step_def at_close_def idle_def owns_def waiting_ok_def pending_ok_def)

lemma serial_ok_pending: "serial_ok s \<Longrightarrow> pending_ok (sy_chan s)"
proof -
  assume ok: "serial_ok s"
  show ?thesis
  proof (cases "\<exists>i t. thread_at i s = Some t \<and> is_active t")
    case True
    then obtain i t where t: "thread_at i s = Some t" "is_active t" by blast
    with serial_ok_thread [OF ok t(1)] show ?thesis by (cases t) (auto simp: owns_def waiting_ok_def)
  next
    case False
    with ok show ?thesis unfolding serial_ok_def by (blast intro: idle_pending_ok)
  qed
qed

lemma processLine_over:
  assumes "waiting_ok ch" "processLine l ch = Inr (ch', cbs)" "\<not> isFinalResponse l" "\<not> wait_over ch"
  shows "\<not> wait_over ch'"
proof -
  obtain r where r: "sp_response ch = Some r" and p: "pending_ok ch" using assms(1) by (auto simp: waiting_ok_def)
  show ?thesis using assms(2-4) processLine_fate [OF p r, of l] r
    by (auto simp: line_fate_def wait_over_def addIntermediate_def writeCtrlZ_def split: if_splits)
qed

lemma env_step_reader:
  assumes "reader_event e ch = Inr (ch', cbs)" "pending_ok ch" "0 \<le> s_readerClosed ch"
  shows "env_step (reader_signals e ch) ch ch'"
proof -
  note k = reader_event_keeps [OF assms(2,1)]
  have "idle ch'" if "idle ch"
  proof -
    have "sp_response ch = None" using that by (simp add: idle_def)
    from processLine_none [OF this] that assms(1) show ?thesis
      by (auto simp: reader_event_def onReaderClosed_def idle_def split: cmd_event.splits if_splits)
  qed
  moreover have "owns args ch'" if "owns args ch" for args
    using that k reader_event_waiting_ok [OF _ assms(1)] by (auto simp: owns_def)
  moreover have "\<not> wait_over ch'" if "\<not> reader_signals e ch" "waiting_ok ch" "\<not> wait_over ch"
    using that assms(1) processLine_over [OF that(2) _ _ that(3)]
    by (auto simp: reader_event_def onReaderClosed_def reader_signals_def waiting_ok_def wait_over_def
        split: cmd_event.splits if_splits)
  ultimately show ?thesis using k(6) assms(3) by (simp add: env_step_def)
qed

lemma serial_ok_reader:
  assumes "serial_ok s" "reader_step e who s = Some r"
  shows "\<exists>s'. r = Inr s' \<and> serial_ok s'"
proof -
  have p: "pending_ok (sy_chan s)" "0 \<le> s_readerClosed (sy_chan s)"
    using serial_ok_pending [OF assms(1)] assms(1) by (simp_all add: serial_ok_def)
  obtain ch cbs where e: "reader_event e (sy_chan s) = Inr (ch, cbs)" using reader_event_no_fault [OF p(1)] by blast
  with assms(2) have "signal_if (reader_signals e (sy_chan s)) who
      (s\<lparr>sy_chan := ch, sy_cbs := sy_cbs s @ cbs\<rparr>) = Some r" by (simp add: reader_step_def)
  from serial_ok_env [OF assms(1) env_step_reader [OF e p] this] show ?thesis .
qed

text \<open>A step of a command thread.\<close>

lemma serial_ok_check:
  assumes "serial_ok s" "thread_at i s = Some t" "\<And>j u. thread_at j s = Some u \<Longrightarrow> is_active u \<Longrightarrow> j = i"
    and "owns args ch" "s_readerClosed ch = s_readerClosed (sy_chan s)"
  shows "\<exists>s'. cmd_check i args (s\<lparr>sy_chan := ch\<rparr>) = Inr s' \<and> serial_ok s'"
proof (cases "wait_over ch")
  case True
  let ?res = "finish_command (ca_want args) False ch [] []"
  have c: "0 \<le> s_readerClosed ch" using assms(1,5) by (simp add: serial_ok_def)
  have "cmd_return i args ?res (s\<lparr>sy_chan := ch\<rparr>) = cmd_return i args ?res s"
    by (simp add: cmd_return_def set_thread_def)
  moreover have "serial_ok (cmd_return i args ?res s)"
    by (rule serial_ok_return [OF assms(1,2)]) (use assms(3) finish_result_ok [OF assms(4) True] finish_chan c in auto)
  ultimately show ?thesis using True assms(4) by (simp add: cmd_check_owned)
next
  case False
  have "serial_ok ((set_thread i (CmdWaiting args) s)\<lparr>sy_chan := ch, sy_cbs := sy_cbs s\<rparr>)"
    using assms False by (intro serial_ok_update [OF assms(1,2)]) (auto simp: serial_ok_def)
  moreover have "(set_thread i (CmdWaiting args) s)\<lparr>sy_chan := ch, sy_cbs := sy_cbs s\<rparr> =
      set_thread i (CmdWaiting args) (s\<lparr>sy_chan := ch\<rparr>)" by (simp add: set_thread_def)
  ultimately show ?thesis using False assms(4) by (simp add: cmd_check_owned)
qed

lemma start_command_owns:
  assumes "idle ch" "start_command (ca_command args) (ca_type args) (ca_prefix args) (ca_pdu args) ch = (err, ch')"
    and "\<not> err < 0" "thread_ok (CmdReady args) ch" "0 \<le> s_readerClosed ch"
  shows "owns args ch'"
proof -
  have "ch' = (snd (writeline (ca_command args) ch))\<lparr>s_type := ca_type args, s_responsePrefix := ca_prefix args,
      s_smsPDU := ca_pdu args, sp_response := Some at_response_new\<rparr>"
    using start_command_cases [OF assms(1,2)] assms(3) by auto
  then show ?thesis
    using started_waiting_ok [of "snd (writeline (ca_command args) ch)" "ca_type args" "ca_prefix args"] assms(4,5)
    by (auto simp: args_ok_def writeline_def owns_def)
qed

lemma serial_ok_enter:
  assumes "serial_ok s" "thread_at i s = Some (CmdReady args)" "\<And>j u. thread_at j s = Some u \<Longrightarrow> \<not> is_active u"
  shows "\<exists>s'. cmd_enter i args s = Inr s' \<and> serial_ok s'"
proof -
  have idle: "idle (sy_chan s)" using assms(1,3) by (auto simp: serial_ok_def)
  have a: "args_ok args" "0 \<le> s_readerClosed (sy_chan s)"
    using serial_ok_thread [OF assms(1,2)] assms(1) by (simp_all add: serial_ok_def)
  obtain err ch where st: "start_command (ca_command args) (ca_type args) (ca_prefix args) (ca_pdu args) (sy_chan s) = (err, ch)"
    by fastforce
  note c = start_command_cases [OF idle st]
  have rc: "s_readerClosed ch = s_readerClosed (sy_chan s)" using c by (auto simp: writeline_def)
  have alone: "\<And>j u. thread_at j s = Some u \<Longrightarrow> is_active u \<Longrightarrow> j = i" using assms(3) by blast
  show ?thesis
  proof (cases "err < 0")
    case True
    have "serial_ok (cmd_return i args \<lparr>cr_err = err, cr_out = None, cr_chan = clearPendingCommand ch, cr_cbs = [], cr_rest = []\<rparr> s)"
      by (rule serial_ok_return [OF assms(1,2) alone])
        (use True a rc in \<open>auto simp: result_ok_def clearPendingCommand_def\<close>, simp add: idle_def)
    with True st show ?thesis by (simp add: cmd_enter_def)
  next
    case False
    have "owns args ch" using start_command_owns [OF idle st False] a by simp
    from serial_ok_check [OF assms(1,2) alone this rc] False st show ?thesis by (simp add: cmd_enter_def)
  qed
qed

lemma serial_ok_resume:
  assumes ok: "serial_ok s" and r: "at_exec (Resume i) s = Some r"
  shows "\<exists>s'. r = Inr s' \<and> serial_ok s'"
proof -
  from r consider (woken) args where "thread_at i s = Some (CmdWoken args)" "r = cmd_check i args s"
    | (expired) args where "thread_at i s = Some (CmdExpired args)" "r = Inr (cmd_expired i args s)"
    by (auto split: option.splits cmd_thread.splits)
  then show ?thesis
  proof cases
    case woken
    have "owns args (sy_chan s)" using serial_ok_thread [OF ok woken(1)] by simp
    from serial_ok_check [OF ok woken(1) active_unique [OF ok woken(1)] this] woken(2) show ?thesis by simp
  next
    case expired
    have "serial_ok (cmd_expired i args s)" unfolding cmd_expired_def
      by (rule serial_ok_return [OF ok expired(1) active_unique [OF ok expired(1)]])
        (use ok in \<open>simp_all add: serial_ok_def finish_command_def clearPendingCommand_def idle_def result_ok_def at_error_defs\<close>)
    with expired(2) show ?thesis by simp
  qed
qed

lemma serial_ok_stir:
  assumes "serial_ok s" "thread_at i s = Some (CmdWaiting args)" "is_active t"
    and "owns args (sy_chan s) \<Longrightarrow> thread_ok t (sy_chan s)"
  shows "serial_ok (set_thread i t s)"
proof -
  have "serial_ok ((set_thread i t s)\<lparr>sy_chan := sy_chan s, sy_cbs := sy_cbs s\<rparr>)"
    using serial_ok_thread [OF assms(1,2)] assms active_unique [OF assms(1,2)]
    by (intro serial_ok_update [OF assms(1,2)]) (auto simp: serial_ok_def)
  then show ?thesis by (simp add: set_thread_def)
qed

lemma serial_ok_step:
  assumes "serial_ok s" "serial_exec a s = Some r"
  shows "\<exists>s'. r = Inr s' \<and> serial_ok s'"
proof (cases a)
  case (Enter i)
  with assms obtain args where t: "thread_at i s = Some (CmdReady args)" "r = cmd_enter i args s"
    and "\<not> list_ex is_active (sy_threads s)" by (auto split: option.splits cmd_thread.splits)
  then have "\<And>j u. thread_at j s = Some u \<Longrightarrow> \<not> is_active u" by (auto simp: list_ex_threads)
  from serial_ok_enter [OF assms(1) t(1) this] t(2) show ?thesis by simp
next
  case (Resume i)
  with assms show ?thesis by (intro serial_ok_resume) auto
next
  case (Wake i)
  with assms obtain args where "thread_at i s = Some (CmdWaiting args)" "r = Inr (set_thread i (CmdWoken args) s)"
    by (auto split: option.splits cmd_thread.splits)
  with serial_ok_stir [OF assms(1)] show ?thesis by simp
next
  case (Expire i)
  with assms obtain args where "thread_at i s = Some (CmdWaiting args)" "ca_timeout args \<noteq> 0"
    "r = Inr (set_thread i (CmdExpired args) s)"
    by (auto split: option.splits cmd_thread.splits if_splits)
  with serial_ok_stir [OF assms(1)] show ?thesis by simp
next
  case (Read e who)
  with assms show ?thesis by (intro serial_ok_reader) (auto split: if_splits)
next
  case (Close who)
  with assms have "signal_if True who (s\<lparr>sy_chan := at_close (sy_chan s), sy_cbs := sy_cbs s\<rparr>) = Some r" by simp
  from serial_ok_env [OF assms(1) env_step_close this] show ?thesis .
qed

text \<open>The start: a channel at rest, and threads in front of their calls.\<close>

definition sys_start :: "at_sys \<Rightarrow> bool" where
  "sys_start s \<longleftrightarrow> chan_ok (sy_chan s) \<and> list_all (\<lambda>t. case t of CmdReady args \<Rightarrow> args_ok args | _ \<Rightarrow> False) (sy_threads s)"

lemma sys_start_thread: "sys_start s \<Longrightarrow> thread_at i s = Some t \<Longrightarrow> \<exists>args. t = CmdReady args \<and> args_ok args"
  by (auto simp: sys_start_def list_all_length thread_at_def split: if_splits cmd_thread.splits)
    (metis (no_types, lifting) cmd_thread.exhaust cmd_thread.simps)

interpretation serial: run_invariant serial_exec sys_start serial_ok
proof unfold_locales
  fix s assume s: "sys_start s"
  then have "idle (sy_chan s)" "0 \<le> s_readerClosed (sy_chan s)" by (auto simp: sys_start_def chan_ok_def)
  with sys_start_thread [OF s] show "serial_ok s" unfolding serial_ok_def by fastforce
next
  fix s a s' assume "serial_ok s" "serial_exec a s = Some (Inr s')"
  then show "serial_ok s'" using serial_ok_step by blast
qed

text \<open>What a finished command returns.\<close>

lemma finish_results:
  "cr_err (finish_command want t ch cbs rest) =
     (if t then AT_ERROR_TIMEOUT else if s_readerClosed ch > 0 then AT_ERROR_CHANNEL_CLOSED else 0)"
  "cr_out (finish_command want t ch cbs rest) =
     (if t \<or> \<not> want then None else map_option reverseIntermediates (sp_response ch))"
  "s_onTimeout (cr_chan (finish_command want t ch cbs rest)) = s_onTimeout ch"
  "cr_cbs (finish_command want t ch cbs rest) = cbs" "cr_rest (finish_command want t ch cbs rest) = rest"
  by (auto simp: finish_command_def clearPendingCommand_def)

section \<open>Properties\<close>

text \<open>
  C4 (safety). Commands one at a time, in any interleaving with the reader thread, spurious wake-ups,
  timeouts and closes: no piece of code faults; no wake-up is lost, that is, a thread on the
  condition variable has a response without final line and an open channel; and every command
  that has returned success has a complete response, of the shape its type promises.
\<close>

theorem serial_commands_safe:
  assumes "sys_start s" "run (guarded one_at_a_time at_exec) s as s'"
  shows "(\<nexists>a f. guarded one_at_a_time at_exec a s' = Some (Inl f)) \<and>
    (\<forall>i args. thread_at i s' = Some (CmdWaiting args) \<longrightarrow> s_readerClosed (sy_chan s') = 0 \<and>
       (\<exists>r. sp_response (sy_chan s') = Some r \<and> finalResponse r = None)) \<and>
    (\<forall>i args out. thread_at i s' = Some (CmdReturned args 0 out) \<and> ca_want args \<longrightarrow>
       (\<exists>r. out = Some r \<and> good_response (fits_type (ca_type args) (ca_prefix args)) r))"
proof -
  have ok: "serial_ok s'" by (rule serial.reachable [OF assms])
  have "\<nexists>a f. guarded one_at_a_time at_exec a s' = Some (Inl f)" using serial_ok_step [OF ok] by fastforce
  moreover have "s_readerClosed (sy_chan s') = 0 \<and> (\<exists>r. sp_response (sy_chan s') = Some r \<and> finalResponse r = None)"
    if "thread_at i s' = Some (CmdWaiting args)" for i args
    using serial_ok_thread [OF ok that] by (auto simp: owns_def waiting_ok_def wait_over_def)
  moreover have "\<exists>r. out = Some r \<and> good_response (fits_type (ca_type args) (ca_prefix args)) r"
    if "thread_at i s' = Some (CmdReturned args 0 out)" "ca_want args" for i args out
    using serial_ok_thread [OF ok that(1)] that(2) by (auto simp: result_ok_def)
  ultimately show ?thesis by blast
qed

text \<open>Two calls on a fresh channel, for the examples: a query of the registration and a plain command.\<close>

definition creg_call :: cmd_args where
  "creg_call = \<lparr>ca_command = ''AT+CREG?'', ca_type = SINGLELINE, ca_prefix = Some ''+CREG:'', ca_pdu = None,
     ca_timeout = 0, ca_want = True\<rparr>"

definition at_call :: cmd_args where
  "at_call = \<lparr>ca_command = ''AT'', ca_type = NO_RESULT, ca_prefix = None, ca_pdu = None,
     ca_timeout = 250, ca_want = False\<rparr>"

definition calls :: "cmd_args list \<Rightarrow> at_sys" where
  "calls as = \<lparr>sy_chan = fresh_chan, sy_threads = map CmdReady as, sy_cbs = []\<rparr>"

lemma calls_simps [simp]: "sy_chan (calls as) = fresh_chan" "sy_cbs (calls as) = []"
  by (simp_all add: calls_def)

lemma calls_start: "sys_start (calls [creg_call, at_call])" "sys_start (calls [creg_call, at_call, at_call])"
  by (simp_all add: sys_start_def calls_def fresh_chan_ok creg_call_def at_call_def args_ok_def)

theorem serial_commands_safe_witness:
  "\<exists>s'. run (guarded one_at_a_time at_exec) (calls [creg_call, at_call])
       [Enter 0, Read (Line ''+CREG: 0,1'') None, Wake 0, Resume 0, Read (Line ''OK'') (Some 0), Resume 0, Enter 1] s' \<and>
     sy_threads s' = [CmdReturned creg_call 0 (Some (answer [''+CREG: 0,1''] ''OK'')), CmdWaiting at_call] \<and>
     (\<nexists>a f. guarded one_at_a_time at_exec a s' = Some (Inl f)) \<and>
     good_response (fits_type SINGLELINE (Some ''+CREG:'')) (answer [''+CREG: 0,1''] ''OK'')"
proof -
  let ?as = "[Enter 0, Read (Line ''+CREG: 0,1'') None, Wake 0, Resume 0, Read (Line ''OK'') (Some 0), Resume 0, Enter 1]"
  let ?out = "CmdReturned creg_call 0 (Some (answer [''+CREG: 0,1''] ''OK''))"
  have "map_option sy_threads (execs (guarded one_at_a_time at_exec) ?as (calls [creg_call, at_call])) =
      Some [?out, CmdWaiting at_call]" by code_simp
  from run_view [OF this] obtain s' where r: "run (guarded one_at_a_time at_exec) (calls [creg_call, at_call]) ?as s'"
    and t: "sy_threads s' = [?out, CmdWaiting at_call]" by blast
  note p = serial_commands_safe [OF calls_start(1) r]
  have "thread_at 0 s' = Some ?out" using t by (simp add: thread_at_def)
  with p have "good_response (fits_type (ca_type creg_call) (ca_prefix creg_call)) (answer [''+CREG: 0,1''] ''OK'')"
    by (fastforce simp: creg_call_def)
  then have "good_response (fits_type SINGLELINE (Some ''+CREG:'')) (answer [''+CREG: 0,1''] ''OK'')"
    by (simp add: creg_call_def)
  with r t p show ?thesis by blast
qed

end
