(* ===== verification/AtOverlap.thy ===== *)
theory AtOverlap
  imports AtThreads
begin

text \<open>
  What happens when the commands of two threads overlap, which the mutex does not prevent, and when a
  line that looks final comes late.
\<close>

section \<open>Overlapping commands\<close>

text \<open>
  A thread inside the call whose pending command is gone. Only a new command gives the channel a
  response again.
\<close>

fun is_enter :: "at_act \<Rightarrow> bool" where
  "is_enter (Enter _) = True"
| "is_enter _ = False"

definition orphan :: "nat \<Rightarrow> cmd_args \<Rightarrow> at_sys \<Rightarrow> bool" where
  "orphan i args s \<longleftrightarrow> sp_response (sy_chan s) = None \<and>
     thread_at i s \<in> {Some (CmdWaiting args), Some (CmdWoken args), Some (CmdExpired args),
       Some (CmdReturned args AT_ERROR_TIMEOUT None)}"

lemma orphan_signal:
  assumes "orphan i args s" "signal_if b who s = Some (Inr s')"
  shows "orphan i args s'"
proof -
  from signal_if_cases [OF assms(2)] consider "s' = s"
    | j a where "thread_at j s = Some (CmdWaiting a)" "s' = set_thread j (CmdWoken a) s" by auto
  then show ?thesis using assms(1) by cases (auto simp: orphan_def split: if_splits)
qed

lemma orphan_chan: "orphan i args s \<Longrightarrow> sp_response ch = None \<Longrightarrow> orphan i args (s\<lparr>sy_chan := ch, sy_cbs := cbs\<rparr>)"
  by (simp add: orphan_def)

lemma reader_event_none:
  "sp_response ch = None \<Longrightarrow> \<exists>ch' cbs. reader_event e ch = Inr (ch', cbs) \<and> sp_response ch' = None"
  using processLine_none [of ch] by (auto simp: reader_event_def onReaderClosed_def split: cmd_event.splits)

lemma orphan_step:
  assumes "orphan i args s" "at_exec a s = Some (Inr s')" "\<not> is_enter a"
  shows "orphan i args s'"
proof (cases a)
  case (Resume j)
  with assms obtain ar where "thread_at j s = Some (CmdExpired ar)" "s' = cmd_expired j ar s"
    by (auto simp: orphan_def cmd_check_def c_simps split: option.splits cmd_thread.splits)
  with assms(1) show ?thesis
    by (auto simp: orphan_def cmd_expired_def finish_results finish_command_def clearPendingCommand_def split: if_splits)
next
  case (Read e who)
  from assms(1) obtain ch cbs where e: "reader_event e (sy_chan s) = Inr (ch, cbs)" "sp_response ch = None"
    using reader_event_none by (metis orphan_def)
  with Read assms(2) have "signal_if (reader_signals e (sy_chan s)) who (s\<lparr>sy_chan := ch, sy_cbs := sy_cbs s @ cbs\<rparr>) = Some (Inr s')"
    by (auto simp: reader_step_def split: if_splits)
  from orphan_signal [OF orphan_chan [OF assms(1) e(2)] this] show ?thesis .
next
  case (Close who)
  with assms(2) have "signal_if True who (s\<lparr>sy_chan := at_close (sy_chan s), sy_cbs := sy_cbs s\<rparr>) = Some (Inr s')" by simp
  moreover have "sp_response (at_close (sy_chan s)) = None" using assms(1) by (simp add: orphan_def at_close_def)
  ultimately show ?thesis using orphan_signal orphan_chan [OF assms(1)] by blast
qed (use assms in \<open>auto simp: orphan_def split: option.splits cmd_thread.splits if_splits\<close>)

lemma orphan_run: "run at_exec s as s' \<Longrightarrow> orphan i args s \<Longrightarrow> list_all (\<lambda>a. \<not> is_enter a) as \<Longrightarrow> orphan i args s'"
  by (induction rule: run.induct) (auto dest: orphan_step)

lemma orphan_resume: "orphan i args s \<Longrightarrow> thread_at i s = Some (CmdWoken args) \<Longrightarrow> at_exec (Resume i) s = Some (Inl NullDeref)"
  by (simp add: orphan_def cmd_check_def c_simps)

lemma enter_pending:
  assumes "thread_at j s = Some (CmdReady args)" "sp_response (sy_chan s) \<noteq> None"
  shows "at_exec (Enter j) s = Some (Inr (cmd_return j args
    \<lparr>cr_err = AT_ERROR_COMMAND_PENDING, cr_out = None, cr_chan = clearPendingCommand (sy_chan s), cr_cbs = [], cr_rest = []\<rparr> s))"
  using assms by (simp add: cmd_enter_def start_command_def at_error_defs)

lemma enter_orphans:
  assumes "thread_at i s = Some (CmdWaiting a1)" "thread_at j s = Some (CmdReady a2)" "sp_response (sy_chan s) \<noteq> None"
  shows "\<exists>s'. at_exec (Enter j) s = Some (Inr s') \<and> orphan i a1 s' \<and> thread_at i s' = Some (CmdWaiting a1) \<and>
    thread_at j s' = Some (CmdReturned a2 AT_ERROR_COMMAND_PENDING None)"
proof -
  have "j \<noteq> i" using assms by auto
  then show ?thesis using assms enter_pending [OF assms(2,3)]
    by (simp add: orphan_def clearPendingCommand_def)
qed

text \<open>A final line for the command that is pending, and the return of a thread with it.\<close>

lemma read_final:
  assumes "sp_response (sy_chan s) = Some r" "isFinalResponse f" "cond_signal who s = Some u"
  shows "at_exec (Read (Line f) who) s = Some (Inr (u\<lparr>sy_chan := (sy_chan s)\<lparr>sp_response :=
      Some (r\<lparr>success := (if isFinalResponseSuccess f then 1 else 0), finalResponse := Some f\<rparr>)\<rparr>\<rparr>))"
proof -
  let ?ch = "(sy_chan s)\<lparr>sp_response :=
      Some (r\<lparr>success := (if isFinalResponseSuccess f then 1 else 0), finalResponse := Some f\<rparr>)\<rparr>"
  have "processLine f (sy_chan s) = Inr (?ch, [])"
    using assms(1,2) by (auto simp: processLine_def isFinalResponse_def handleFinalResponse_def Let_def)
  moreover have "cond_signal who (s\<lparr>sy_chan := ?ch, sy_cbs := sy_cbs s @ []\<rparr>) = Some (u\<lparr>sy_chan := ?ch\<rparr>)"
    using assms(3) by (auto simp: cond_signal_def set_thread_def split: option.splits cmd_thread.splits if_splits)
  ultimately show ?thesis using assms(1,2)
    by (simp add: reader_step_def reader_event_def reader_signals_def signal_if_def)
qed

lemma resume_final:
  assumes "thread_at i s = Some (CmdWoken args)" "sp_response (sy_chan s) = Some r" "finalResponse r \<noteq> None"
  shows "at_exec (Resume i) s = Some (Inr (cmd_return i args (finish_command (ca_want args) False (sy_chan s) [] []) s))"
  using assms by (auto simp: cmd_check_def c_simps)

lemma enter_waits:
  assumes "thread_at k s = Some (CmdReady args)" "sp_response (sy_chan s) = None" "s_readerClosed (sy_chan s) = 0"
    and "0 \<le> s_fd (sy_chan s)" "wr_script (sy_chan s) = []"
  shows "at_exec (Enter k) s = Some (Inr (set_thread k (CmdWaiting args) (s\<lparr>sy_chan := (sy_chan s)
    \<lparr>wire := wire (sy_chan s) @ ca_command args @ [CR], s_type := ca_type args, s_responsePrefix := ca_prefix args,
     s_smsPDU := ca_pdu args, sp_response := Some at_response_new\<rparr>\<rparr>)))"
  using assms writeline_free [of "sy_chan s" "ca_command args"]
  by (simp add: cmd_enter_def start_command_def cmd_check_def c_simps at_response_new_def)

lemma signal_one: "thread_at i s = Some (CmdWaiting args) \<Longrightarrow> cond_signal (Some i) s = Some (set_thread i (CmdWoken args) s)"
  by (simp add: cond_signal_def)

lemma wake_orphan:
  assumes "thread_at k s = Some (CmdWaiting args)" "sp_response (sy_chan s) = None"
  shows "\<exists>u. run at_exec s [Wake k] u \<and> at_exec (Resume k) u = Some (Inl NullDeref)"
proof -
  let ?u = "set_thread k (CmdWoken args) s"
  have "at_exec (Wake k) s = Some (Inr ?u)" using assms(1) by simp
  moreover have "at_exec (Resume k) ?u = Some (Inl NullDeref)" using assms by (simp add: cmd_check_def c_simps)
  ultimately show ?thesis by (metis run_none run_step)
qed

lemma overlap_steals:
  assumes t: "thread_at i s = Some (CmdWaiting a1)" "thread_at j s = Some (CmdReady a2)" "thread_at k s = Some (CmdReady a3)"
    and "j \<noteq> k" "ca_want a1" "sp_response (sy_chan s) \<noteq> None" "isFinalResponse f"
    and ch: "s_readerClosed (sy_chan s) = 0" "0 \<le> s_fd (sy_chan s)" "wr_script (sy_chan s) = []"
  shows "\<exists>s'. run at_exec s [Enter j, Enter k, Read (Line f) (Some i), Resume i] s' \<and>
    thread_at i s' = Some (CmdReturned a1 0 (Some (answer [] f))) \<and>
    wire (sy_chan s') = wire (sy_chan s) @ ca_command a3 @ [CR] \<and>
    thread_at k s' = Some (CmdWaiting a3) \<and> sp_response (sy_chan s') = None"
proof -
  have d: "i \<noteq> j" "i \<noteq> k" using t by auto
  define s1 where "s1 = cmd_return j a2 \<lparr>cr_err = AT_ERROR_COMMAND_PENDING, cr_out = None,
    cr_chan = clearPendingCommand (sy_chan s), cr_cbs = [], cr_rest = []\<rparr> s"
  have e1: "at_exec (Enter j) s = Some (Inr s1)" unfolding s1_def using enter_pending [OF t(2) assms(6)] .
  have t1: "thread_at i s1 = Some (CmdWaiting a1)" "thread_at k s1 = Some (CmdReady a3)"
    using t d assms(4) by (simp_all add: s1_def)
  have c1: "sp_response (sy_chan s1) = None" "s_readerClosed (sy_chan s1) = 0" "0 \<le> s_fd (sy_chan s1)"
    "wr_script (sy_chan s1) = []" "wire (sy_chan s1) = wire (sy_chan s)"
    using ch by (simp_all add: s1_def clearPendingCommand_def)
  define s2 where "s2 = set_thread k (CmdWaiting a3) (s1\<lparr>sy_chan := (sy_chan s1)
    \<lparr>wire := wire (sy_chan s1) @ ca_command a3 @ [CR], s_type := ca_type a3, s_responsePrefix := ca_prefix a3,
     s_smsPDU := ca_pdu a3, sp_response := Some at_response_new\<rparr>\<rparr>)"
  have e2: "at_exec (Enter k) s1 = Some (Inr s2)" unfolding s2_def by (rule enter_waits [OF t1(2) c1(1-4)])
  have t2: "thread_at i s2 = Some (CmdWaiting a1)" "thread_at k s2 = Some (CmdWaiting a3)"
    using t1 d by (simp_all add: s2_def)
  define s3 where "s3 = (set_thread i (CmdWoken a1) s2)\<lparr>sy_chan := (sy_chan s2)\<lparr>sp_response := Some (answer [] f)\<rparr>\<rparr>"
  have "sp_response (sy_chan s2) = Some at_response_new" by (simp add: s2_def)
  from read_final [OF this assms(7) signal_one [OF t2(1)]]
  have e3: "at_exec (Read (Line f) (Some i)) s2 = Some (Inr s3)"
    by (simp add: s3_def answer_def at_response_new_def)
  have t3: "thread_at i s3 = Some (CmdWoken a1)" "thread_at k s3 = Some (CmdWaiting a3)"
    "sp_response (sy_chan s3) = Some (answer [] f)" using t2 d by (simp_all add: s3_def)
  define s4 where "s4 = cmd_return i a1 (finish_command (ca_want a1) False (sy_chan s3) [] []) s3"
  have e4: "at_exec (Resume i) s3 = Some (Inr s4)"
    unfolding s4_def using resume_final [OF t3(1,3)] by (simp add: answer_def)
  have "run at_exec s [Enter j, Enter k, Read (Line f) (Some i), Resume i] s4"
    by (simp only: run_execs [symmetric] execs.simps e1 e2 e3 e4 option.case sum.case)
  moreover have "reverseIntermediates (answer [] f) = answer [] f"
    by (simp add: reverseIntermediates_def answer_def)
  ultimately show ?thesis using t3 d c1 assms(5)
    by (intro exI [of _ s4]) (simp add: s4_def finish_command_def clearPendingCommand_def, simp add: s3_def s2_def)
qed

section \<open>Properties\<close>

text \<open>
  C35 (error). A second command while one waits: it returns \<^verbatim>\<open>AT_ERROR_COMMAND_PENDING\<close>, but on its way
  out it clears the pending command of the other thread. From then on, whatever the reader thread
  and the scheduler do, and until a further command is sent, the first call cannot return but by a
  timeout of its own: it waits, or it wakes up and follows the null pointer \<^verbatim>\<open>sp_response\<close>.
\<close>

theorem overlapping_command_orphans:
  assumes "thread_at i s = Some (CmdWaiting a1)" "thread_at j s = Some (CmdReady a2)" "sp_response (sy_chan s) \<noteq> None"
  shows "\<exists>s'. at_exec (Enter j) s = Some (Inr s') \<and>
    thread_at j s' = Some (CmdReturned a2 AT_ERROR_COMMAND_PENDING None) \<and>
    (\<exists>u. run at_exec s' [Wake i] u \<and> at_exec (Resume i) u = Some (Inl NullDeref)) \<and>
    (\<forall>as u. run at_exec s' as u \<and> list_all (\<lambda>a. \<not> is_enter a) as \<longrightarrow>
       thread_at i u \<in> {Some (CmdWaiting a1), Some (CmdWoken a1), Some (CmdExpired a1), Some (CmdReturned a1 AT_ERROR_TIMEOUT None)} \<and>
       (thread_at i u = Some (CmdWoken a1) \<longrightarrow> at_exec (Resume i) u = Some (Inl NullDeref)))"
proof -
  from enter_orphans [OF assms] obtain s' where e: "at_exec (Enter j) s = Some (Inr s')" and o: "orphan i a1 s'"
    and t: "thread_at i s' = Some (CmdWaiting a1)" "thread_at j s' = Some (CmdReturned a2 AT_ERROR_COMMAND_PENDING None)"
    by blast
  have "orphan i a1 u" if "run at_exec s' as u" "list_all (\<lambda>a. \<not> is_enter a) as" for as u
    using orphan_run [OF that(1) o that(2)] .
  moreover have "\<exists>u. run at_exec s' [Wake i] u \<and> at_exec (Resume i) u = Some (Inl NullDeref)"
    using o by (intro wake_orphan [OF t(1)]) (simp add: orphan_def)
  ultimately show ?thesis using e t(2) orphan_resume unfolding orphan_def by blast
qed

theorem overlapping_command_orphans_witness:
  "\<exists>s s'. run (guarded one_at_a_time at_exec) (calls [creg_call, at_call]) [Enter 0] s \<and>
     at_exec (Enter 1) s = Some (Inr s') \<and> thread_at 1 s' = Some (CmdReturned at_call AT_ERROR_COMMAND_PENDING None) \<and>
     (\<exists>u. run at_exec s' [Wake 0] u \<and> at_exec (Resume 0) u = Some (Inl NullDeref))"
proof -
  have "map_option (\<lambda>s. (sy_threads s, sp_response (sy_chan s)))
      (execs (guarded one_at_a_time at_exec) [Enter 0] (calls [creg_call, at_call])) =
      Some ([CmdWaiting creg_call, CmdReady at_call], Some at_response_new)" by code_simp
  from run_view [OF this] obtain s where r: "run (guarded one_at_a_time at_exec) (calls [creg_call, at_call]) [Enter 0] s"
    and t: "sy_threads s = [CmdWaiting creg_call, CmdReady at_call]" "sp_response (sy_chan s) = Some at_response_new"
    by auto
  have "thread_at 0 s = Some (CmdWaiting creg_call)" "thread_at 1 s = Some (CmdReady at_call)" "sp_response (sy_chan s) \<noteq> None"
    using t by (simp_all add: thread_at_def)
  from overlapping_command_orphans [OF this] r show ?thesis by blast
qed

text \<open>
  C36 (error). When, after such an overlap, a further command is sent, its final response may wake the
  wrong thread: the first call returns success with the response to the other thread's command, and
  the call that did send the command is left without its response; its next wake-up follows the
  null pointer.
\<close>

theorem overlapping_command_steals:
  assumes "thread_at i s = Some (CmdWaiting a1)" "thread_at j s = Some (CmdReady a2)" "thread_at k s = Some (CmdReady a3)"
    and "j \<noteq> k" "ca_want a1" "sp_response (sy_chan s) \<noteq> None" "isFinalResponse f"
    and "s_readerClosed (sy_chan s) = 0" "0 \<le> s_fd (sy_chan s)" "wr_script (sy_chan s) = []"
  shows "\<exists>s'. run at_exec s [Enter j, Enter k, Read (Line f) (Some i), Resume i] s' \<and>
    thread_at i s' = Some (CmdReturned a1 0 (Some (answer [] f))) \<and>
    wire (sy_chan s') = wire (sy_chan s) @ ca_command a3 @ [CR] \<and>
    (\<exists>u. run at_exec s' [Wake k] u \<and> at_exec (Resume k) u = Some (Inl NullDeref))"
proof -
  from overlap_steals [OF assms] obtain s' where
    s': "run at_exec s [Enter j, Enter k, Read (Line f) (Some i), Resume i] s'"
      "thread_at i s' = Some (CmdReturned a1 0 (Some (answer [] f)))"
      "wire (sy_chan s') = wire (sy_chan s) @ ca_command a3 @ [CR]"
    and k: "thread_at k s' = Some (CmdWaiting a3)" "sp_response (sy_chan s') = None" by blast
  with wake_orphan [OF k] show ?thesis by blast
qed

theorem overlapping_command_steals_witness:
  "\<exists>s s'. run (guarded one_at_a_time at_exec) (calls [creg_call, at_call, at_call]) [Enter 0] s \<and>
     run at_exec s [Enter 1, Enter 2, Read (Line ''OK'') (Some 0), Resume 0] s' \<and>
     thread_at 0 s' = Some (CmdReturned creg_call 0 (Some (answer [] ''OK''))) \<and>
     wire (sy_chan s') = ''AT+CREG?'' @ [CR] @ ''AT'' @ [CR] \<and>
     (\<exists>u. run at_exec s' [Wake 2] u \<and> at_exec (Resume 2) u = Some (Inl NullDeref))"
proof -
  have "map_option (\<lambda>s. (sy_threads s, sp_response (sy_chan s), s_readerClosed (sy_chan s), s_fd (sy_chan s),
        wr_script (sy_chan s), wire (sy_chan s)))
      (execs (guarded one_at_a_time at_exec) [Enter 0] (calls [creg_call, at_call, at_call])) =
      Some ([CmdWaiting creg_call, CmdReady at_call, CmdReady at_call], Some at_response_new, 0, 3, [],
        ''AT+CREG?'' @ [CR])" by code_simp
  from run_view [OF this] obtain s where
    r: "run (guarded one_at_a_time at_exec) (calls [creg_call, at_call, at_call]) [Enter 0] s"
    and t: "sy_threads s = [CmdWaiting creg_call, CmdReady at_call, CmdReady at_call]"
    and c: "sp_response (sy_chan s) = Some at_response_new" "s_readerClosed (sy_chan s) = 0" "s_fd (sy_chan s) = 3"
      "wr_script (sy_chan s) = []" "wire (sy_chan s) = ''AT+CREG?'' @ [CR]" by auto
  have th: "thread_at 0 s = Some (CmdWaiting creg_call)" "thread_at 1 s = Some (CmdReady at_call)"
    "thread_at 2 s = Some (CmdReady at_call)" using t by (simp_all add: thread_at_def)
  have f: "isFinalResponse ''OK''" by code_simp
  have "(1::nat) \<noteq> 2" "ca_want creg_call" "sp_response (sy_chan s) \<noteq> None" "0 \<le> s_fd (sy_chan s)"
    using c by (simp_all add: creg_call_def)
  from overlapping_command_steals [OF th this(1,2,3) f c(2) this(4) c(4)] c(5) obtain s' where
    "run at_exec s [Enter 1, Enter 2, Read (Line ''OK'') (Some 0), Resume 0] s'"
    "thread_at 0 s' = Some (CmdReturned creg_call 0 (Some (answer [] ''OK'')))"
    "wire (sy_chan s') = ''AT+CREG?'' @ [CR] @ ''AT'' @ [CR]"
    "\<exists>u. run at_exec s' [Wake 2] u \<and> at_exec (Resume 2) u = Some (Inl NullDeref)"
    by (auto simp: at_call_def)
  with r show ?thesis by blast
qed

text \<open>
  C37 (error). A line that looks final and arrives after the final response, but before the command's
  thread has the mutex again, replaces the result: the call returns the later line, which was no
  answer to the command.
\<close>

theorem late_line_replaces_result:
  assumes "serial_ok s" "thread_at i s = Some (CmdWaiting args)" "sp_response (sy_chan s) = Some r" "ca_want args"
    and "isFinalResponse f" "isFinalResponse g"
  shows "\<exists>s' u. run at_exec s [Read (Line f) (Some i), Resume i] s' \<and>
    thread_at i s' = Some (CmdReturned args 0 (Some (answer (rev (p_intermediates r)) f))) \<and>
    run at_exec s [Read (Line f) (Some i), Read (Line g) None, Resume i] u \<and>
    thread_at i u = Some (CmdReturned args 0 (Some (answer (rev (p_intermediates r)) g)))"
proof -
  let ?got = "\<lambda>l r. r\<lparr>success := (if isFinalResponseSuccess l then 1 else 0), finalResponse := Some l\<rparr>"
  let ?s = "\<lambda>l. (set_thread i (CmdWoken args) s)\<lparr>sy_chan := (sy_chan s)\<lparr>sp_response := Some (?got l r)\<rparr>\<rparr>"
  let ?ret = "\<lambda>l. cmd_return i args (finish_command (ca_want args) False (sy_chan (?s l)) [] []) (?s l)"
  have o: "s_readerClosed (sy_chan s) = 0" using serial_ok_thread [OF assms(1,2)] assms(3)
    by (auto simp: wait_over_def)
  have e: "at_exec (Read (Line f) (Some i)) s = Some (Inr (?s f))"
    using read_final [OF assms(3,5) signal_one [OF assms(2)]] .
  have none: "\<not> list_ex is_waiting (sy_threads (?s f))"
  proof -
    have "\<not> is_waiting t" if "thread_at j (?s f) = Some t" for j t
      using that assms(2) active_unique [OF assms(1,2), of j t] by (cases t) (auto split: if_splits)
    then show ?thesis by (auto simp: list_ex_threads)
  qed
  then have "cond_signal None (?s f) = Some (?s f)" by (simp add: cond_signal_def)
  from read_final [OF _ assms(6) this] have g: "at_exec (Read (Line g) None) (?s f) = Some (Inr (?s g))" by simp
  have ret: "at_exec (Resume i) (?s l) = Some (Inr (?ret l))" for l
    using resume_final [of i "?s l" args "?got l r"] assms(2) by simp
  have out: "thread_at i (?ret l) = Some (CmdReturned args 0 (Some (answer (rev (p_intermediates r)) l)))" for l
    using assms(2,4) o by (simp add: finish_command_def reverseIntermediates_def reverse_onto_rev answer_def)
  have "run at_exec s [Read (Line f) (Some i), Resume i] (?ret f)"
    "run at_exec s [Read (Line f) (Some i), Read (Line g) None, Resume i] (?ret g)"
    by (simp_all only: run_execs [symmetric] execs.simps e g ret option.case sum.case)
  with out show ?thesis by blast
qed

theorem late_line_replaces_result_witness:
  "\<exists>u. run at_exec (calls [creg_call, at_call]) [Enter 0, Read (Line ''+CREG: 0,1'') None,
       Read (Line ''OK'') (Some 0), Read (Line ''NO CARRIER'') None, Resume 0] u \<and>
     thread_at 0 u = Some (CmdReturned creg_call 0 (Some (answer [''+CREG: 0,1''] ''NO CARRIER'')))"
proof -
  let ?as = "[Enter 0, Read (Line ''+CREG: 0,1'') None]"
  let ?r = "addIntermediate ''+CREG: 0,1'' at_response_new"
  have "map_option (\<lambda>s. (sy_threads s, sp_response (sy_chan s)))
      (execs (guarded one_at_a_time at_exec) ?as (calls [creg_call, at_call])) =
      Some ([CmdWaiting creg_call, CmdReady at_call], Some ?r)" by code_simp
  from run_view [OF this] obtain s where
    r: "run (guarded one_at_a_time at_exec) (calls [creg_call, at_call]) ?as s"
    and t: "sy_threads s = [CmdWaiting creg_call, CmdReady at_call]" "sp_response (sy_chan s) = Some ?r" by auto
  have th: "thread_at 0 s = Some (CmdWaiting creg_call)" using t by (simp add: thread_at_def)
  have f: "isFinalResponse ''OK''" "isFinalResponse ''NO CARRIER''" by code_simp+
  have w: "ca_want creg_call" by (simp add: creg_call_def)
  from late_line_replaces_result [OF serial.reachable [OF calls_start(1) r] th t(2) w f] obtain u where
    "run at_exec s [Read (Line ''OK'') (Some 0), Read (Line ''NO CARRIER'') None, Resume 0] u"
    "thread_at 0 u = Some (CmdReturned creg_call 0 (Some (answer [''+CREG: 0,1''] ''NO CARRIER'')))"
    by (auto simp: addIntermediate_def at_response_new_def)
  with run_append [OF run_guarded [OF r]] show ?thesis by fastforce
qed

end
