(* ===== verification/RilTypes.thy ===== *)
theory RilTypes
  imports AtCommands
begin

text \<open>
  The state the driver's files share: the session context of \<^verbatim>\<open>fw100-ril.h\<close>, the calls
  into Android's RIL library, and the \<open>world\<close> a handler runs in. Names of enumerations that
  come from Android's \<^verbatim>\<open>ril.h\<close> are constructors: the code only compares them and passes
  them on.

  An action is a function from the world to a result and the new world, or a fault. A call of the
  operating system is recorded in \<open>os_calls\<close> and answered by the next element of \<open>os_rets\<close>;
  a command to the modem meets the next element of \<open>modem\<close>, the events from its start until
  the next command is sent.
\<close>

section \<open>Enumerations of the RIL interface\<close>

datatype radio_state =
    RADIO_STATE_OFF | RADIO_STATE_UNAVAILABLE | RADIO_STATE_SIM_NOT_READY
  | RADIO_STATE_SIM_LOCKED_OR_ABSENT | RADIO_STATE_SIM_READY

datatype ril_errno =
    RIL_E_SUCCESS | RIL_E_RADIO_NOT_AVAILABLE | RIL_E_GENERIC_FAILURE | RIL_E_PASSWORD_INCORRECT
  | RIL_E_REQUEST_NOT_SUPPORTED

datatype ril_unsol =
    RIL_UNSOL_RESPONSE_RADIO_STATE_CHANGED | RIL_UNSOL_RESPONSE_NETWORK_STATE_CHANGED
  | RIL_UNSOL_NITZ_TIME_RECEIVED | RIL_UNSOL_RESPONSE_NEW_SMS
  | RIL_UNSOL_RESPONSE_NEW_SMS_STATUS_REPORT | RIL_UNSOL_SIGNAL_STRENGTH
  | RIL_UNSOL_DATA_CALL_LIST_CHANGED

datatype call_state =
    RIL_CALL_ACTIVE | RIL_CALL_HOLDING | RIL_CALL_DIALING | RIL_CALL_ALERTING
  | RIL_CALL_INCOMING | RIL_CALL_WAITING

record RIL_Call =
  c_state :: call_state
  c_index :: int
  c_toa :: int
  c_isMpty :: int
  c_isMT :: int
  c_isVoice :: bool
  c_number :: "string option"

record RIL_Data_Call_Response =
  dc_cid :: int
  dc_active :: int
  dc_type :: "string option"
  dc_apn :: "string option"
  dc_address :: "string option"

datatype SIM_Status =
    SIM_ABSENT | SIM_NOT_READY | SIM_READY | SIM_PIN | SIM_PUK | SIM_NETWORK_PERSONALIZATION

text \<open>
  The card status of \<^verbatim>\<open>ril.h\<close>. The index \<^verbatim>\<open>RIL_CARD_MAX_APPS\<close> stands for no
  application and is \<open>None\<close>; of the array of applications the first entry and the value of all
  the others are kept.
\<close>

datatype RIL_CardState = RIL_CARDSTATE_ABSENT | RIL_CARDSTATE_PRESENT

datatype RIL_AppType = RIL_APPTYPE_UNKNOWN | RIL_APPTYPE_SIM

datatype RIL_AppState =
    RIL_APPSTATE_UNKNOWN | RIL_APPSTATE_DETECTED | RIL_APPSTATE_PIN | RIL_APPSTATE_PUK
  | RIL_APPSTATE_SUBSCRIPTION_PERSO | RIL_APPSTATE_READY

datatype RIL_PersoSubstate =
    RIL_PERSOSUBSTATE_UNKNOWN | RIL_PERSOSUBSTATE_READY | RIL_PERSOSUBSTATE_SIM_NETWORK

datatype RIL_PinState =
    RIL_PINSTATE_UNKNOWN | RIL_PINSTATE_ENABLED_NOT_VERIFIED | RIL_PINSTATE_ENABLED_BLOCKED

record RIL_AppStatus =
  app_type :: RIL_AppType
  app_state :: RIL_AppState
  perso_substate :: RIL_PersoSubstate
  aid_ptr :: "string option"
  app_label_ptr :: "string option"
  pin1_replaced :: int
  pin1 :: RIL_PinState
  pin2 :: RIL_PinState

record RIL_CardStatus =
  card_state :: RIL_CardState
  universal_pin_state :: RIL_PinState
  gsm_umts_subscription_app_index :: "nat option"
  cdma_subscription_app_index :: "nat option"
  num_applications :: nat
  first_application :: RIL_AppStatus
  other_applications :: RIL_AppStatus

text \<open>
  The data of a request, \<^verbatim>\<open>void *data\<close> with its length: integers, string pointers, a text, or
  one of the argument structures of \<^verbatim>\<open>ril.h\<close>.
\<close>

datatype rdata =
    DNull
  | DInts "int list"
  | DStrs "string option list"
  | DText string
  | DDial string int                                       \<comment> \<open>\<^verbatim>\<open>address, clir\<close>\<close>
  | DSmsWrite string int                                   \<comment> \<open>\<^verbatim>\<open>pdu, status\<close>\<close>
  | DSimIO int int int int int "string option"  \<comment> \<open>\<^verbatim>\<open>command, fileid, p1, p2, p3, data\<close>\<close>

text \<open>What a response or an indication carries; \<open>PEcho\<close> is the data of the request itself.\<close>

datatype payload =
    PNull
  | PInts "int list"
  | PStr string
  | PStrs "string option list"
  | PCalls "RIL_Call list"
  | PDataCall RIL_Data_Call_Response
  | PSimIO int int "string option"
  | PSms
  | PCard RIL_CardStatus
  | PEcho rdata

type_synonym token = nat

datatype ril_out =
    Complete token ril_errno payload
  | Unsol ril_unsol payload
  | TimedCallback string int

definition data_int :: "rdata \<Rightarrow> int c_result" where
  "data_int d = (case d of DInts (i # _) \<Rightarrow> Inr i | _ \<Rightarrow> Inl NullDeref)"

text \<open>The same behind \<^verbatim>\<open>assert (datalen >= sizeof(int *))\<close>.\<close>

definition asserted_int :: "rdata \<Rightarrow> int c_result" where
  "asserted_int d = (if d = DNull \<or> d = DInts [] \<or> d = DStrs [] then Inl AssertFail else data_int d)"

lemma asserted_int_ok: "data_int d = Inr i \<Longrightarrow> asserted_int d = Inr i"
  by (auto simp: asserted_int_def data_int_def)

definition data_str :: "rdata \<Rightarrow> nat \<Rightarrow> string option c_result" where
  "data_str d i = (case d of
       DStrs ss \<Rightarrow> if i < length ss then Inr (ss ! i) else Inl OutOfBounds
     | _ \<Rightarrow> Inl NullDeref)"

section \<open>The session context\<close>

record fw100SessionCtx =
  mainIsStarted :: int
  s_atctrl_path :: "string option"
  s_data_path :: "string option"
  s_data_devname :: string
  s_device_socket :: int
  sState :: radio_state
  s_port :: int
  s_closed :: int
  networkSelectMode :: int
  screenState :: int
  inDataCall :: int
  dataCallIsAutomatic :: int
  dataCallLocalIP :: string    \<comment> \<open>\<^verbatim>\<open>char dataCallLocalIP[64]\<close>, up to its terminator\<close>
  dataCallGateway :: string    \<comment> \<open>\<^verbatim>\<open>char dataCallGateway[64]\<close>, up to its terminator\<close>
  gpsFifoEnable :: bool
  gpsFifoFD :: int
  gpsTtyEnable :: bool
  gpsTtyFD :: int
  ctx_meid :: "char list"      \<comment> \<open>\<^verbatim>\<open>char meid[32]\<close>\<close>
  ctx_mdn :: "char list"       \<comment> \<open>\<^verbatim>\<open>char mdn[32]\<close>\<close>
  ctx_carrier :: "char list"   \<comment> \<open>\<^verbatim>\<open>char carrier[16]\<close>\<close>
  otaMsgCnt :: int
  otaMsg :: "char list"        \<comment> \<open>\<^verbatim>\<open>char otaMsg[64]\<close>\<close>
  moduleAutoActivate :: int
  moduleIsActivated :: int
  moduleActivateRetry :: int

definition SCREEN_IS_OFF :: int where "SCREEN_IS_OFF = 0"
definition SCREEN_IS_ON :: int where "SCREEN_IS_ON = 1"
definition DATA_STATE_DISCONNECTED :: int where "DATA_STATE_DISCONNECTED = 0"
definition DATA_STATE_CONNECTED :: int where "DATA_STATE_CONNECTED = 1"
definition MAX_AUTO_ACTIVATE_RETRY :: int where "MAX_AUTO_ACTIVATE_RETRY = 6"

section \<open>The world\<close>

datatype os_call =
    SysMkfifo string | SysOpen string | SysWrite int string | SysClose int
  | SysGetpt | SysGrantpt int | SysUnlockpt int | SysChmod int | SysPropertySet string
  | SysSystem string | SysSleep nat | SysKill int | SysStatusFile string
  | SysSocket string | SysErrnoEAGAIN | SysErrno | SysStrerror | SysTcsetattr int | SysRead int nat
  | SysIfcInit | SysIfcInfo string | SysDefaultRoute string | SysPropertyGet string | SysReadProc

text \<open>
  Answers: an integer, a string, the result of \<^verbatim>\<open>ifc_get_info\<close> (return code, address,
  netmask, flags), or the entries of \<^verbatim>\<open>/proc\<close> with the first line of each status file.
\<close>

datatype os_ret =
    RInt int | RStr string | RIfc int nat nat nat | RProcs "(string \<times> string option) list"

record world =
  ctx :: fw100SessionCtx
  chan :: at_chan
  modem :: "cmd_event list list"
  ril :: "ril_out list"
  os_rets :: "os_ret list"
  os_calls :: "os_call list"
  pollSavedCREG :: "char list"   \<comment> \<open>\<^verbatim>\<open>static char pollSavedCREG[64]\<close>\<close>
  pollSavedCSQ :: "char list"    \<comment> \<open>\<^verbatim>\<open>static char pollSavedCSQ[64]\<close>\<close>

type_synonym 'a act = "world \<Rightarrow> ('a \<times> world) c_result"

definition ret :: "'a \<Rightarrow> 'a act" where
  "ret x w = Inr (x, w)"

definition fault :: "c_fault \<Rightarrow> 'a act" where
  "fault f w = Inl f"

definition bind_act :: "'a act \<Rightarrow> ('a \<Rightarrow> 'b act) \<Rightarrow> 'b act" where
  "bind_act m f w = and_then (m w) (\<lambda>(x, w'). f x w')"

definition seq_act :: "'a act \<Rightarrow> 'b act \<Rightarrow> 'b act" where
  "seq_act m n = bind_act m (\<lambda>_. n)"

text \<open>Go on with a value, or leave with \<open>None\<close>: the code's \<^verbatim>\<open>goto error\<close>.\<close>

definition or_error :: "'a option act \<Rightarrow> ('a \<Rightarrow> 'b option act) \<Rightarrow> 'b option act" where
  "or_error m f = bind_act m (\<lambda>r. case r of None \<Rightarrow> ret None | Some x \<Rightarrow> f x)"

definition of_result :: "'a c_result \<Rightarrow> 'a act" where
  "of_result r w = and_then r (\<lambda>x. Inr (x, w))"

definition upd :: "(world \<Rightarrow> world) \<Rightarrow> unit act" where
  "upd f w = Inr ((), f w)"

definition upd_ctx :: "(fw100SessionCtx \<Rightarrow> fw100SessionCtx) \<Rightarrow> unit act" where
  "upd_ctx f w = Inr ((), w\<lparr>ctx := f (ctx w)\<rparr>)"

definition get_ctx :: "fw100SessionCtx act" where
  "get_ctx w = Inr (ctx w, w)"

definition RIL_onRequestComplete :: "token \<Rightarrow> ril_errno \<Rightarrow> payload \<Rightarrow> unit act" where
  "RIL_onRequestComplete t e p w = Inr ((), w\<lparr>ril := ril w @ [Complete t e p]\<rparr>)"

definition RIL_onUnsolicitedResponse :: "ril_unsol \<Rightarrow> payload \<Rightarrow> unit act" where
  "RIL_onUnsolicitedResponse u p w = Inr ((), w\<lparr>ril := ril w @ [Unsol u p]\<rparr>)"

definition sys :: "os_call \<Rightarrow> os_ret act" where
  "sys c w = (case os_rets w of
       [] \<Rightarrow> Inr (RInt (-1), w\<lparr>os_calls := os_calls w @ [c]\<rparr>)
     | r # rs \<Rightarrow> Inr (r, w\<lparr>os_calls := os_calls w @ [c], os_rets := rs\<rparr>))"

text \<open>A call that returns an integer; an answer of another kind counts as failure.\<close>

definition sys_int :: "os_call \<Rightarrow> int act" where
  "sys_int c = bind_act (sys c) (\<lambda>r. ret (case r of RInt i \<Rightarrow> i | _ \<Rightarrow> -1))"

text \<open>A call that stores a string; without one the caller's default stays.\<close>

definition sys_str :: "os_call \<Rightarrow> string \<Rightarrow> string act" where
  "sys_str c def = bind_act (sys c) (\<lambda>r. ret (case r of RStr s \<Rightarrow> s | _ \<Rightarrow> def))"

section \<open>Rules for actions\<close>

lemma ret_simp [simp]: "ret x w = Inr (x, w)"
  by (simp add: ret_def)

lemma upd_simps [simp]:
  "upd f w = Inr ((), f w)" "upd_ctx g w = Inr ((), w\<lparr>ctx := g (ctx w)\<rparr>)"
  "get_ctx w = Inr (ctx w, w)" "fault e w = Inl e"
  by (simp_all add: upd_def upd_ctx_def get_ctx_def fault_def)

lemma of_result_simps [simp]:
  "of_result (Inr x) w = Inr (x, w)" "of_result (Inl f) w = Inl f"
  by (simp_all add: of_result_def)

lemma bind_act_Inr_iff [c_simps]:
  "bind_act m f w = Inr r \<longleftrightarrow> (\<exists>x w'. m w = Inr (x, w') \<and> f x w' = Inr r)"
  by (auto simp: bind_act_def c_simps)

lemma bind_act_Inl_iff [c_simps]:
  "bind_act m f w = Inl e \<longleftrightarrow> m w = Inl e \<or> (\<exists>x w'. m w = Inr (x, w') \<and> f x w' = Inl e)"
  by (auto simp: bind_act_def c_simps)

lemma bind_act_eval: "m w = Inr (x, w') \<Longrightarrow> bind_act m f w = f x w'"
  by (simp add: bind_act_def)

end
