(* ===== verification/RilGps.thy ===== *)
theory RilGps
  imports RilTypes
begin

text \<open>
  \<^verbatim>\<open>fwril-100/fw100-ril-gps.c\<close>: the NMEA sentences of the modem are written to a named pipe
  or to a pseudo terminal. The file descriptor in the session context is opened at the first use
  and closed after a failed write, so that the next sentence opens it again.
\<close>

section \<open>The operations\<close>

definition rilWriteGPSFifo :: "string \<Rightarrow> string \<Rightarrow> int act" where
  "rilWriteGPSFifo file gpsinfo =
     bind_act get_ctx (\<lambda>c.
     bind_act
       (if gpsFifoFD c \<le> 0
        then bind_act (sys_int (SysMkfifo file)) (\<lambda>rc.
             bind_act (sys_int (SysOpen file)) (\<lambda>fd.
             seq_act (upd_ctx (\<lambda>c. c\<lparr>gpsFifoFD := fd\<rparr>)) (ret (rc, fd \<le> 0))))
        else ret (0, False)) (\<lambda>(rc, failed).
     if failed then ret rc
     else
       bind_act get_ctx (\<lambda>c.
       bind_act (sys_int (SysWrite (gpsFifoFD c) gpsinfo)) (\<lambda>numw.
       seq_act (sys_int (SysWrite (gpsFifoFD c) [LF]))
         (if numw < 0
          then seq_act (sys_int (SysClose (gpsFifoFD c)))
                 (seq_act (upd_ctx (\<lambda>c. c\<lparr>gpsFifoFD := 0\<rparr>)) (ret (-1)))
          else ret rc)))))"

text \<open>
  Opening the pseudo terminal: \<open>None\<close> when a step fails, which leaves the function. The name of
  the slave device is only passed on to \<^verbatim>\<open>chmod\<close> and \<^verbatim>\<open>property_set\<close>.
\<close>

definition openGPSTty :: "(int \<times> bool) act" where
  "openGPSTty =
     bind_act (sys_int SysGetpt) (\<lambda>mfd.
     if mfd = -1 then ret (0, False)
     else bind_act (sys_int (SysGrantpt mfd)) (\<lambda>rc.
     if rc = -1 then ret (rc, False)
     else bind_act (sys_int (SysUnlockpt mfd)) (\<lambda>rc.
     if rc = -1 then ret (rc, False)
     else seq_act (sys_int (SysChmod mfd))
         (bind_act (sys_int (SysPropertySet ''ril.gps.port'')) (\<lambda>rc.
          seq_act (upd_ctx (\<lambda>c. c\<lparr>gpsTtyFD := mfd\<rparr>)) (ret (rc, True)))))))"

definition rilWriteGPSTty :: "string option \<Rightarrow> int \<Rightarrow> int act" where
  "rilWriteGPSTty gpsinfo options =
     bind_act get_ctx (\<lambda>c.
     bind_act
       (if gpsTtyFD c \<le> 0
        then bind_act openGPSTty (\<lambda>(rc, opened). ret (rc, opened \<and> options = 0))
        else ret (0, True)) (\<lambda>(rc, go_on).
     if \<not> go_on then ret rc
     else
       bind_act get_ctx (\<lambda>c.
       bind_act (of_result (deref gpsinfo)) (\<lambda>s.
       bind_act (sys_int (SysWrite (gpsTtyFD c) s)) (\<lambda>numw.
       seq_act (sys_int (SysWrite (gpsTtyFD c) [LF]))
         (if numw < 0
          then seq_act (sys_int (SysClose (gpsTtyFD c)))
                 (seq_act (upd_ctx (\<lambda>c. c\<lparr>gpsTtyFD := 0\<rparr>)) (ret (-1)))
          else ret rc))))))"

section \<open>What GPS output touches\<close>

text \<open>
  \<open>gps_only w w'\<close>: the two worlds differ in the two descriptors and the system calls only.
\<close>

definition gps_blank :: "world \<Rightarrow> world" where
  "gps_blank w = w\<lparr>ctx := (ctx w)\<lparr>gpsFifoFD := 0, gpsTtyFD := 0\<rparr>, os_rets := [], os_calls := []\<rparr>"

definition gps_only :: "world \<Rightarrow> world \<Rightarrow> bool" where
  "gps_only w w' \<longleftrightarrow> gps_blank w' = gps_blank w"

lemma gps_only_refl [simp, intro]: "gps_only w w"
  by (simp add: gps_only_def)

lemma gps_only_trans [trans]: "gps_only w w' \<Longrightarrow> gps_only w' w'' \<Longrightarrow> gps_only w w''"
  by (simp add: gps_only_def)

lemma gps_only_frame:
  assumes "gps_only w w'"
  shows "ril w' = ril w" "chan w' = chan w" "modem w' = modem w" "sState (ctx w') = sState (ctx w)"
    "s_closed (ctx w') = s_closed (ctx w)" "pollSavedCREG w' = pollSavedCREG w"
    "pollSavedCSQ w' = pollSavedCSQ w"
proof -
  have e: "f (gps_blank w') = f (gps_blank w)" for f :: "world \<Rightarrow> 'b"
    using assms by (simp add: gps_only_def)
  show "ril w' = ril w" using e [of ril] by (simp add: gps_blank_def)
  show "chan w' = chan w" using e [of chan] by (simp add: gps_blank_def)
  show "modem w' = modem w" using e [of modem] by (simp add: gps_blank_def)
  show "sState (ctx w') = sState (ctx w)" using e [of "\<lambda>w. sState (ctx w)"] by (simp add: gps_blank_def)
  show "s_closed (ctx w') = s_closed (ctx w)" using e [of "\<lambda>w. s_closed (ctx w)"] by (simp add: gps_blank_def)
  show "pollSavedCREG w' = pollSavedCREG w" using e [of pollSavedCREG] by (simp add: gps_blank_def)
  show "pollSavedCSQ w' = pollSavedCSQ w" using e [of pollSavedCSQ] by (simp add: gps_blank_def)
qed

lemma gps_only_updates [simp]:
  "gps_only w (w\<lparr>os_calls := cs\<rparr>)" "gps_only w (w\<lparr>os_calls := cs, os_rets := rs\<rparr>)"
  "gps_only w (w\<lparr>ctx := (ctx w)\<lparr>gpsFifoFD := f\<rparr>\<rparr>)" "gps_only w (w\<lparr>ctx := (ctx w)\<lparr>gpsTtyFD := f\<rparr>\<rparr>)"
  by (simp_all add: gps_only_def gps_blank_def)

lemma sys_total: "\<exists>r w'. sys c w = Inr (r, w') \<and> gps_only w w'"
  by (cases "os_rets w") (auto simp: sys_def)

text \<open>An action that always returns and touches nothing else.\<close>

definition gps_act :: "'a act \<Rightarrow> bool" where
  "gps_act m \<longleftrightarrow> (\<forall>w. \<exists>r w'. m w = Inr (r, w') \<and> gps_only w w')"

lemma gps_act_ret [intro]: "gps_act (ret x)" "gps_act get_ctx"
  by (auto simp: gps_act_def)

lemma gps_act_sys_int [intro]: "gps_act (sys_int c)"
  unfolding gps_act_def
proof
  fix w
  from sys_total [of c w] obtain r w' where "sys c w = Inr (r, w')" "gps_only w w'" by blast
  then show "\<exists>r w'. sys_int c w = Inr (r, w') \<and> gps_only w w'"
    by (simp add: sys_int_def bind_act_def)
qed

lemma gps_act_of_result [intro]: "gps_act (of_result (Inr x))"
  by (simp add: gps_act_def)

lemma gps_act_fd [intro]:
  "gps_act (upd_ctx (\<lambda>c. c\<lparr>gpsFifoFD := f\<rparr>))" "gps_act (upd_ctx (\<lambda>c. c\<lparr>gpsTtyFD := f\<rparr>))"
  by (simp_all add: gps_act_def)

lemma gps_act_bind [intro]:
  assumes "gps_act m" "\<And>x. gps_act (f x)"
  shows "gps_act (bind_act m f)"
  unfolding gps_act_def
proof
  fix w
  obtain x w1 where m: "m w = Inr (x, w1)" "gps_only w w1"
    using assms(1) unfolding gps_act_def by blast
  obtain r w2 where f: "f x w1 = Inr (r, w2)" "gps_only w1 w2"
    using assms(2) [of x] unfolding gps_act_def by blast
  from m f show "\<exists>r w'. bind_act m f w = Inr (r, w') \<and> gps_only w w'"
    by (auto simp: bind_act_def intro: gps_only_trans)
qed

lemma gps_act_seq [intro]: "gps_act m \<Longrightarrow> gps_act n \<Longrightarrow> gps_act (seq_act m n)"
  unfolding seq_act_def by (rule gps_act_bind)

lemma gps_act_if [intro]: "(b \<Longrightarrow> gps_act m) \<Longrightarrow> (\<not> b \<Longrightarrow> gps_act n) \<Longrightarrow> gps_act (if b then m else n)"
  by simp

lemma gps_act_split [intro]: "(\<And>x y. gps_act (f x y)) \<Longrightarrow> gps_act (case p of (x, y) \<Rightarrow> f x y)"
  by (cases p) simp

lemma gps_act_Fifo: "gps_act (rilWriteGPSFifo file s)"
  unfolding rilWriteGPSFifo_def by (intro gps_act_bind gps_act_seq gps_act_if gps_act_split) auto

lemma gps_act_openTty: "gps_act openGPSTty"
  unfolding openGPSTty_def by (intro gps_act_bind gps_act_seq gps_act_if gps_act_split) auto

lemma gps_act_Tty: "gps_act (rilWriteGPSTty (Some s) options)"
  unfolding rilWriteGPSTty_def deref.simps
  by (intro gps_act_bind gps_act_seq gps_act_if gps_act_split gps_act_openTty) auto

text \<open>Creating the terminal alone: no text is needed.\<close>

lemma gps_tty_open:
  assumes "rilWriteGPSTty None 1 w = Inr (x, w')"
  shows "gps_only w w'"
proof (cases "gpsTtyFD (ctx w) \<le> 0")
  case True
  obtain r w1 where o: "openGPSTty w = Inr (r, w1)" "gps_only w w1"
    using gps_act_openTty unfolding gps_act_def by blast
  with True assms have "w' = w1" by (cases r) (simp add: rilWriteGPSTty_def bind_act_def)
  with o show ?thesis by simp
qed (use assms in \<open>simp add: rilWriteGPSTty_def bind_act_def\<close>)

end
