(* ===== verification/RilCore.thy ===== *)
theory RilCore
  imports RilGps
begin

text \<open>
  The part of \<^verbatim>\<open>fwril-100/fw100-ril.c\<close> that links the AT channel and the RIL library: the
  radio state, the callbacks of the channel (an unsolicited line, the end of the reader thread, a
  timeout), and sending a command from a handler. The effects of the callbacks that run on the
  reader thread during a command are applied, in their order, when the command returns; lines
  that arrive after the final response are handled before the next command is sent.
\<close>

section \<open>The radio state\<close>

text \<open>
  \<^verbatim>\<open>setRadioState\<close> up to the notification of the RIL library. The result tells whether the
  state has changed.
\<close>

definition radioStateSet :: "radio_state \<Rightarrow> bool act" where
  "radioStateSet newState =
     bind_act get_ctx (\<lambda>c.
     let newState = (if s_closed c > 0 then RADIO_STATE_UNAVAILABLE else newState) in
     seq_act (if sState c \<noteq> newState \<or> s_closed c > 0
              then upd_ctx (\<lambda>c. c\<lparr>sState := newState\<rparr>) else ret ())
       (bind_act get_ctx (\<lambda>c'.
        if sState c' \<noteq> sState c
        then seq_act (RIL_onUnsolicitedResponse RIL_UNSOL_RESPONSE_RADIO_STATE_CHANGED PNull) (ret True)
        else ret False)))"

section \<open>Callbacks of the AT channel\<close>

definition at_close_act :: "unit act" where
  "at_close_act = upd (\<lambda>w. w\<lparr>chan := at_close (chan w)\<rparr>)"

text \<open>
  Both close the channel and make the radio unavailable. The state set here is never one of the
  two for which \<^verbatim>\<open>setRadioState\<close> does more than to notify.
\<close>

definition onATReaderClosed :: "unit act" where
  "onATReaderClosed =
     seq_act at_close_act
       (seq_act (upd_ctx (\<lambda>c. c\<lparr>s_closed := 1\<rparr>))
         (seq_act (radioStateSet RADIO_STATE_UNAVAILABLE) (ret ())))"

definition onATTimeout :: "unit act" where
  "onATTimeout =
     seq_act at_close_act
       (seq_act (upd_ctx (\<lambda>c. c\<lparr>s_closed := 1\<rparr>))
         (seq_act (radioStateSet RADIO_STATE_UNAVAILABLE) (ret ())))"

definition RIL_GPS_FIFOPATH :: string where
  "RIL_GPS_FIFOPATH = ''/opt/fusion/gpsfifo''"

definition onUnsolicited :: "string \<Rightarrow> string option \<Rightarrow> unit act" where
  "onUnsolicited s sms_pdu =
     bind_act get_ctx (\<lambda>c.
     if sState c = RADIO_STATE_UNAVAILABLE then ret ()
     else if strStartsWith s ''%CTZV:''
     then (case at_tok_nextstr (snd (at_tok_start (Some s))) None of (err, response, _) \<Rightarrow>
            if err \<noteq> 0 then ret ()
            else bind_act (of_result (deref response)) (\<lambda>r.
                   RIL_onUnsolicitedResponse RIL_UNSOL_NITZ_TIME_RECEIVED (PStr r)))
     else if strStartsWith s ''+CRING:'' \<or> strStartsWith s ''RING'' \<or> strStartsWith s ''NO CARRIER'' \<or>
       strStartsWith s ''+CCWA'' then ret ()
     else if strStartsWith s ''+CREG:'' \<or> strStartsWith s ''+CGREG:''
     then RIL_onUnsolicitedResponse RIL_UNSOL_RESPONSE_NETWORK_STATE_CHANGED PNull
     else if strStartsWith s ''+CMT:''
     then bind_act (of_result (deref sms_pdu)) (\<lambda>p.
            RIL_onUnsolicitedResponse RIL_UNSOL_RESPONSE_NEW_SMS (PStr p))
     else if strStartsWith s ''+CDS:''
     then bind_act (of_result (deref sms_pdu)) (\<lambda>p.
            RIL_onUnsolicitedResponse RIL_UNSOL_RESPONSE_NEW_SMS_STATUS_REPORT (PStr p))
     else if strStartsWith s ''^ORIG:'' then ret ()
     else if strStartsWith s ''^OTACMSG:''
     then upd_ctx (\<lambda>c. c\<lparr>otaMsgCnt := cint (otaMsgCnt c + 1), otaMsg := strncpy s 64\<rparr>)
     else if strStartsWith s ''^CONN:'' then ret ()
     else if strStartsWith s ''^CEND:'' then ret ()
     else if strStartsWith s ''$GP''
     then seq_act (if gpsFifoEnable c then seq_act (rilWriteGPSFifo RIL_GPS_FIFOPATH s) (ret ()) else ret ())
            (if gpsTtyEnable c then seq_act (rilWriteGPSTty (Some s) 0) (ret ()) else ret ())
     else ret ())"

fun run_callbacks :: "callback list \<Rightarrow> unit act" where
  "run_callbacks [] = ret ()"
| "run_callbacks (CbUnsol s pdu # cbs) = seq_act (onUnsolicited s pdu) (run_callbacks cbs)"
| "run_callbacks (CbReaderClosed # cbs) = seq_act onATReaderClosed (run_callbacks cbs)"
| "run_callbacks (CbTimeout # cbs) = seq_act onATTimeout (run_callbacks cbs)"

text \<open>Lines that arrive while no command is pending.\<close>

fun idle_events :: "cmd_event list \<Rightarrow> unit act" where
  "idle_events [] = ret ()"
| "idle_events (e # es) = (\<lambda>w. and_then (reader_event e (chan w)) (\<lambda>(ch, cbs).
     seq_act (run_callbacks cbs) (idle_events es) (w\<lparr>chan := ch\<rparr>)))"

section \<open>Commands\<close>

definition run_cmd :: "(cmd_event list \<Rightarrow> at_chan \<Rightarrow> cmd_result c_result) \<Rightarrow> (int \<times> ATResponse option) act"
  where
  "run_cmd send w =
     (let es = (case modem w of [] \<Rightarrow> [] | e # _ \<Rightarrow> e) in
      and_then (send es (chan w)) (\<lambda>res.
        seq_act (run_callbacks (cr_cbs res))
          (seq_act (idle_events (cr_rest res)) (ret (cr_err res, cr_out res)))
          (w\<lparr>chan := cr_chan res, modem := tl (modem w)\<rparr>)))"

text \<open>\<^verbatim>\<open>at_send_command(cmd, NULL)\<close>\<close>

definition send_only :: "string \<Rightarrow> int act" where
  "send_only cmd = bind_act (run_cmd (at_send_command CommandThread cmd False)) (\<lambda>(err, _). ret err)"

text \<open>
  A command whose response is looked at: the test \<^verbatim>\<open>err < 0\<close> or \<^verbatim>\<open>err != 0\<close>, then
  \<^verbatim>\<open>p_response->success\<close>. \<open>None\<close> is the error exit.
\<close>

definition checked :: "(int \<Rightarrow> bool) \<Rightarrow> (cmd_event list \<Rightarrow> at_chan \<Rightarrow> cmd_result c_result) \<Rightarrow>
    ATResponse option act" where
  "checked bad send =
     bind_act (run_cmd send) (\<lambda>(err, p_response).
       if bad err then ret None
       else bind_act (of_result (deref p_response)) (\<lambda>r.
         if success r = 0 then ret None else ret (Some r)))"

definition first_line :: "ATResponse \<Rightarrow> string c_result" where
  "first_line r = (case p_intermediates r of [] \<Rightarrow> Inl NullDeref | l # _ \<Rightarrow> Inr l)"

definition neg :: "int \<Rightarrow> bool" where "neg err \<longleftrightarrow> err < 0"
definition nonzero :: "int \<Rightarrow> bool" where "nonzero err \<longleftrightarrow> err \<noteq> 0"

definition query :: "(int \<Rightarrow> bool) \<Rightarrow> string \<Rightarrow> string \<Rightarrow> string option act" where
  "query bad cmd prefix =
     or_error (checked bad (at_send_command_singleline CommandThread cmd prefix True)) (\<lambda>r.
       bind_act (of_result (first_line r)) (\<lambda>l. ret (Some l)))"

text \<open>The whole of \<^verbatim>\<open>setRadioState\<close>, with what follows a change to one of two states.\<close>

definition onSIMReady :: "unit act" where
  "onSIMReady = seq_act (send_only ''AT+CNMI=1,2,2,1,1'') (ret ())"

definition onRadioPowerOn :: "unit act" where
  "onRadioPowerOn = RIL_onUnsolicitedResponse RIL_UNSOL_RESPONSE_NETWORK_STATE_CHANGED PNull"

definition setRadioState :: "radio_state \<Rightarrow> unit act" where
  "setRadioState newState =
     bind_act (radioStateSet newState) (\<lambda>changed.
     bind_act get_ctx (\<lambda>c.
       if changed
       then if sState c = RADIO_STATE_SIM_READY then onSIMReady
            else if sState c = RADIO_STATE_SIM_NOT_READY then onRadioPowerOn else ret ()
       else ret ()))"

section \<open>Parsing a response line\<close>

text \<open>The tokenizer calls with their error exits.\<close>

definition tok_start :: "string \<Rightarrow> cursor option" where
  "tok_start line = (case at_tok_start (Some line) of (err, cur) \<Rightarrow> if err < 0 then None else Some cur)"

definition tok_int :: "cursor \<Rightarrow> (int \<times> cursor) option" where
  "tok_int cur = (case at_tok_nextint cur 0 of (err, v, cur') \<Rightarrow> if err < 0 then None else Some (v, cur'))"

definition tok_hex :: "cursor \<Rightarrow> (int \<times> cursor) option" where
  "tok_hex cur = (case at_tok_nexthexint cur 0 of (err, v, cur') \<Rightarrow> if err < 0 then None else Some (v, cur'))"

definition tok_bool :: "cursor \<Rightarrow> (int \<times> cursor) option" where
  "tok_bool cur = (case at_tok_nextbool cur (Some 0) of (err, v, cur') \<Rightarrow>
     if err < 0 then None else Some (the v, cur'))"

text \<open>A successful \<^verbatim>\<open>at_tok_nextstr\<close> always stores a token.\<close>

definition tok_str :: "cursor \<Rightarrow> (string \<times> cursor) option" where
  "tok_str cur = (case at_tok_nextstr cur None of (err, v, cur') \<Rightarrow>
     if err < 0 then None else Some (the v, cur'))"

fun tok_ints :: "nat \<Rightarrow> cursor \<Rightarrow> (int list \<times> cursor) option" where
  "tok_ints 0 cur = Some ([], cur)"
| "tok_ints (Suc n) cur = Option.bind (tok_int cur) (\<lambda>(v, cur).
     Option.bind (tok_ints n cur) (\<lambda>(vs, cur). Some (v # vs, cur)))"

fun tok_strs :: "nat \<Rightarrow> cursor \<Rightarrow> (string list \<times> cursor) option" where
  "tok_strs 0 cur = Some ([], cur)"
| "tok_strs (Suc n) cur = Option.bind (tok_str cur) (\<lambda>(v, cur).
     Option.bind (tok_strs n cur) (\<lambda>(vs, cur). Some (v # vs, cur)))"

end
