(* ===== verification/RilLogic.thy ===== *)
theory RilLogic
  imports RilCore
begin

text \<open>
  A small program logic for handlers. \<open>triple P m Q\<close>: started in a world with \<open>P\<close>, the
  action \<open>m\<close> ends in no other fault than to wait for ever on the modem, and when it returns
  its result and the new world satisfy \<open>Q\<close>. \<open>sound t n\<close> is the invariant of a handler
  for the request with token \<open>t\<close>: the channel is idle and consistent, what the modem will send
  is well formed, and the request has been completed \<open>n\<close> times.
\<close>

section \<open>Triples\<close>

definition triple :: "(world \<Rightarrow> bool) \<Rightarrow> 'a act \<Rightarrow> ('a \<Rightarrow> world \<Rightarrow> bool) \<Rightarrow> bool" where
  "triple P m Q \<longleftrightarrow> (\<forall>w. P w \<longrightarrow> (case m w of Inl f \<Rightarrow> f = Blocked | Inr (x, w') \<Rightarrow> Q x w'))"

named_theorems triples

lemma tripleI:
  "(\<And>w f. P w \<Longrightarrow> m w = Inl f \<Longrightarrow> f = Blocked) \<Longrightarrow> (\<And>w x w'. P w \<Longrightarrow> m w = Inr (x, w') \<Longrightarrow> Q x w') \<Longrightarrow>
    triple P m Q"
  by (auto simp: triple_def split: sum.splits)

lemma triple_Inr: "triple P m Q \<Longrightarrow> P w \<Longrightarrow> m w = Inr (x, w') \<Longrightarrow> Q x w'"
  by (auto simp: triple_def split: sum.splits)

lemma triple_Inl: "triple P m Q \<Longrightarrow> P w \<Longrightarrow> m w = Inl f \<Longrightarrow> f = Blocked"
  by (auto simp: triple_def split: sum.splits)

lemma triple_bind:
  assumes "triple P m Q" "\<And>x. triple (Q x) (f x) R"
  shows "triple P (bind_act m f) R"
proof (rule tripleI)
  fix w e
  assume "P w" "bind_act m f w = Inl e"
  then show "e = Blocked"
    using triple_Inl [OF assms(1)] triple_Inr [OF assms(1)] triple_Inl [OF assms(2)]
    unfolding bind_act_Inl_iff by blast
next
  fix w x w'
  assume "P w" "bind_act m f w = Inr (x, w')"
  then show "R x w'"
    using triple_Inr [OF assms(1)] triple_Inr [OF assms(2)] unfolding bind_act_Inr_iff by blast
qed

lemma triple_seq: "triple P m (\<lambda>_. Q) \<Longrightarrow> triple Q n R \<Longrightarrow> triple P (seq_act m n) R"
  unfolding seq_act_def by (rule triple_bind)

lemma triple_ret: "(\<And>w. P w \<Longrightarrow> Q x w) \<Longrightarrow> triple P (ret x) Q"
  by (simp add: triple_def)

lemma triple_conseq: "triple P m Q \<Longrightarrow> (\<And>w. P' w \<Longrightarrow> P w) \<Longrightarrow> (\<And>x w. Q x w \<Longrightarrow> Q' x w) \<Longrightarrow> triple P' m Q'"
  by (intro tripleI) (blast dest: triple_Inl triple_Inr)+

lemma triple_if:
  "(b \<Longrightarrow> triple P m Q) \<Longrightarrow> (\<not> b \<Longrightarrow> triple P n Q) \<Longrightarrow> triple P (if b then m else n) Q"
  by simp

lemma triple_pre: "(\<And>w. P w \<Longrightarrow> C) \<Longrightarrow> (C \<Longrightarrow> triple P m Q) \<Longrightarrow> triple P m Q"
  by (auto simp: triple_def)

lemma triple_get_ctx: "(\<And>c. triple (\<lambda>w. P w \<and> ctx w = c) (f c) Q) \<Longrightarrow> triple P (bind_act get_ctx f) Q"
  by (auto simp: triple_def bind_act_def split: sum.splits)

lemma triple_or_error:
  assumes "triple P m (\<lambda>r w. case r of None \<Rightarrow> E w | Some x \<Rightarrow> Q x w)"
    and "\<And>x. triple (Q x) (f x) R" and "\<And>w. E w \<Longrightarrow> R None w"
  shows "triple P (or_error m f) R"
  unfolding or_error_def
proof (rule triple_bind [OF assms(1)])
  fix r
  show "triple (\<lambda>w. case r of None \<Rightarrow> E w | Some x \<Rightarrow> Q x w) (case r of None \<Rightarrow> ret None | Some x \<Rightarrow> f x) R"
    using assms(2,3) by (cases r) (auto intro: triple_ret)
qed

section \<open>The invariant\<close>

fun is_complete :: "token \<Rightarrow> ril_out \<Rightarrow> bool" where
  "is_complete t (Complete t' e p) = (t' = t)"
| "is_complete t _ = False"

definition completions :: "token \<Rightarrow> ril_out list \<Rightarrow> nat" where
  "completions t os = length (filter (is_complete t) os)"

text \<open>An event as the reader thread produces it: an SMS indication never comes as a single line.\<close>

definition ev_ok :: "cmd_event \<Rightarrow> bool" where
  "ev_ok e = (case e of Line l \<Rightarrow> \<not> isSMSUnsolicited l | _ \<Rightarrow> True)"

definition modem_ok :: "cmd_event list list \<Rightarrow> bool" where
  "modem_ok ess \<longleftrightarrow> (\<forall>es \<in> set ess. \<forall>e \<in> set es. ev_ok e)"

definition sound :: "token \<Rightarrow> nat \<Rightarrow> world \<Rightarrow> bool" where
  "sound t n w \<longleftrightarrow> chan_ok (chan w) \<and> modem_ok (modem w) \<and> completions t (ril w) = n"

lemma sound_cong:
  "sound t n w \<Longrightarrow> chan w' = chan w \<Longrightarrow> modem w' = modem w \<Longrightarrow> ril w' = ril w \<Longrightarrow> sound t n w'"
  by (simp add: sound_def)

lemma sound_upd_ctx: "sound t n (w\<lparr>ctx := c\<rparr>) = sound t n w"
  by (simp add: sound_def)

lemma triple_upd_ctx [triples]: "triple (sound t n) (upd_ctx f) (\<lambda>_. sound t n)"
  by (simp add: triple_def sound_upd_ctx)

lemma triple_complete [triples]:
  "triple (sound t n) (RIL_onRequestComplete t e p) (\<lambda>_. sound t (Suc n))"
  by (simp add: triple_def RIL_onRequestComplete_def sound_def completions_def)

lemma triple_unsol [triples]: "triple (sound t n) (RIL_onUnsolicitedResponse u p) (\<lambda>_. sound t n)"
  by (simp add: triple_def RIL_onUnsolicitedResponse_def sound_def completions_def)

lemma triple_gps: "gps_act m \<Longrightarrow> triple (sound t n) m (\<lambda>_. sound t n)"
proof (rule tripleI)
  fix w f
  assume "gps_act m" "m w = Inl f"
  then show "f = Blocked" unfolding gps_act_def by (metis Inr_Inl_False)
next
  fix w x w'
  assume g: "gps_act m" and s: "sound t n w" and m: "m w = Inr (x, w')"
  from g m have "gps_only w w'" unfolding gps_act_def by (metis prod.inject sum.inject(2))
  from gps_only_frame [OF this] show "sound t n w'" using sound_cong [OF s] by simp
qed

lemma triple_sys_int [triples]: "triple (sound t n) (sys_int c) (\<lambda>_. sound t n)"
  by (rule triple_gps) auto

lemma triple_sys [triples]: "triple (sound t n) (sys c) (\<lambda>_. sound t n)"
  using sys_total [of c] by (intro triple_gps) (auto simp: gps_act_def)

lemma triple_sys_str [triples]: "triple (sound t n) (sys_str c d) (\<lambda>_. sound t n)"
  unfolding sys_str_def by (rule triple_bind [OF triple_sys]) (auto intro: triple_ret)

text \<open>The world read first is forgotten.\<close>

lemma triple_get_ctx_sound:
  "(\<And>c. triple (sound t n) (f c) Q) \<Longrightarrow> triple (sound t n) (bind_act get_ctx f) Q"
  by (rule triple_get_ctx) (rule triple_conseq [where P = "sound t n"], auto)

lemma triple_seq_sound:
  "triple (sound t n) m (\<lambda>_. sound t n) \<Longrightarrow> triple (sound t n) k Q \<Longrightarrow> triple (sound t n) (seq_act m k) Q"
  by (rule triple_seq)

lemma triple_bind_sound:
  "triple (sound t n) m (\<lambda>_. sound t n) \<Longrightarrow> (\<And>x. triple (sound t n) (f x) Q) \<Longrightarrow>
    triple (sound t n) (bind_act m f) Q"
  by (rule triple_bind)

lemma triple_ret_sound: "triple (sound t n) (ret x) (\<lambda>_. sound t n)"
  by (rule triple_ret)

lemmas sound_intros = triple_get_ctx_sound triple_seq_sound triple_bind_sound triple_ret_sound triple_if

section \<open>Callbacks\<close>

lemma triple_radioStateSet [triples]: "triple (sound t n) (radioStateSet s) (\<lambda>_. sound t n)"
  unfolding radioStateSet_def Let_def
  by (intro sound_intros triples)

lemma triple_at_close [triples]: "triple (sound t n) at_close_act (\<lambda>_. sound t n)"
  by (auto simp: triple_def at_close_act_def sound_def chan_ok_def idle_def at_close_def)

lemma triple_onATReaderClosed [triples]: "triple (sound t n) onATReaderClosed (\<lambda>_. sound t n)"
  unfolding onATReaderClosed_def by (intro sound_intros triples)

lemma triple_onATTimeout [triples]: "triple (sound t n) onATTimeout (\<lambda>_. sound t n)"
  unfolding onATTimeout_def by (intro sound_intros triples)

text \<open>A call of the unsolicited handler as the reader thread makes it.\<close>

definition cb_ok :: "callback \<Rightarrow> bool" where
  "cb_ok cb = (case cb of CbUnsol s None \<Rightarrow> \<not> isSMSUnsolicited s | _ \<Rightarrow> True)"

lemma isSMSUnsolicited_iff:
  "isSMSUnsolicited s \<longleftrightarrow> strStartsWith s ''+CMT:'' \<or> strStartsWith s ''+CDS:'' \<or> strStartsWith s ''+CBM:''"
  by (simp add: isSMSUnsolicited_def s_smsUnsoliciteds_def)

lemma triple_deref_Some: "(\<And>x. p = Some x \<Longrightarrow> triple P (f x) Q) \<Longrightarrow> p \<noteq> None \<Longrightarrow>
    triple P (bind_act (of_result (deref p)) f) Q"
  by (auto simp: triple_def bind_act_def split: sum.splits)

lemma nextstr_ok: "at_tok_nextstr cur None = (0, tok, cur') \<Longrightarrow> tok \<noteq> None"
  by (cases cur) (auto simp: at_tok_nextstr_def dest: nextTok_Some split: prod.splits)

lemma triple_onUnsolicited:
  assumes "cb_ok (CbUnsol s pdu)"
  shows "triple (sound t n) (onUnsolicited s pdu) (\<lambda>_. sound t n)"
proof -
  have pdu: "pdu \<noteq> None" if "strStartsWith s ''+CMT:'' \<or> strStartsWith s ''+CDS:''"
    using assms that by (auto simp: cb_ok_def isSMSUnsolicited_iff split: option.splits)
  have nitz: "triple (sound t n) (case at_tok_nextstr cur None of (err, response, _) \<Rightarrow>
            if err \<noteq> 0 then ret ()
            else bind_act (of_result (deref response)) (\<lambda>r.
                   RIL_onUnsolicitedResponse RIL_UNSOL_NITZ_TIME_RECEIVED (PStr r))) (\<lambda>_. sound t n)" for cur
    by (auto split: prod.splits intro!: triple_ret triple_deref_Some triples dest: nextstr_ok)
  have ota: "triple (sound t n) (seq_act (if b then seq_act m (ret ()) else ret ())
      (if b' then seq_act m' (ret ()) else ret ())) (\<lambda>_. sound t n)"
    if "gps_act m" "gps_act m'" for b b' and m m' :: "int act"
    using triple_gps [OF that(1)] triple_gps [OF that(2)]
    by (intro triple_seq [where Q = "sound t n"] triple_if triple_ret) auto
  show ?thesis
    unfolding onUnsolicited_def
    by (intro triple_get_ctx_sound triple_if nitz ota gps_act_Fifo gps_act_Tty triple_deref_Some
        triples triple_ret pdu) auto
qed

lemma triple_run_callbacks:
  "list_all cb_ok cbs \<Longrightarrow> triple (sound t n) (run_callbacks cbs) (\<lambda>_. sound t n)"
proof (induction cbs rule: run_callbacks.induct)
  case (2 s pdu cbs)
  then show ?case by (auto intro!: triple_seq [where Q = "sound t n"] triple_onUnsolicited)
qed (auto intro!: triple_seq [where Q = "sound t n"] triples triple_ret)

section \<open>Commands\<close>

lemma processLine_cbs:
  assumes "pending_ok ch" "processLine l ch = Inr (ch', cbs)" "\<not> isSMSUnsolicited l"
  shows "list_all cb_ok cbs"
  using assms processLine_fate [OF assms(1)] processLine_none [of ch l]
  by (cases "sp_response ch")
    (auto simp: handleUnsolicited_def cb_ok_def split: line_fate.splits if_splits)

lemma reader_event_cbs:
  "pending_ok ch \<Longrightarrow> reader_event e ch = Inr (ch', cbs) \<Longrightarrow> ev_ok e \<Longrightarrow> list_all cb_ok cbs"
  using processLine_cbs [of ch]
  by (auto simp: reader_event_def ev_ok_def onReaderClosed_def cb_ok_def
      split: cmd_event.splits if_splits)

lemma wait_loop_cbs:
  "waiting_ok ch \<Longrightarrow> wait_loop tmo es ch = Inr (b, ch', cbs, rest) \<Longrightarrow> \<forall>e \<in> set es. ev_ok e \<Longrightarrow>
     list_all cb_ok cbs \<and> set rest \<subseteq> set es"
proof (induction es arbitrary: ch cbs)
  case Nil
  then show ?case using wait_loop_over wait_loop_Nil by (cases "wait_over ch") fastforce+
next
  case (Cons e es)
  show ?case
  proof (cases "wait_over ch \<or> e = TimedOut \<and> tmo \<noteq> 0")
    case True
    with Cons.prems wait_loop_over [of ch tmo "e # es"] wait_loop_Cons [of ch tmo e es]
    show ?thesis by (cases "wait_over ch") (auto split: if_splits)
  next
    case False
    obtain ch1 cbs1 where re: "reader_event e ch = Inr (ch1, cbs1)"
      using reader_event_no_fault Cons.prems(1) unfolding waiting_ok_def by blast
    with False Cons.prems(1,2) obtain cbs' where w: "wait_loop tmo es ch1 = Inr (b, ch', cbs', rest)"
      and cbs: "cbs = cbs1 @ cbs'"
      by (subst (asm) wait_loop_Cons) (auto simp: c_simps)
    from Cons.IH [OF reader_event_waiting_ok [OF Cons.prems(1) re] w] Cons.prems(3)
      reader_event_cbs [OF _ re] Cons.prems(1) show ?thesis
      by (auto simp: cbs waiting_ok_def)
  qed
qed

lemma full_cbs:
  assumes ch: "chan_ok ch" and pre: "type \<in> {SINGLELINE, MULTILINE} \<longrightarrow> pre \<noteq> None"
    and r: "at_send_command_full CommandThread cmd type pre pdu tmo want es ch = Inr res"
    and ev: "\<forall>e \<in> set es. ev_ok e"
  shows "list_all cb_ok (cr_cbs res) \<and> set (cr_rest res) \<subseteq> set es"
proof -
  obtain err ch1 where st: "start_command cmd type pre pdu ch = (err, ch1)" by fastforce
  have idle: "idle ch" and rc: "0 \<le> s_readerClosed ch" using ch by (auto simp: chan_ok_def)
  show ?thesis
  proof (cases "err < 0")
    case True
    with r st show ?thesis
      by (auto simp: at_send_command_full_def at_send_command_full_nolock_def cb_ok_def split: if_splits)
  next
    case False
    have ok: "waiting_ok ch1"
      using start_command_cases [OF idle st] False rc
        started_waiting_ok [of "snd (writeline cmd ch)" type pre pdu] pre
      by (auto simp: writeline_def)
    from r st False obtain b ch2 cbs rest where w: "wait_loop tmo es ch1 = Inr (b, ch2, cbs, rest)"
      and "cr_rest res = rest" "cr_cbs res = cbs \<or> cr_cbs res = cbs @ [CbTimeout]"
      by (auto simp: at_send_command_full_def at_send_command_full_nolock_def finish_command_def
          c_simps)
    with wait_loop_cbs [OF ok w ev] show ?thesis by (auto simp: cb_ok_def)
  qed
qed

lemma idle_events_sound:
  "\<forall>e \<in> set es. ev_ok e \<Longrightarrow> triple (sound t n) (idle_events es) (\<lambda>_. sound t n)"
proof (induction es)
  case Nil
  show ?case unfolding idle_events.simps by (rule triple_ret_sound)
next
  case (Cons e es)
  have step: "triple (sound t n) (seq_act (run_callbacks cbs) (idle_events es)) (\<lambda>_. sound t n)"
    if "list_all cb_ok cbs" for cbs
    using Cons that by (intro sound_intros triple_run_callbacks) auto
  have one: "\<exists>ch cbs. reader_event e (chan w) = Inr (ch, cbs) \<and> list_all cb_ok cbs \<and>
      sound t n (w\<lparr>chan := ch\<rparr>)" if s: "sound t n w" for w
  proof -
    from s have c: "chan_ok (chan w)" by (simp add: sound_def)
    then have p: "pending_ok (chan w)" by (simp add: chan_ok_def idle_pending_ok)
    from reader_event_no_fault [OF p] obtain ch cbs where r: "reader_event e (chan w) = Inr (ch, cbs)"
      by blast
    have "chan_ok ch"
      using c r by (auto simp: reader_event_def onReaderClosed_def processLine_def chan_ok_def idle_def
          split: cmd_event.splits if_splits)
    with r reader_event_cbs [OF p r] Cons.prems s show ?thesis by (auto simp: sound_def)
  qed
  show ?case
    unfolding triple_def
  proof (intro allI impI)
    fix w
    assume "sound t n w"
    with one obtain ch cbs where "reader_event e (chan w) = Inr (ch, cbs)" "list_all cb_ok cbs"
      "sound t n (w\<lparr>chan := ch\<rparr>)" by blast
    with step [of cbs] show "case idle_events (e # es) w of Inl f \<Rightarrow> f = Blocked | Inr (x, w') \<Rightarrow> sound t n w'"
      by (auto simp: triple_def)
  qed
qed

text \<open>
  What the driver relies on when it calls any operation of the AT channel: it ends in no fault
  but waiting, the channel is consistent again, and the callbacks and left-over events are those
  of a reader thread that never splits an SMS indication.
\<close>

locale at_sender =
  fixes send :: "cmd_event list \<Rightarrow> at_chan \<Rightarrow> cmd_result c_result"
  assumes sender_fault: "chan_ok ch \<Longrightarrow> send es ch = Inl f \<Longrightarrow> f = Blocked"
    and sender_chan: "chan_ok ch \<Longrightarrow> send es ch = Inr res \<Longrightarrow> chan_ok (cr_chan res)"
    and sender_cbs: "chan_ok ch \<Longrightarrow> \<forall>e \<in> set es. ev_ok e \<Longrightarrow> send es ch = Inr res \<Longrightarrow>
      list_all cb_ok (cr_cbs res) \<and> set (cr_rest res) \<subseteq> set es"
begin

lemma run_cmd_sound:
  assumes "\<And>ch es res. chan_ok ch \<Longrightarrow> send es ch = Inr res \<Longrightarrow> R (cr_err res) (cr_out res)"
  shows "triple (sound t n) (run_cmd send) (\<lambda>(err, out) w. sound t n w \<and> R err out)"
  unfolding triple_def
proof (intro allI impI)
  fix w
  assume s: "sound t n w"
  let ?es = "case modem w of [] \<Rightarrow> [] | e # _ \<Rightarrow> e"
  from s have c: "chan_ok (chan w)" and m: "modem_ok (modem w)" by (auto simp: sound_def)
  have ev: "\<forall>e \<in> set ?es. ev_ok e" using m by (cases "modem w") (auto simp: modem_ok_def)
  show "case run_cmd send w of Inl f \<Rightarrow> f = Blocked | Inr (x, w') \<Rightarrow>
      (case x of (err, out) \<Rightarrow> \<lambda>w. sound t n w \<and> R err out) w'"
  proof (cases "send ?es (chan w)")
    case (Inl f)
    with sender_fault [OF c Inl] show ?thesis by (simp add: run_cmd_def Let_def)
  next
    case (Inr res)
    note cb = sender_cbs [OF c ev Inr]
    have rest: "\<forall>e \<in> set (cr_rest res). ev_ok e" using cb ev by blast
    let ?w = "w\<lparr>chan := cr_chan res, modem := tl (modem w)\<rparr>"
    have "sound t n ?w"
      using s sender_chan [OF c Inr] m by (cases "modem w") (auto simp: sound_def modem_ok_def)
    moreover have "triple (sound t n) (seq_act (run_callbacks (cr_cbs res))
        (seq_act (idle_events (cr_rest res)) (ret (cr_err res, cr_out res))))
        (\<lambda>(err, out) w. sound t n w \<and> R err out)"
      using cb assms [OF c Inr]
      by (intro triple_seq_sound triple_run_callbacks idle_events_sound [OF rest] triple_ret) auto
    ultimately show ?thesis using Inr by (auto simp: run_cmd_def Let_def triple_def)
  qed
qed

end

lemma full_sender:
  assumes pre: "type \<in> {SINGLELINE, MULTILINE} \<longrightarrow> pre \<noteq> None"
    and send: "\<And>es ch. send es ch = at_send_command_full CommandThread cmd type pre pdu 0 want es ch"
  shows "at_sender send"
proof
  fix es ch f res
  assume ch: "chan_ok ch"
  show "send es ch = Inl f \<Longrightarrow> f = Blocked"
    unfolding send by (rule full_contract(1) [OF ch pre])
  show "send es ch = Inr res \<Longrightarrow> chan_ok (cr_chan res)"
    unfolding send using full_contract(2) [OF ch pre] by blast
  show "\<forall>e \<in> set es. ev_ok e \<Longrightarrow> send es ch = Inr res \<Longrightarrow>
      list_all cb_ok (cr_cbs res) \<and> set (cr_rest res) \<subseteq> set es"
    unfolding send using full_cbs [OF ch pre] by blast
qed

lemma checked_sender:
  assumes pre: "type \<in> {SINGLELINE, MULTILINE} \<longrightarrow> pre \<noteq> None"
    and send: "\<And>es ch. send es ch = and_then
      (at_send_command_full CommandThread cmd type pre pdu 0 True es ch) (need_intermediate True)"
  shows "at_sender send"
proof
  fix es ch f res
  assume ch: "chan_ok ch"
  show "send es ch = Inl f \<Longrightarrow> f = Blocked"
    by (rule checked_command_contract(1) [OF ch pre send])
  show "send es ch = Inr res \<Longrightarrow> chan_ok (cr_chan res)"
    using checked_command_contract(2) [OF ch pre send] by blast
  assume ev: "\<forall>e \<in> set es. ev_ok e" and "send es ch = Inr res"
  then obtain res0 where f: "at_send_command_full CommandThread cmd type pre pdu 0 True es ch = Inr res0"
    and ni: "need_intermediate True res0 = Inr res" unfolding send and_then_Inr_iff by blast
  have "cr_cbs res = cr_cbs res0 \<and> cr_rest res = cr_rest res0"
    using ni by (auto simp: need_intermediate_def c_simps split: if_splits)
  with full_cbs [OF ch pre f ev] show "list_all cb_ok (cr_cbs res) \<and> set (cr_rest res) \<subseteq> set es"
    by simp
qed

interpretation send_plain: at_sender "at_send_command CommandThread cmd want" for cmd want
  using full_sender [of NO_RESULT None] by (simp add: at_send_command_def)

interpretation send_singleline: at_sender
  "at_send_command_singleline CommandThread cmd prefix True" for cmd prefix
  using checked_sender [of SINGLELINE "Some prefix"] by (simp add: at_send_command_singleline_def)

interpretation send_numeric: at_sender "at_send_command_numeric CommandThread cmd True" for cmd
  using checked_sender [of NUMERIC None] by (simp add: at_send_command_numeric_def)

interpretation send_sms: at_sender "at_send_command_sms CommandThread cmd pdu prefix True"
  for cmd pdu prefix
  using checked_sender [of SINGLELINE "Some prefix"] by (simp add: at_send_command_sms_def)

interpretation send_multiline: at_sender "at_send_command_multiline CommandThread cmd prefix True"
  for cmd prefix
  using full_sender [of MULTILINE "Some prefix"] by (simp add: at_send_command_multiline_def)

section \<open>Commands with a response\<close>

definition err_test :: "(int \<Rightarrow> bool) \<Rightarrow> bool" where
  "err_test bad \<longleftrightarrow> (\<forall>e. e < 0 \<longrightarrow> bad e) \<and> \<not> bad 0"

lemma err_tests [simp]: "err_test neg" "err_test nonzero"
  by (simp_all add: err_test_def neg_def nonzero_def)

lemma triple_deref:
  assumes "\<And>w. P w \<Longrightarrow> p \<noteq> None" "\<And>x. p = Some x \<Longrightarrow> triple P (f x) Q"
  shows "triple P (bind_act (of_result (deref p)) f) Q"
  using assms by (cases p) (auto simp: triple_def bind_act_def split: sum.splits)

lemma triple_weaken: "triple P m (\<lambda>x w. Q w \<and> R x w) \<Longrightarrow> triple P m (\<lambda>_. Q)"
  by (erule triple_conseq) auto

locale at_client = at_sender send + at_port send shape
  for send :: "cmd_event list \<Rightarrow> at_chan \<Rightarrow> cmd_result c_result" and shape :: "string list \<Rightarrow> bool"
begin

text \<open>The guarded use of a response: never an access through NULL, and on success the shape.\<close>

lemma checked_sound:
  assumes "err_test bad"
  shows "triple (sound t n) (checked bad send)
    (\<lambda>r w. sound t n w \<and> (\<forall>x. r = Some x \<longrightarrow> shape (p_intermediates x)))"
proof -
  let ?R = "\<lambda>err out. \<not> bad err \<longrightarrow> (\<exists>r. out = Some r \<and> good_response shape r)"
  have R: "?R (cr_err res) (cr_out res)" if "chan_ok ch" "send es ch = Inr res" for ch es res
    using send_err [OF that] send_resp [OF that] assms by (force simp: err_test_def)
  show ?thesis
    unfolding checked_def
  proof (rule triple_bind [OF run_cmd_sound [where R = ?R, OF R]])
    fix x :: "int \<times> ATResponse option"
    obtain err out where x: "x = (err, out)" by (cases x)
    show "triple ((case x of (err, out) \<Rightarrow> \<lambda>w. sound t n w \<and> ?R err out))
        (case x of (err, p_response) \<Rightarrow> if bad err then ret None
           else bind_act (of_result (deref p_response)) (\<lambda>r.
             if success r = 0 then ret None else ret (Some r)))
        (\<lambda>r w. sound t n w \<and> (\<forall>x. r = Some x \<longrightarrow> shape (p_intermediates x)))"
      unfolding x prod.case
      by (intro triple_if triple_deref triple_ret) (auto simp: good_response_def)
  qed
qed

lemma checked_weak: "err_test bad \<Longrightarrow> triple (sound t n) (checked bad send) (\<lambda>_. sound t n)"
  by (rule triple_weaken [OF checked_sound])

end

interpretation client_singleline: at_client
  "at_send_command_singleline CommandThread cmd prefix True" "one_line (\<lambda>l. strStartsWith l prefix)"
  for cmd prefix ..

interpretation client_numeric: at_client
  "at_send_command_numeric CommandThread cmd True" "one_line line_is_digit" for cmd ..

interpretation client_sms: at_client
  "at_send_command_sms CommandThread cmd pdu prefix True" "one_line (\<lambda>l. strStartsWith l prefix)"
  for cmd pdu prefix ..

interpretation client_multiline: at_client
  "at_send_command_multiline CommandThread cmd prefix True" "list_all (\<lambda>l. strStartsWith l prefix)"
  for cmd prefix ..

interpretation client_plain: at_client
  "at_send_command CommandThread cmd True" "\<lambda>ls. ls = []" for cmd ..

lemma triple_send_only [triples]: "triple (sound t n) (send_only cmd) (\<lambda>_. sound t n)"
  unfolding send_only_def
  by (rule triple_bind [OF send_plain.run_cmd_sound [where R = "\<lambda>_ _. True"]])
    (auto intro: triple_ret)

lemma triple_query:
  assumes "err_test bad"
  shows "triple (sound t n) (query bad cmd prefix)
    (\<lambda>r w. sound t n w \<and> (\<forall>l. r = Some l \<longrightarrow> strStartsWith l prefix))"
  unfolding query_def
proof (rule triple_or_error)
  show "triple (sound t n) (checked bad (at_send_command_singleline CommandThread cmd prefix True))
      (\<lambda>r w. case r of None \<Rightarrow> sound t n w
        | Some x \<Rightarrow> sound t n w \<and> one_line (\<lambda>l. strStartsWith l prefix) (p_intermediates x))"
    by (rule triple_conseq [OF client_singleline.checked_sound [OF assms]]) (auto split: option.splits)
next
  fix x
  show "triple (\<lambda>w. sound t n w \<and> one_line (\<lambda>l. strStartsWith l prefix) (p_intermediates x))
      (bind_act (of_result (first_line x)) (\<lambda>l. ret (Some l)))
      (\<lambda>r w. sound t n w \<and> (\<forall>l. r = Some l \<longrightarrow> strStartsWith l prefix))"
    by (auto simp: triple_def bind_act_def first_line_def one_line_def split: sum.splits list.splits)
qed auto

lemma triple_query_sound [triples]:
  "err_test bad \<Longrightarrow> triple (sound t n) (query bad cmd prefix) (\<lambda>_. sound t n)"
  by (rule triple_weaken [OF triple_query])

lemma triple_or_error_sound:
  "triple (sound t n) m (\<lambda>_. sound t n) \<Longrightarrow> (\<And>x. triple (sound t n) (f x) (\<lambda>_. sound t n)) \<Longrightarrow>
    triple (sound t n) (or_error m f) (\<lambda>_. sound t n)"
  by (rule triple_or_error [where E = "sound t n" and Q = "\<lambda>_. sound t n"])
    (auto intro: triple_conseq split: option.splits)

lemma triple_setRadioState [triples]: "triple (sound t n) (setRadioState s) (\<lambda>_. sound t n)"
  unfolding setRadioState_def onSIMReady_def onRadioPowerOn_def
  by (intro sound_intros triples)

text \<open>A handler that ends in one of two completions.\<close>

lemma triple_option_case:
  "(r = None \<Longrightarrow> triple P m Q) \<Longrightarrow> (\<And>x. r = Some x \<Longrightarrow> triple P (f x) Q) \<Longrightarrow>
    triple P (case r of None \<Rightarrow> m | Some x \<Rightarrow> f x) Q"
  by (cases r) auto

end
