(* ===== verification/RilUtils.thy ===== *)
theory RilUtils
  imports RilLogic
begin

text \<open>
  \<^verbatim>\<open>fwril-100/fw100-ril-utils.c\<close>: upper-casing, the activation helper that the main loop
  runs every ten seconds, the control file that is read at the start and the status file.
\<close>

section \<open>The operations\<close>

text \<open>The loop of \<^verbatim>\<open>strToUpper\<close>; \<open>n\<close> counts the characters done.\<close>

fun strToUpper_from :: "nat \<Rightarrow> nat \<Rightarrow> string \<Rightarrow> string" where
  "strToUpper_from n m [] = []"
| "strToUpper_from n m (c # cs) = toupper c # (if Suc n > m then cs else strToUpper_from (Suc n) m cs)"

definition strToUpper :: "string \<Rightarrow> nat \<Rightarrow> string" where
  "strToUpper p m = strToUpper_from 0 m p"

definition RIL_STATUS_FILEPATH :: string where
  "RIL_STATUS_FILEPATH = ''/opt/fusion/fwril-status.txt''"

text \<open>The lines of the status file; each \<^verbatim>\<open>%s\<close> reads a character array.\<close>

definition status_text :: "fw100SessionCtx \<Rightarrow> string c_result" where
  "status_text c =
     and_then (cstr (ctx_meid c)) (\<lambda>meid.
     and_then (cstr (ctx_mdn c)) (\<lambda>mdn.
     and_then (cstr (ctx_carrier c)) (\<lambda>carrier.
     Inr (''MEID='' @ meid @ [LF] @ ''MDN='' @ mdn @ [LF] @ ''Carrier='' @ carrier @ [LF] @
       ''ModuleIsActivated='' @
         (if moduleIsActivated c = 0 then ''No'' else if moduleIsActivated c = 1 then ''Yes'' else ''Fail'') @
         [LF] @
       ''DataCallIsAutomatic='' @ (if dataCallIsAutomatic c \<noteq> 0 then ''Yes'' else ''No'') @ [LF] @
       (if inDataCall c \<noteq> 0
        then ''InDataCall=Yes'' @ [LF] @ ''LocalIP='' @ dataCallLocalIP c @ [LF]
        else ''InDataCall=No'' @ [LF])))))"

definition rilWriteStatus :: "string \<Rightarrow> int act" where
  "rilWriteStatus file =
     bind_act (sys_int (SysOpen file)) (\<lambda>f.
     if f \<le> 0 then ret (-1)
     else
       bind_act get_ctx (\<lambda>c.
       bind_act (of_result (status_text c)) (\<lambda>text.
       seq_act (sys_int (SysStatusFile text))
         (seq_act (sys_int (SysSystem (''chmod 666 '' @ file))) (ret 0)))))"

text \<open>One line of the control file, and the loop over the lines \<^verbatim>\<open>fgets\<close> returns.\<close>

definition control_line :: "string \<Rightarrow> fw100SessionCtx \<Rightarrow> fw100SessionCtx" where
  "control_line buf c =
     (let value = (if strstr buf ''Yes'' then 1 else 0) + (if strstr buf ''yes'' then 1 else 0);
          c = (if strstr buf ''DataCallIsAutomatic'' then c\<lparr>dataCallIsAutomatic := value\<rparr> else c)
      in if strstr buf ''AutoActivate'' then c\<lparr>moduleAutoActivate := value\<rparr> else c)"

definition rilReadControl :: "string list option \<Rightarrow> fw100SessionCtx \<Rightarrow> int \<times> fw100SessionCtx" where
  "rilReadControl content c = (case content of
       None \<Rightarrow> (-1, c)
     | Some bufs \<Rightarrow> (0, fold control_line bufs c))"

text \<open>\<^verbatim>\<open>line + n\<close>, which must not point behind the terminator.\<close>

definition ptr_add :: "string \<Rightarrow> nat \<Rightarrow> string c_result" where
  "ptr_add s n = (if n \<le> length s then Inr (drop n s) else Inl OutOfBounds)"

text \<open>\<^verbatim>\<open>*(line+6) == '0' && *(line+7) == '0' && *(line+8) == '0'\<close>, left to right\<close>

definition mdn_unset :: "string \<Rightarrow> bool" where
  "mdn_unset s = starts_with s ''000''"

text \<open>
  \<^verbatim>\<open>do sleep(1); while (ctx->otaMsgCnt < 5 && retry++ < 30);\<close> While it sleeps the reader
  thread runs: each second meets the next element of \<open>modem\<close>. \<open>fuel\<close> is the number of
  tests of \<open>retry\<close> that are left.
\<close>

fun wait_ota :: "nat \<Rightarrow> unit act" where
  "wait_ota fuel = (\<lambda>w.
     and_then (seq_act (idle_events (case modem w of [] \<Rightarrow> [] | es # _ \<Rightarrow> es))
        (seq_act (upd (\<lambda>w. w\<lparr>modem := tl (modem w)\<rparr>)) (seq_act (sys_int (SysSleep 1)) get_ctx)) w)
       (\<lambda>(c, w). if otaMsgCnt c < 5 \<and> 0 < fuel then wait_ota (fuel - 1) w else Inr ((), w)))"

declare wait_ota.simps [simp del]

text \<open>The OTASP call of \<^verbatim>\<open>activateHelper\<close>, with the return value that is given up with.\<close>

definition otasp_call :: "int act" where
  "otasp_call =
     seq_act (upd_ctx (\<lambda>c. c\<lparr>otaMsgCnt := 0\<rparr>))
       (seq_act (run_cmd (at_send_command_singleline CommandThread ''AT+CDV=*22899'' ''OK'' True))
         (seq_act (wait_ota 30)
           (bind_act get_ctx (\<lambda>c.
            bind_act (of_result (cstr (otaMsg c))) (\<lambda>msg.
            if strstr msg ''MSG:8''
            then seq_act (upd_ctx (\<lambda>c. c\<lparr>moduleIsActivated := 1\<rparr>))
              (bind_act (query nonzero ''AT+VMDN?'' ''+VMDN:'') (\<lambda>r. case r of
                 None \<Rightarrow> ret (-2)
               | Some line \<Rightarrow> bind_act (of_result (ptr_add line 6)) (\<lambda>mdn.
                   seq_act (upd_ctx (\<lambda>c. c\<lparr>ctx_mdn := strncpy mdn 32\<rparr>)) (ret 0))))
            else ret (-2))))))"

text \<open>The body of \<^verbatim>\<open>activateHelper\<close> up to the label \<^verbatim>\<open>done\<close>.\<close>

definition activate_carrier :: "string \<Rightarrow> int act" where
  "activate_carrier line =
     (if strstr line ''sprint'' then ret (-2)
      else if strstr line ''vzw''
      then bind_act get_ctx (\<lambda>c.
           if moduleAutoActivate c = 0 then ret (-2)
           else let retry = (if moduleActivateRetry c \<noteq> 0 then moduleActivateRetry c - 1
                             else moduleActivateRetry c) in
             seq_act (upd_ctx (\<lambda>c. c\<lparr>moduleActivateRetry := retry\<rparr>))
               (if retry = 0 then seq_act (upd_ctx (\<lambda>c. c\<lparr>moduleIsActivated := 2\<rparr>)) (ret (-2))
                else otasp_call))
      else ret (-2))"

definition save_meid :: "string \<Rightarrow> unit act" where
  "save_meid line =
     bind_act (of_result (ptr_add line 6)) (\<lambda>m.
     seq_act (upd_ctx (\<lambda>c. c\<lparr>ctx_meid := strncpy m 32\<rparr>))
       (bind_act (of_result (cstr (strncpy m 32))) (\<lambda>s.
        upd_ctx (\<lambda>c. c\<lparr>ctx_meid := strncpy (strToUpper s (length s)) 32\<rparr>))))"

definition activate_body :: "int act" where
  "activate_body =
     bind_act (query nonzero ''AT^MEID'' ''^MEID:'') (\<lambda>r. case r of
       None \<Rightarrow> ret (-1)
     | Some line \<Rightarrow>
         seq_act (save_meid line)
           (bind_act (query nonzero ''AT+VMDN?'' ''+VMDN:'') (\<lambda>r. case r of
              None \<Rightarrow> ret (-1)
            | Some line \<Rightarrow>
                bind_act (of_result (ptr_add line 6)) (\<lambda>mdn.
                if \<not> mdn_unset mdn
                then seq_act (upd_ctx (\<lambda>c. c\<lparr>moduleIsActivated := 1, ctx_mdn := strncpy mdn 32\<rparr>)) (ret 0)
                else bind_act (query nonzero ''AT$QCMIPGETP=0'' []) (\<lambda>r. case r of
                       None \<Rightarrow> ret (-2)
                     | Some line \<Rightarrow> activate_carrier line)))))"

definition activateHelper :: "int act" where
  "activateHelper =
     bind_act activate_body (\<lambda>result. seq_act (rilWriteStatus RIL_STATUS_FILEPATH) (ret result))"

section \<open>Upper case\<close>

lemma strToUpper_from_spec:
  "n \<le> m \<Longrightarrow> strToUpper_from n m s = map toupper (take (Suc (m - n)) s) @ drop (Suc (m - n)) s"
proof (induction n m s rule: strToUpper_from.induct)
  case (2 n m c cs)
  show ?case
  proof (cases "Suc n > m")
    case True
    with 2 show ?thesis by auto
  next
    case False
    then have "Suc (m - Suc n) = m - n" by simp
    with 2 False show ?thesis by simp
  qed
qed simp

lemma strToUpper_spec: "strToUpper s m = map toupper (take (Suc m) s) @ drop (Suc m) s"
  by (simp add: strToUpper_def strToUpper_from_spec)

lemma strToUpper_all: "strToUpper s (length s) = map toupper s"
  by (simp add: strToUpper_spec)

end
