(* ===== verification/RilRqst.thy ===== *)
theory RilRqst
  imports RilUtils
begin

text \<open>
  \<^verbatim>\<open>fwril-100/fw100-ril-rqst.c\<close>: the request handlers for the FW100. Each sends its
  queries, takes the answers apart with the tokenizer and completes the request. A handler that
  jumps to its label \<^verbatim>\<open>error\<close> is a body with result \<open>None\<close>.

  \<^verbatim>\<open>getNetworkInfo\<close> stores in its third result a pointer to a local array when the operator
  is found in the table; such a pointer is \<open>StackPtr\<close>, and using it after the return is the
  fault \<open>Dangling\<close>.
\<close>

section \<open>Completion\<close>

text \<open>The two exits most handlers have.\<close>

definition finish :: "token \<Rightarrow> payload option act \<Rightarrow> unit act" where
  "finish t body = bind_act body (\<lambda>r. case r of
       None \<Rightarrow> RIL_onRequestComplete t RIL_E_GENERIC_FAILURE PNull
     | Some p \<Rightarrow> RIL_onRequestComplete t RIL_E_SUCCESS p)"

definition parsed :: "'a option \<Rightarrow> 'a option act" where
  "parsed r = ret r"

section \<open>Radio, version and identity\<close>

definition parse_vpon :: "string \<Rightarrow> unit option" where
  "parse_vpon line =
     Option.bind (tok_start line) (\<lambda>cur.
     Option.bind (tok_bool cur) (\<lambda>(display_en, cur).
     Option.bind (tok_bool cur) (\<lambda>(ps_en, cur). Some ())))"

text \<open>The value read from the modem is replaced by 0.\<close>

definition isRadioOn :: "int act" where
  "isRadioOn =
     bind_act (or_error (query neg ''AT+VPON?'' ''+VPON:'') (\<lambda>line. parsed (parse_vpon line)))
       (\<lambda>r. ret (case r of None \<Rightarrow> -1 | Some () \<Rightarrow> 0))"

text \<open>
  The token at the start of a line and the text \<open>n\<close> characters behind its start, which may lie
  behind the comma that ended the token.
\<close>

definition tok_plus :: "string \<Rightarrow> nat \<Rightarrow> string c_result" where
  "tok_plus line n = (case at_tok_nextstr (Some line) None of (_, pc, cur) \<Rightarrow>
     and_then (deref pc) (\<lambda>s.
       if n \<le> length s then Inr (drop n s)
       else (case cur of
           None \<Rightarrow> Inl OutOfBounds
         | Some r \<Rightarrow> if n - length s - 1 \<le> length r then Inr (drop (n - length s - 1) r)
                     else Inl OutOfBounds)))"

definition requestBasebandVersion :: "token \<Rightarrow> unit act" where
  "requestBasebandVersion t = finish t
     (or_error (query nonzero ''AT+CGMM'' ''+CGMM:'') (\<lambda>line.
      bind_act (of_result (tok_plus line 6)) (\<lambda>pmodel.
      or_error (query nonzero ''AT+GMR'' ''+GMR:'') (\<lambda>line.
      bind_act (of_result (tok_plus line 6)) (\<lambda>psw.
      or_error (query nonzero ''AT^HWVER'' ''^HWVER:'') (\<lambda>line.
      bind_act (of_result (tok_plus line 7)) (\<lambda>phw.
      ret (Some (PStr (take 95 (pmodel @ '' sw:'' @ psw @ '' hw:'' @ phw)))))))))))"

definition trim_0x :: "string \<Rightarrow> string" where
  "trim_0x s = (if starts_with s ''0x'' then drop 2 s else s)"

definition parse_vgmuid :: "string \<Rightarrow> string option" where
  "parse_vgmuid line =
     Option.bind (tok_start line) (\<lambda>cur.
     Option.bind (tok_strs 6 cur) (\<lambda>(_, cur).
     Option.bind (tok_str cur) (\<lambda>(s, _). Some s)))"

definition requestGetIMEI :: "token \<Rightarrow> unit act" where
  "requestGetIMEI t = finish t
     (or_error (query nonzero ''AT+VGMUID?'' ''+VGMUID:'') (\<lambda>line.
      or_error (parsed (parse_vgmuid line)) (\<lambda>s.
      let s = trim_0x s in ret (Some (PStr (strToUpper s (length s)))))))"

definition parse_str :: "string \<Rightarrow> string option" where
  "parse_str line =
     Option.bind (tok_start line) (\<lambda>cur. Option.bind (tok_str cur) (\<lambda>(s, _). Some s))"

definition requestDeviceIdentity :: "token \<Rightarrow> unit act" where
  "requestDeviceIdentity t = finish t
     (or_error (query nonzero ''AT+GSN'' ''+GSN:'') (\<lambda>line.
      or_error (parsed (parse_str line)) (\<lambda>gsn.
      or_error (query nonzero ''AT^MEID'' ''^MEID:'') (\<lambda>line.
      or_error (parsed (parse_str line)) (\<lambda>meid.
      let meid = trim_0x meid in
      ret (Some (PStrs [None, None, Some gsn, Some (strToUpper meid (length meid))])))))))"

section \<open>Operator\<close>

definition operator_info :: "(string \<times> string \<times> string) list" where
  "operator_info =
     [(''310000'', ''Verizon Wireless'', ''VZW''), (''310004'', ''Verizon Wireless'', ''VZW''),
      (''310005'', ''Verizon Wireless'', ''VZW''), (''310012'', ''Verizon Wireless'', ''VZW'')]"

fun find_operator :: "string \<Rightarrow> (string \<times> string \<times> string) list \<Rightarrow> (string \<times> string) option" where
  "find_operator key [] = None"
| "find_operator key ((k, long, short) # ops) =
     (if key = k then Some (long, short) else find_operator key ops)"

datatype char_ptr = StaticPtr string | StackPtr

definition read_ptr :: "char_ptr \<Rightarrow> string c_result" where
  "read_ptr p = (case p of StaticPtr s \<Rightarrow> Inr s | StackPtr \<Rightarrow> Inl Dangling)"

text \<open>
  The search string \<^verbatim>\<open>mccmnc[32]\<close>: \<open>Inr None\<close> is the error exit. The result of the last
  \<^verbatim>\<open>at_tok_nextstr\<close> is not checked, so its token may be uninitialised.
\<close>

definition parse_mccmnc :: "string \<Rightarrow> string option c_result" where
  "parse_mccmnc line = (case
      Option.bind (tok_start line) (\<lambda>cur.
      Option.bind (tok_int cur) (\<lambda>(skip, cur).
      Option.bind (tok_str cur) (\<lambda>(mcc, cur). Some (mcc, cur)))) of
       None \<Rightarrow> Inr None
     | Some (mcc, cur) \<Rightarrow> (case tok_str cur of
           None \<Rightarrow> Inl UninitRead
         | Some (mnc, _) \<Rightarrow>
             if length mcc + length mnc < 32 then Inr (Some (mcc @ mnc)) else Inl OutOfBounds))"

definition carrier_names :: "string \<Rightarrow> string \<times> string \<times> string" where
  "carrier_names line =
     (if strstr line ''sprint'' then (''Sprint PCS'', ''SPCS'', ''310120'')
      else if strstr line ''vzw'' then (''Verizon Wireless'', ''VZW'', ''310004'')
      else (''Unknown Operator'', ''UNK'', ''000000''))"

definition getNetworkInfo :: "(string \<times> string \<times> char_ptr) option act" where
  "getNetworkInfo =
     or_error (query nonzero ''AT+VMCCMNC?'' ''+VMCCMNC:'') (\<lambda>line.
     or_error (of_result (parse_mccmnc line)) (\<lambda>mccmnc.
     or_error
       (case find_operator mccmnc operator_info of
          Some (long, short) \<Rightarrow> ret (Some (long, short, StackPtr))
        | None \<Rightarrow> or_error (query nonzero ''AT$QCMIPGETP=0'' []) (\<lambda>line.
            case carrier_names line of (long, short, code) \<Rightarrow> ret (Some (long, short, StaticPtr code))))
       (\<lambda>(long, short, ptr).
          seq_act (upd_ctx (\<lambda>c. c\<lparr>ctx_carrier := strncpy short 16\<rparr>))
            (seq_act (rilWriteStatus RIL_STATUS_FILEPATH) (ret (Some (long, short, ptr)))))))"

text \<open>\<^verbatim>\<open>RIL_onRequestComplete\<close> reads the strings it is given.\<close>

definition requestOperator :: "token \<Rightarrow> unit act" where
  "requestOperator t = finish t
     (or_error getNetworkInfo (\<lambda>(long, short, ptr).
      seq_act (sys_str (SysPropertyGet ''ro.telephony.display_optname'') ''0'')
        (bind_act (of_result (read_ptr ptr)) (\<lambda>code.
         ret (Some (PStrs [Some long, Some short, Some code]))))))"

definition requestQueryAvailableNetworks :: "token \<Rightarrow> unit act" where
  "requestQueryAvailableNetworks t = finish t
     (or_error getNetworkInfo (\<lambda>(long, short, ptr).
      bind_act (of_result (read_ptr ptr)) (\<lambda>code.
      ret (Some (PStrs [Some long, Some short, Some code, Some ''available''])))))"

text \<open>\<^verbatim>\<open>responseStr[64]\<close>: the copy of the code, then the MEID with the size as limit.\<close>

definition requestGetIMSI :: "token \<Rightarrow> unit act" where
  "requestGetIMSI t = finish t
     (or_error getNetworkInfo (\<lambda>(_, _, ptr).
      or_error (query nonzero ''AT^MEID'' ''^MEID:'') (\<lambda>line.
      or_error (parsed (parse_str line)) (\<lambda>meid.
      let meid = trim_0x meid; meid = strToUpper meid (length meid) in
      bind_act (of_result (read_ptr ptr)) (\<lambda>code.
      bind_act (of_result (cstr (strncpy code 64))) (\<lambda>s.
      if length s + min 64 (length meid) < 64 then ret (Some (PStr (s @ take 64 meid)))
      else fault OutOfBounds))))))"

section \<open>Registration\<close>

definition parse_creg :: "string \<Rightarrow> string option" where
  "parse_creg line =
     Option.bind (tok_start line) (\<lambda>cur.
     Option.bind (tok_ints 3 cur) (\<lambda>(_, cur).
     Option.bind (tok_str cur) (\<lambda>(state, _). Some state)))"

text \<open>The roaming indicator and the protocol revision.\<close>

definition parse_sysinfo :: "string \<Rightarrow> (int \<times> int) option" where
  "parse_sysinfo line =
     Option.bind (tok_start line) (\<lambda>cur.
     Option.bind (tok_ints 2 cur) (\<lambda>(_, cur).
     Option.bind (tok_int cur) (\<lambda>(roaming, cur).
     Option.bind (tok_int cur) (\<lambda>(protocolrev, _). Some (roaming, protocolrev)))))"

definition parse_csnid :: "string \<Rightarrow> (string \<times> string) option" where
  "parse_csnid line =
     Option.bind (tok_start line) (\<lambda>cur.
     Option.bind (tok_str cur) (\<lambda>(sid, cur).
     Option.bind (tok_str cur) (\<lambda>(nid, _). Some (sid, nid))))"

definition parse_vrom :: "string \<Rightarrow> string option" where
  "parse_vrom line =
     Option.bind (tok_start line) (\<lambda>cur.
     Option.bind (tok_int cur) (\<lambda>(skip, cur).
     Option.bind (tok_str cur) (\<lambda>(r, _). Some r)))"

text \<open>Which of the two requests is handled; the radio technology is forced for both.\<close>

datatype reg_request = REG_STATE | REG_GPRS_STATE | REG_OTHER

definition radio_technology :: "reg_request \<Rightarrow> int \<Rightarrow> string" where
  "radio_technology request protocolrev =
     (if request = REG_STATE then ''3'' else if request = REG_GPRS_STATE then ''3''
      else if protocolrev = 8 \<or> protocolrev = 4 then ''8''
      else if protocolrev = 2 then ''6'' else ''0'')"

text \<open>The fields 0 to 14 of \<^verbatim>\<open>RIL_Registration_response\<close>.\<close>

definition registration_response ::
  "reg_request \<Rightarrow> string \<Rightarrow> int \<Rightarrow> string \<Rightarrow> string \<Rightarrow> string \<Rightarrow> string option list" where
  "registration_response request state protocolrev sid nid roaming =
     [Some state, None, None, Some (radio_technology request protocolrev), Some ''0'', Some ''0'',
      Some ''0'', Some ''0'', Some sid, Some nid,
      Some (if atoi roaming > 12 then ''1'' else roaming), Some ''1'', Some ''1'', Some ''0'', None]"

definition requestRegistrationStateEVDO :: "reg_request \<Rightarrow> token \<Rightarrow> unit act" where
  "requestRegistrationStateEVDO request t = finish t
     (or_error (query nonzero ''AT+CREG?'' ''+CREG:'') (\<lambda>line.
      or_error (parsed (parse_creg line)) (\<lambda>state.
      or_error (query nonzero ''AT^SYSINFO'' ''^SYSINFO:'') (\<lambda>line.
      or_error (parsed (parse_sysinfo line)) (\<lambda>(_, protocolrev).
      or_error (query nonzero ''AT+CSNID?'' ''+CSNID:'') (\<lambda>line.
      or_error (parsed (parse_csnid line)) (\<lambda>(sid, nid).
      or_error (query nonzero ''AT+VROM?'' ''+VROM:'') (\<lambda>line.
      or_error (parsed (parse_vrom line)) (\<lambda>roaming.
      ret (Some (PStrs (registration_response request state protocolrev sid nid roaming))))))))))))"

section \<open>Network type\<close>

definition NETWORK_MODE_HYBRID :: int where "NETWORK_MODE_HYBRID = 4"
definition NETWORK_MODE_CDMA_NO_EVDO :: int where "NETWORK_MODE_CDMA_NO_EVDO = 5"
definition NETWORK_MODE_EVDO_NO_CDMA :: int where "NETWORK_MODE_EVDO_NO_CDMA = 6"

definition mode_of_prefmode :: "int \<Rightarrow> int" where
  "mode_of_prefmode mode =
     (if mode = 2 then NETWORK_MODE_CDMA_NO_EVDO else if mode = 4 then NETWORK_MODE_EVDO_NO_CDMA
      else if mode = 8 then NETWORK_MODE_HYBRID else 0)"

definition prefmode_of_mode :: "int \<Rightarrow> int option" where
  "prefmode_of_mode mode =
     (if mode = NETWORK_MODE_CDMA_NO_EVDO then Some 2 else if mode = NETWORK_MODE_EVDO_NO_CDMA then Some 4
      else if mode = NETWORK_MODE_HYBRID then Some 8 else None)"

definition parse_int :: "string \<Rightarrow> int option" where
  "parse_int line =
     Option.bind (tok_start line) (\<lambda>cur. Option.bind (tok_int cur) (\<lambda>(v, _). Some v))"

definition requestGetPreferredNetworkType :: "token \<Rightarrow> unit act" where
  "requestGetPreferredNetworkType t = finish t
     (or_error (query neg ''AT^PREFMODE?'' ''PREFMODE:'') (\<lambda>line.
      or_error (parsed (parse_int line)) (\<lambda>mode.
      ret (Some (PInts [mode_of_prefmode mode])))))"

definition requestSetPreferredNetworkType :: "rdata \<Rightarrow> token \<Rightarrow> unit act" where
  "requestSetPreferredNetworkType data t = finish t
     (bind_act (of_result (data_int data)) (\<lambda>mode.
      or_error (parsed (prefmode_of_mode mode)) (\<lambda>value.
      bind_act (send_only (''AT^PREFMODE='' @ show_d value)) (\<lambda>err.
      ret (if err \<noteq> 0 then None else Some PNull)))))"

section \<open>Signal strength\<close>

definition CDMA_ECIO_DEFAULT :: int where "CDMA_ECIO_DEFAULT = 90"
definition EVDO_ECIO_DEFAULT :: int where "EVDO_ECIO_DEFAULT = 750"
definition EVDO_SNR_DEFAULT :: int where "EVDO_SNR_DEFAULT = 8"

definition evdo_level :: "int \<Rightarrow> int" where
  "evdo_level v =
     (if v = 0 \<or> v = 20 then 105 else if v = 40 then 90 else if v = 60 then 75
      else if v = 80 \<or> v = 99 then 60 else 105)"

text \<open>The answer to \<^verbatim>\<open>AT+NETPAR=0\<close> must have ten integers; the tenth is replaced later.\<close>

definition parse_netpar :: "string \<Rightarrow> unit option" where
  "parse_netpar line =
     Option.bind (tok_start line) (\<lambda>cur. Option.bind (tok_ints 10 cur) (\<lambda>_. Some ()))"

text \<open>
  A failed command completes the request before the jump to \<^verbatim>\<open>error\<close>, which completes it
  again. The file's static copies of the values are written here and read nowhere.
\<close>

definition fail_early :: "token \<Rightarrow> 'a option act \<Rightarrow> 'a option act" where
  "fail_early t m = bind_act m (\<lambda>r. case r of
       None \<Rightarrow> seq_act (RIL_onRequestComplete t RIL_E_GENERIC_FAILURE PNull) (ret None)
     | Some x \<Rightarrow> ret (Some x))"

definition requestSignalStrengthEVDO :: "token \<Rightarrow> unit act" where
  "requestSignalStrengthEVDO t = finish t
     (or_error (fail_early t (query nonzero ''AT+CSQ'' ''+CSQ:'')) (\<lambda>line.
      or_error (parsed (parse_int line)) (\<lambda>rssi.
      or_error (fail_early t (query nonzero ''AT^HDRCSQ'' ''^HDRCSQ:'')) (\<lambda>line.
      or_error (parsed (parse_int line)) (\<lambda>hdr.
      bind_act (query nonzero ''AT+NETPAR=0'' ''+NETPAR:'') (\<lambda>r.
      or_error (case r of None \<Rightarrow> ret (Some ()) | Some line \<Rightarrow> parsed (parse_netpar line)) (\<lambda>_.
      ret (Some (PInts [0, 0, cint (113 - rssi * 2), CDMA_ECIO_DEFAULT, evdo_level hdr,
        EVDO_ECIO_DEFAULT, EVDO_SNR_DEFAULT])))))))))"

section \<open>Screen state\<close>

text \<open>A command, and \<^verbatim>\<open>if (err < 0) goto error\<close>.\<close>

definition send_ok :: "string \<Rightarrow> unit option act" where
  "send_ok cmd = bind_act (send_only cmd) (\<lambda>err. ret (if err < 0 then None else Some ()))"

fun send_all :: "string list \<Rightarrow> unit option act" where
  "send_all [] = ret (Some ())"
| "send_all (c # cs) = or_error (send_ok c) (\<lambda>_. send_all cs)"

definition requestScreenState :: "rdata \<Rightarrow> token \<Rightarrow> unit act" where
  "requestScreenState data t = finish t
     (bind_act (of_result (asserted_int data)) (\<lambda>s.
      if s = 1
      then or_error (send_all [''AT+ARSI=1,4'', ''AT+CREG=1'', ''AT+VMCCMNC=1'', ''AT+VSER=1'']) (\<lambda>_.
           seq_act (RIL_onUnsolicitedResponse RIL_UNSOL_RESPONSE_NETWORK_STATE_CHANGED PNull)
             (seq_act (upd_ctx (\<lambda>c. c\<lparr>screenState := SCREEN_IS_ON\<rparr>)) (ret (Some PNull))))
      else if s = 0
      then or_error (send_all [''AT+ARSI=0,4'', ''AT+CREG=0'', ''AT+VMCCMNC=0'', ''AT+VSER=0'']) (\<lambda>_.
           seq_act (upd_ctx (\<lambda>c. c\<lparr>screenState := SCREEN_IS_OFF\<rparr>)) (ret (Some PNull)))
      else ret None))"

section \<open>Short messages\<close>

text \<open>The last character of the text is overwritten with Ctrl-Z unless it is one.\<close>

definition ctrlz_pdu :: "string \<Rightarrow> string c_result" where
  "ctrlz_pdu pdu =
     (if pdu = [] then Inl OutOfBounds
      else Inr (if last pdu \<noteq> CHR 0x1A then butlast pdu @ [CHR 0x1A] else pdu))"

text \<open>
  \<^verbatim>\<open>sprintf(tmp, "smsc=%s pdu=%s ctrlz=%d nulsmsc=%d\n", ...)\<close> into \<^verbatim>\<open>tmp[128]\<close>: 29
  characters and the terminator besides the two strings.
\<close>

definition sms_log_fits :: "string \<Rightarrow> string \<Rightarrow> bool" where
  "sms_log_fits smsc pdu \<longleftrightarrow> length smsc + length pdu + 29 < 128"

definition requestSendSMSEVDO :: "rdata \<Rightarrow> token \<Rightarrow> unit act" where
  "requestSendSMSEVDO data t = finish t
     (seq_act (send_only ''at+cmgf=1'')
       (bind_act (of_result (data_str data 0)) (\<lambda>smsc.
        bind_act (of_result (and_then (data_str data 1) deref)) (\<lambda>pdu.
        bind_act (of_result (ctrlz_pdu pdu)) (\<lambda>pdu.
        let smsc = (case smsc of None \<Rightarrow> ''00'' | Some s \<Rightarrow> s) in
        if \<not> sms_log_fits smsc pdu then fault OutOfBounds
        else or_error (checked nonzero
               (at_send_command_sms CommandThread (''AT^HCMGS='' @ smsc) pdu ''^HCMGS:'' True)) (\<lambda>_.
             ret (Some PSms)))))))"

section \<open>Calls\<close>

definition clccStateToRILState :: "int \<Rightarrow> call_state option" where
  "clccStateToRILState state =
     (if state = 0 then Some RIL_CALL_ACTIVE else if state = 1 then Some RIL_CALL_HOLDING
      else if state = 2 then Some RIL_CALL_DIALING else if state = 3 then Some RIL_CALL_ALERTING
      else if state = 4 then Some RIL_CALL_INCOMING else if state = 5 then Some RIL_CALL_WAITING
      else None)"

definition number_ok :: "string \<Rightarrow> bool" where
  "number_ok s \<longleftrightarrow> (case s of [] \<Rightarrow> False | c # _ \<Rightarrow> c \<in> set ''+*#0123456789'') \<or>
     s = ''Restricted'' \<or> s = ''NotAvailable'' \<or> s = ''UNKNOWN''"

text \<open>
  The tail of a line: the number, which may be missing, and its type. The slot is updated field
  by field; at an error what has been stored stays. A type that does not parse is stored as well,
  by \<^verbatim>\<open>at_tok_nextint\<close>, before the error is seen.
\<close>

definition call_number :: "cursor \<Rightarrow> RIL_Call \<Rightarrow> int \<times> RIL_Call" where
  "call_number cur c =
     (if at_tok_hasmore cur
      then (case at_tok_nextstr cur (c_number c) of (err, number, cur) \<Rightarrow>
        if err < 0 then (0, c)
        else (let c = c\<lparr>c_number := (case number of None \<Rightarrow> None
                        | Some s \<Rightarrow> if number_ok s then Some s else None)\<rparr> in
          (case at_tok_nextint cur (c_toa c) of (err, toa, _) \<Rightarrow>
             (if err < 0 then -1 else 0, c\<lparr>c_toa := toa\<rparr>))))
      else (0, c))"

definition callFromCLCCLine :: "string \<Rightarrow> RIL_Call \<Rightarrow> int \<times> RIL_Call" where
  "callFromCLCCLine line c =
     (case at_tok_start (Some line) of (err, cur) \<Rightarrow> if err < 0 then (-1, c) else
     (case at_tok_nextint cur (c_index c) of (err, index, cur) \<Rightarrow>
       let c = c\<lparr>c_index := index\<rparr> in if err < 0 then (-1, c) else
     (case at_tok_nextbool cur (Some (c_isMT c)) of (err, isMT, cur) \<Rightarrow>
       let c = c\<lparr>c_isMT := the isMT\<rparr> in if err < 0 then (-1, c) else
     (case at_tok_nextint cur 0 of (err, state, cur) \<Rightarrow> if err < 0 then (-1, c) else
     (case clccStateToRILState state of None \<Rightarrow> (-1, c) | Some st \<Rightarrow>
       let c = c\<lparr>c_state := st\<rparr> in
     (case at_tok_nextint cur 0 of (err, mode, cur) \<Rightarrow> if err < 0 then (-1, c) else
       let c = c\<lparr>c_isVoice := (mode = 0)\<rparr> in if \<not> c_isVoice c then (-1, c) else
     (case at_tok_nextbool cur (Some (c_isMpty c)) of (err, isMpty, cur) \<Rightarrow>
       let c = c\<lparr>c_isMpty := the isMpty\<rparr> in if err < 0 then (-1, c) else
     call_number cur c)))))))"

definition zero_call :: RIL_Call where
  "zero_call = \<lparr>c_state = RIL_CALL_ACTIVE, c_index = 0, c_toa = 0, c_isMpty = 0, c_isMT = 0,
     c_isVoice = False, c_number = None\<rparr>"

text \<open>
  The loop over the lines: \<open>calls\<close> is the array, \<open>k\<close> the number of valid calls. The index
  is stored in the first element of the array, whatever \<open>k\<close> is.
\<close>

fun collect_calls :: "string list \<Rightarrow> nat \<Rightarrow> RIL_Call list \<Rightarrow> RIL_Call list" where
  "collect_calls [] k calls = take k calls"
| "collect_calls (l # ls) k calls =
     (case callFromCLCCLine l (calls ! k) of (err, c) \<Rightarrow>
        let calls = calls[k := c] in
        if err \<noteq> 0 then collect_calls ls k calls
        else collect_calls ls (Suc k) (calls[0 := (calls ! 0)\<lparr>c_index := int k + 1\<rparr>]))"

definition requestGetCurrentCallsEVDO :: "token \<Rightarrow> unit act" where
  "requestGetCurrentCallsEVDO t = finish t
     (or_error (checked nonzero (at_send_command_multiline CommandThread ''AT+CLCC'' ''+CLCC:'' True)) (\<lambda>r.
      let ls = p_intermediates r in
      ret (Some (PCalls (collect_calls ls 0 (replicate (length ls) zero_call))))))"

end
