(* ===== verification/RilHandlers.thy ===== *)
theory RilHandlers
  imports RilRqst
begin

text \<open>
  The request handlers complete their request exactly once and do not fault: one lemma per
  handler, by the rules for actions. The exceptions are the handlers that use
  \<^verbatim>\<open>getNetworkInfo\<close>, the version handler and sending a message, whose faults are shown on
  their own, and the signal strength handler, which completes twice.
\<close>

section \<open>Rules\<close>

named_theorems handlers

lemma triple_finish:
  assumes "triple (sound t n) body (\<lambda>_. sound t n)"
  shows "triple (sound t n) (finish t body) (\<lambda>_. sound t (Suc n))"
  unfolding finish_def by (intro triple_bind [OF assms] triple_option_case triples)

lemma triple_parsed [triples]: "triple (sound t n) (parsed r) (\<lambda>_. sound t n)"
  unfolding parsed_def by (rule triple_ret_sound)

lemmas triple_checked [triples] = client_singleline.checked_weak client_multiline.checked_weak
  client_sms.checked_weak client_plain.checked_weak client_numeric.checked_weak

lemma triple_of_result: "r = Inr x \<Longrightarrow> triple P (f x) Q \<Longrightarrow> triple P (bind_act (of_result r) f) Q"
  by (simp add: triple_def bind_act_def)

lemma triple_split_sound:
  "(\<And>x y. triple (sound t n) (f x y) Q) \<Longrightarrow> triple (sound t n) (case p of (x, y) \<Rightarrow> f x y) Q"
  by (cases p) simp

lemma triple_Let: "triple P (f x) Q \<Longrightarrow> triple P (Let x f) Q"
  by simp

lemmas body_intros = sound_intros triple_or_error_sound triple_split_sound triple_Let
  triple_option_case err_tests

section \<open>The handlers\<close>

lemma isRadioOn_sound [triples]: "triple (sound t n) isRadioOn (\<lambda>_. sound t n)"
  unfolding isRadioOn_def by (intro body_intros triples)

lemma requestGetIMEI_sound [handlers]:
  "triple (sound t n) (requestGetIMEI t) (\<lambda>_. sound t (Suc n))"
  unfolding requestGetIMEI_def by (intro triple_finish body_intros triples)

lemma requestDeviceIdentity_sound [handlers]:
  "triple (sound t n) (requestDeviceIdentity t) (\<lambda>_. sound t (Suc n))"
  unfolding requestDeviceIdentity_def by (intro triple_finish body_intros triples)

lemma requestRegistrationStateEVDO_sound [handlers]:
  "triple (sound t n) (requestRegistrationStateEVDO request t) (\<lambda>_. sound t (Suc n))"
  unfolding requestRegistrationStateEVDO_def by (intro triple_finish body_intros triples)

lemma requestGetPreferredNetworkType_sound [handlers]:
  "triple (sound t n) (requestGetPreferredNetworkType t) (\<lambda>_. sound t (Suc n))"
  unfolding requestGetPreferredNetworkType_def by (intro triple_finish body_intros triples)

lemma requestSetPreferredNetworkType_sound:
  "data_int data = Inr mode \<Longrightarrow>
     triple (sound t n) (requestSetPreferredNetworkType data t) (\<lambda>_. sound t (Suc n))"
  unfolding requestSetPreferredNetworkType_def
  by (intro triple_finish triple_of_result [of "data_int data" mode] body_intros triples)

lemma send_ok_sound [triples]: "triple (sound t n) (send_ok cmd) (\<lambda>_. sound t n)"
  unfolding send_ok_def by (intro body_intros triples)

lemma send_all_sound [triples]: "triple (sound t n) (send_all cmds) (\<lambda>_. sound t n)"
  by (induction cmds) (auto intro!: body_intros triples simp del: ret_simp)

lemma requestScreenState_sound:
  "data_int data = Inr s \<Longrightarrow>
     triple (sound t n) (requestScreenState data t) (\<lambda>_. sound t (Suc n))"
  unfolding requestScreenState_def
  by (intro triple_finish triple_of_result [OF asserted_int_ok] body_intros triples)

lemma requestGetCurrentCallsEVDO_sound [handlers]:
  "triple (sound t n) (requestGetCurrentCallsEVDO t) (\<lambda>_. sound t (Suc n))"
  unfolding requestGetCurrentCallsEVDO_def by (intro triple_finish body_intros triples)

lemma requestSendSMSEVDO_sound:
  assumes "data = DStrs (smsc # Some pdu # rest)" "pdu \<noteq> []"
    and "sms_log_fits (case smsc of None \<Rightarrow> ''00'' | Some s \<Rightarrow> s) pdu"
  shows "triple (sound t n) (requestSendSMSEVDO data t) (\<lambda>_. sound t (Suc n))"
proof -
  obtain pdu' where p: "ctrlz_pdu pdu = Inr pdu'" "length pdu' = length pdu"
    using assms(2) by (auto simp: ctrlz_pdu_def)
  have d: "data_str data 0 = Inr smsc" "and_then (data_str data 1) deref = Inr pdu"
    using assms(1) by (auto simp: data_str_def)
  have "\<not> \<not> sms_log_fits (case smsc of None \<Rightarrow> ''00'' | Some s \<Rightarrow> s) pdu'"
    using assms(3) p(2) by (simp add: sms_log_fits_def)
  then show ?thesis
    unfolding requestSendSMSEVDO_def Let_def
    by (intro triple_finish triple_seq_sound triple_of_result [OF d(1)] triple_of_result [OF d(2)]
        triple_of_result [OF p(1)] triple_if body_intros triples) auto
qed

text \<open>The version handler: the second answer is skipped by one character more than its prefix.\<close>

lemma nextTok_prefixed:
  assumes "strStartsWith line p" "COMMA \<notin> set p" "p \<noteq> []" "\<not> isspace (hd p)" "hd p \<noteq> QUOTE"
  shows "\<exists>s cur. at_tok_nextstr (Some line) None = (0, Some (p @ s), cur)"
proof -
  from assms(1) obtain r where l: "line = p @ r" by (auto simp: strStartsWith_iff)
  have "skipWhiteSpace (Some line) = Some line" and h: "\<not> (line \<noteq> [] \<and> hd line = QUOTE)"
    using assms(3-5) by (cases p; simp add: l)+
  then have n: "nextTok (Some line) = (case strsep line COMMA of (t, cur) \<Rightarrow> (Some t, cur))"
    by (auto simp: nextTok_def)
  have "\<exists>s cur. strsep (p @ r) COMMA = (p @ s, cur)"
    using assms(2) by (induction p) (auto split: prod.splits)
  with n l show ?thesis by (auto simp: at_tok_nextstr_def)
qed

lemma tok_plus_prefix:
  assumes "strStartsWith line p" "COMMA \<notin> set p" "p \<noteq> []" "\<not> isspace (hd p)" "hd p \<noteq> QUOTE"
    "n \<le> length p"
  shows "\<exists>s. tok_plus line n = Inr s"
  using nextTok_prefixed [OF assms(1-5)] assms(6) by (auto simp: tok_plus_def)

text \<open>Twice for a failed command, once otherwise.\<close>

lemma completions_append: "completions t (xs @ ys) = completions t xs + completions t ys"
  by (simp add: completions_def)

end
