(* ===== verification/RilData.thy ===== *)
theory RilData
  imports RilHandlers
begin

text \<open>
  \<^verbatim>\<open>fwril-100/fw100-ril-data.c\<close>: packet data calls through \<^verbatim>\<open>pppd\<close>, and
  \<^verbatim>\<open>fwril-100/fw100-ril-timer.c\<close>: the polls the main loop makes while the screen is on.
\<close>

section \<open>The data call\<close>

text \<open>
  The loop of \<^verbatim>\<open>poll_ppp_linkstate\<close> with the number of tries left: the address and the
  flags when the link is up. A failed \<^verbatim>\<open>ifc_get_info\<close> is tried again without a pause.
\<close>

fun ppp_tries :: "string \<Rightarrow> nat \<Rightarrow> nat option act" where
  "ppp_tries ifname 0 = ret None"
| "ppp_tries ifname (Suc n) =
     bind_act (sys (SysIfcInfo ifname)) (\<lambda>r. case r of
       RIfc rc addr netmask flags \<Rightarrow>
         if rc \<noteq> 0 then ppp_tries ifname n
         else if odd flags then ret (Some addr)
         else seq_act (sys_int (SysSleep 1)) (ppp_tries ifname n)
     | _ \<Rightarrow> ppp_tries ifname n)"

definition poll_ppp_linkstate :: "string \<Rightarrow> nat \<Rightarrow> (nat \<times> int) option act" where
  "poll_ppp_linkstate ifname max_retry =
     bind_act (sys_int SysIfcInit) (\<lambda>rc.
     if rc \<noteq> 0 then ret None
     else or_error (ppp_tries ifname max_retry) (\<lambda>addr.
          bind_act (sys_int (SysDefaultRoute ifname)) (\<lambda>gway. ret (Some (addr, gway)))))"

text \<open>\<^verbatim>\<open>sscanf(buffer, "%*s %s", name)\<close>: the second word.\<close>

definition second_word :: "string \<Rightarrow> string option" where
  "second_word buf =
     (let w = takeWhile (\<lambda>c. \<not> isspace c)
                (dropWhile isspace (dropWhile (\<lambda>c. \<not> isspace c) (dropWhile isspace buf)))
      in if w = [] then None else Some w)"

text \<open>\<^verbatim>\<open>strtol(s, NULL, 0)\<close>\<close>

definition strtol_0 :: "string \<Rightarrow> int" where
  "strtol_0 s = fst (strtol (if starts_with s ''0x'' \<or> starts_with s ''0X'' then 16
                            else if starts_with s ''0'' then 8 else 10) s)"

fun findPidByName :: "(string \<times> string option) list \<Rightarrow> string \<Rightarrow> int c_result" where
  "findPidByName [] pidName = Inr (-1)"
| "findPidByName ((d_name, status) # ps) pidName =
     (if d_name = ''..'' then findPidByName ps pidName
      else if \<not> line_is_digit d_name then findPidByName ps pidName
      else (case status of
          None \<Rightarrow> findPidByName ps pidName
        | Some buffer \<Rightarrow> (case second_word (take 510 buffer) of
              None \<Rightarrow> Inl UninitRead
            | Some name \<Rightarrow> if name = pidName then Inr (strtol_0 d_name) else findPidByName ps pidName)))"

definition killPppd :: "unit act" where
  "killPppd =
     bind_act (sys SysReadProc) (\<lambda>r.
     bind_act (of_result (findPidByName (case r of RProcs ps \<Rightarrow> ps | _ \<Rightarrow> []) ''pppd'')) (\<lambda>pid.
     if pid > 0 then seq_act (sys_int (SysKill pid)) (ret ()) else ret ()))"

definition requestDataCallList :: "token \<Rightarrow> unit act" where
  "requestDataCallList t =
     bind_act get_ctx (\<lambda>c.
     seq_act (RIL_onRequestComplete t RIL_E_SUCCESS (PDataCall
        (if inDataCall c \<noteq> 0
         then \<lparr>dc_cid = 1, dc_active = 2, dc_type = Some ''PPP'', dc_apn = Some ''internet'',
               dc_address = Some (dataCallLocalIP c)\<rparr>
         else \<lparr>dc_cid = 1, dc_active = 0, dc_type = None, dc_apn = None, dc_address = None\<rparr>)))
       (RIL_onRequestComplete t RIL_E_GENERIC_FAILURE PNull))"

text \<open>\<^verbatim>\<open>inet_ntop\<close> of an address in network order on a little-endian machine.\<close>

definition inet_ntop :: "nat \<Rightarrow> string" where
  "inet_ntop a = show_d (int (a mod 256)) @ ''.'' @ show_d (int (a div 256 mod 256)) @ ''.'' @
     show_d (int (a div 65536 mod 256)) @ ''.'' @ show_d (int (a div 16777216 mod 256))"

text \<open>\<^verbatim>\<open>sprintf(tmp, "/system/bin/pppd call %s", ...)\<close> into \<^verbatim>\<open>tmp[128]\<close>\<close>

definition pppd_command :: "string \<Rightarrow> string c_result" where
  "pppd_command dev =
     (let cmd = ''/system/bin/pppd call '' @ dev
      in if length cmd < 128 then Inr cmd else Inl OutOfBounds)"

text \<open>\<^verbatim>\<open>property_get(name, dns, "0")\<close> into \<^verbatim>\<open>dns[64]\<close>\<close>

definition get_dns :: "string \<Rightarrow> string act" where
  "get_dns name = bind_act (sys_str (SysPropertyGet name) ''0'') (\<lambda>s.
     if length s < 64 then ret s else fault OutOfBounds)"

definition requestSetupDataCallEVDO :: "token \<Rightarrow> unit act" where
  "requestSetupDataCallEVDO t = finish t
     (bind_act get_ctx (\<lambda>c.
      bind_act (of_result (pppd_command (s_data_devname c))) (\<lambda>cmd.
      bind_act (sys_int (SysSystem cmd)) (\<lambda>rc.
      if rc < 0 then ret None
      else or_error (poll_ppp_linkstate ''ppp0'' 30) (\<lambda>(addr, gway).
        seq_act (upd_ctx (\<lambda>c. c\<lparr>inDataCall := DATA_STATE_CONNECTED, dataCallLocalIP := inet_ntop addr,
                  dataCallGateway := inet_ntop (nat (gway mod 4294967296))\<rparr>))
          (bind_act (get_dns ''net.dns1'') (\<lambda>dns1.
           bind_act (get_dns ''net.dns2'') (\<lambda>dns2.
           bind_act get_ctx (\<lambda>c.
           if length dns1 + 1 + length dns2 < 128
           then ret (Some (PStrs [Some ''1'', Some ''ppp0'', Some (dataCallLocalIP c),
                  Some (dns1 @ '' '' @ dns2), Some (dataCallGateway c)]))
           else fault OutOfBounds)))))))))"

definition requestDeactivateDataCallEVDO :: "rdata \<Rightarrow> token \<Rightarrow> unit act" where
  "requestDeactivateDataCallEVDO data t =
     bind_act (of_result (data_str data 0)) (\<lambda>cid.
     seq_act (send_only ''ATH'')
       (seq_act (sys_int (SysSleep 2))
         (seq_act killPppd
           (seq_act (upd_ctx (\<lambda>c. c\<lparr>inDataCall := DATA_STATE_DISCONNECTED\<rparr>))
             (seq_act (RIL_onRequestComplete t RIL_E_SUCCESS PNull)
               (seq_act (sys_int (SysSleep 2))
                 (RIL_onUnsolicitedResponse RIL_UNSOL_RESPONSE_NETWORK_STATE_CHANGED PNull)))))))"

text \<open>The cause \<^verbatim>\<open>PDP_FAIL_ERROR_UNSPECIFIED\<close> is a constant of \<^verbatim>\<open>ril.h\<close>.\<close>

definition requestDataCallFailCause :: "int \<Rightarrow> token \<Rightarrow> unit act" where
  "requestDataCallFailCause PDP_FAIL_ERROR_UNSPECIFIED t =
     RIL_onRequestComplete t RIL_E_SUCCESS (PInts [PDP_FAIL_ERROR_UNSPECIFIED])"

definition link_change :: "(fw100SessionCtx \<Rightarrow> fw100SessionCtx) \<Rightarrow> (fw100SessionCtx \<Rightarrow> RIL_Data_Call_Response c_result) \<Rightarrow>
    unit act" where
  "link_change f response =
     seq_act (upd_ctx f)
       (bind_act get_ctx (\<lambda>c.
        bind_act (of_result (response c)) (\<lambda>r.
        seq_act (RIL_onUnsolicitedResponse RIL_UNSOL_DATA_CALL_LIST_CHANGED (PDataCall r))
          (seq_act (rilWriteStatus RIL_STATUS_FILEPATH) (ret ())))))"

definition pppAutomatic :: "int act" where
  "pppAutomatic =
     bind_act (poll_ppp_linkstate ''ppp0'' 30) (\<lambda>up.
     bind_act get_ctx (\<lambda>c.
     case up of
       Some (addr, gway) \<Rightarrow>
         seq_act
           (if inDataCall c \<noteq> DATA_STATE_CONNECTED
            then link_change (\<lambda>c. c\<lparr>inDataCall := DATA_STATE_CONNECTED, dataCallLocalIP := inet_ntop addr\<rparr>)
              (\<lambda>c. and_then (cstr (ctx_carrier c)) (\<lambda>apn. Inr \<lparr>dc_cid = 1, dc_active = 2,
                 dc_type = Some ''IP'', dc_apn = Some apn, dc_address = Some (dataCallLocalIP c)\<rparr>))
            else ret ()) (ret 0)
     | None \<Rightarrow>
         seq_act
           (if inDataCall c = DATA_STATE_CONNECTED
            then link_change (\<lambda>c. c\<lparr>inDataCall := DATA_STATE_DISCONNECTED, dataCallLocalIP := []\<rparr>)
              (\<lambda>c. Inr \<lparr>dc_cid = 1, dc_active = 0, dc_type = None, dc_apn = None, dc_address = None\<rparr>)
            else ret ())
           (bind_act (of_result (pppd_command (s_data_devname c))) (\<lambda>cmd.
            bind_act (sys_int (SysSystem cmd)) (\<lambda>rc. ret (if rc < 0 then -1 else 0))))))"

section \<open>The timer\<close>

text \<open>
  \<^verbatim>\<open>strncmp(saved, line, max)\<close> with \<^verbatim>\<open>max\<close> the length of the line, at most the size of
  the array: whether the line is the same text, or a beginning of it (the comment in the source says
  \<^verbatim>\<open>no change\<close>).
\<close>

definition unchanged :: "char list \<Rightarrow> string \<Rightarrow> bool" where
  "unchanged saved line \<longleftrightarrow> (let m = min 64 (length line) in take m saved = take m line)"

definition pollNetworkRegistration :: "unit act" where
  "pollNetworkRegistration =
     bind_act (query nonzero ''AT+CREG?'' ''+CREG:'') (\<lambda>r. case r of
       None \<Rightarrow> ret ()
     | Some line \<Rightarrow> (\<lambda>w.
         if unchanged (pollSavedCREG w) line then Inr ((), w)
         else seq_act (upd (\<lambda>w. w\<lparr>pollSavedCREG := strncpy line 64\<rparr>))
                (RIL_onUnsolicitedResponse RIL_UNSOL_RESPONSE_NETWORK_STATE_CHANGED PNull) w))"

definition parse_csq :: "string \<Rightarrow> (int \<times> int) option" where
  "parse_csq line =
     Option.bind (tok_start line) (\<lambda>cur.
     Option.bind (tok_int cur) (\<lambda>(rssi, cur).
     Option.bind (tok_int cur) (\<lambda>(ber, _). Some (rssi, ber))))"

definition pollSignalStrength :: "unit act" where
  "pollSignalStrength =
     bind_act (query neg ''AT+CSQ'' ''+CSQ:'') (\<lambda>r. case r of
       None \<Rightarrow> ret ()
     | Some line \<Rightarrow> (\<lambda>w.
         if unchanged (pollSavedCSQ w) line then Inr ((), w)
         else seq_act (upd (\<lambda>w. w\<lparr>pollSavedCSQ := strncpy line 64\<rparr>))
                (case parse_csq line of
                   None \<Rightarrow> ret ()
                 | Some (rssi, ber) \<Rightarrow>
                     RIL_onUnsolicitedResponse RIL_UNSOL_SIGNAL_STRENGTH (PInts [rssi, ber, 0, 0, 0, 0, 0])) w))"

definition fw100ModemTimer :: "unit act" where
  "fw100ModemTimer =
     seq_act pollSignalStrength
       (seq_act pollNetworkRegistration
         (bind_act get_ctx (\<lambda>c.
          seq_act (if gpsFifoEnable c
                   then seq_act (rilWriteGPSFifo RIL_GPS_FIFOPATH
                          ''$GPGLL,3307.055350,N,11718.467958,W,234014.000,A,A*45'') (ret ()) else ret ())
            (if gpsTtyEnable c
             then seq_act (rilWriteGPSTty (Some ''$GPGSA,A,3,22,03,19,09,,,,,,,,,2.55,2.37,0.94*09'') 0)
                    (ret ()) else ret ()))))"

section \<open>Rules\<close>

lemma ppp_tries_sound [triples]: "triple (sound t n) (ppp_tries ifname k) (\<lambda>_. sound t n)"
proof (induction k)
  case (Suc k)
  show ?case unfolding ppp_tries.simps
    by (rule triple_bind_sound [OF triple_sys])
      (auto split: os_ret.splits intro!: Suc body_intros triples simp del: ret_simp)
qed (simp del: ret_simp add: triple_ret_sound)

lemma poll_ppp_sound [triples]: "triple (sound t n) (poll_ppp_linkstate ifname k) (\<lambda>_. sound t n)"
  unfolding poll_ppp_linkstate_def by (intro body_intros triples)

lemma triple_saving [triples]:
  "triple (sound t n) (upd (\<lambda>w. w\<lparr>pollSavedCREG := s\<rparr>)) (\<lambda>_. sound t n)"
  "triple (sound t n) (upd (\<lambda>w. w\<lparr>pollSavedCSQ := s\<rparr>)) (\<lambda>_. sound t n)"
  by (simp_all add: triple_def sound_def)

lemma triple_world_if:
  "triple P m Q \<Longrightarrow> triple P k Q \<Longrightarrow> triple P (\<lambda>w. if b w then m w else k w) Q"
  by (simp add: triple_def)

lemma triple_stay: "triple (sound t n) (\<lambda>w. Inr ((), w)) (\<lambda>_. sound t n)"
  by (simp add: triple_def)

lemma pollNetworkRegistration_sound [triples]:
  "triple (sound t n) pollNetworkRegistration (\<lambda>_. sound t n)"
  unfolding pollNetworkRegistration_def
  by (intro body_intros triples triple_world_if triple_stay)

lemma pollSignalStrength_sound [triples]:
  "triple (sound t n) pollSignalStrength (\<lambda>_. sound t n)"
  unfolding pollSignalStrength_def
  by (intro body_intros triples triple_world_if triple_stay)

lemma fw100ModemTimer_sound: "triple (sound t n) fw100ModemTimer (\<lambda>_. sound t n)"
  unfolding fw100ModemTimer_def
  by (intro body_intros triples triple_gps gps_act_Fifo gps_act_Tty)

lemma requestDataCallFailCause_sound [handlers]:
  "triple (sound t n) (requestDataCallFailCause cause t) (\<lambda>_. sound t (Suc n))"
  unfolding requestDataCallFailCause_def by (rule triples)

end
