(* ===== verification/RilInfo.thy ===== *)
theory RilInfo
  imports Prelude
begin

text \<open>
  \<^verbatim>\<open>fwril-100/rilinfo.c\<close>: the table of requests with their product profile, its two linear
  searches, and \<^verbatim>\<open>onSupports\<close>. The numbers of the requests come from Android's
  \<^verbatim>\<open>ril.h\<close>: they are the parameter \<open>code\<close>. The searches end at the entry with number 0,
  so they rely on no request having this number.
\<close>

section \<open>Data\<close>

datatype (plugins only: code) ril_request =
    RIL_REQUEST_GET_SIM_STATUS | RIL_REQUEST_GET_CURRENT_CALLS
  | RIL_REQUEST_DIAL | RIL_REQUEST_SCREEN_STATE
  | RIL_REQUEST_EXIT_EMERGENCY_CALLBACK_MODE | RIL_REQUEST_SET_MUTE
  | RIL_REQUEST_CDMA_FLASH | RIL_REQUEST_HANGUP
  | RIL_REQUEST_HANGUP_WAITING_OR_BACKGROUND | RIL_REQUEST_HANGUP_FOREGROUND_RESUME_BACKGROUND
  | RIL_REQUEST_SWITCH_WAITING_OR_HOLDING_AND_ACTIVE | RIL_REQUEST_ANSWER
  | RIL_REQUEST_CONFERENCE | RIL_REQUEST_UDUB
  | RIL_REQUEST_SEPARATE_CONNECTION | RIL_REQUEST_SIGNAL_STRENGTH
  | RIL_REQUEST_REGISTRATION_STATE | RIL_REQUEST_GPRS_REGISTRATION_STATE
  | RIL_REQUEST_OPERATOR | RIL_REQUEST_CDMA_SUBSCRIPTION
  | RIL_REQUEST_DEVICE_IDENTITY | RIL_REQUEST_RADIO_POWER
  | RIL_REQUEST_QUERY_FACILITY_LOCK | RIL_REQUEST_SET_FACILITY_LOCK
  | RIL_REQUEST_DTMF | RIL_REQUEST_DTMF_START
  | RIL_REQUEST_DTMF_STOP | RIL_REQUEST_CDMA_BURST_DTMF
  | RIL_REQUEST_SEND_SMS | RIL_REQUEST_SETUP_DATA_CALL
  | RIL_REQUEST_LAST_DATA_CALL_FAIL_CAUSE | RIL_REQUEST_DEACTIVATE_DATA_CALL
  | RIL_REQUEST_SMS_ACKNOWLEDGE | RIL_REQUEST_GET_IMSI
  | RIL_REQUEST_BASEBAND_VERSION | RIL_REQUEST_GET_IMEI
  | RIL_REQUEST_SET_PREFERRED_NETWORK_TYPE | RIL_REQUEST_GET_PREFERRED_NETWORK_TYPE
  | RIL_REQUEST_SIM_IO | RIL_REQUEST_SEND_USSD
  | RIL_REQUEST_CANCEL_USSD | RIL_REQUEST_QUERY_NETWORK_SELECTION_MODE
  | RIL_REQUEST_SET_NETWORK_SELECTION_AUTOMATIC | RIL_REQUEST_SET_NETWORK_SELECTION_MANUAL
  | RIL_REQUEST_QUERY_AVAILABLE_NETWORKS | RIL_REQUEST_DATA_CALL_LIST
  | RIL_REQUEST_OEM_HOOK_RAW | RIL_REQUEST_OEM_HOOK_STRINGS
  | RIL_REQUEST_WRITE_SMS_TO_SIM | RIL_REQUEST_DELETE_SMS_ON_SIM
  | RIL_REQUEST_ENTER_SIM_PIN | RIL_REQUEST_ENTER_SIM_PIN2
  | RIL_REQUEST_ENTER_SIM_PUK2 | RIL_REQUEST_CHANGE_SIM_PIN
  | RIL_REQUEST_CHANGE_SIM_PIN2 | RIL_REQUEST_ENTER_SIM_PUK
  | RIL_REQUEST_CDMA_SEND_SMS | RIL_REQUEST_CDMA_WRITE_SMS_TO_RUIM
  | RIL_REQUEST_CDMA_DELETE_SMS_ON_RUIM | RIL_REQUEST_CDMA_SMS_ACKNOWLEDGE
  | RIL_REQUEST_STK_SET_PROFILE | RIL_REQUEST_STK_SEND_ENVELOPE_COMMAND
  | RIL_REQUEST_STK_SEND_TERMINAL_RESPONSE | RIL_REQUEST_CDMA_SET_PREFERRED_VOICE_PRIVACY_MODE
  | RIL_REQUEST_CDMA_QUERY_PREFERRED_VOICE_PRIVACY_MODE

datatype profile = RRI_PROFILE_1 | RRI_PROFILE_2 | RRI_PROFILE_NS

fun profile_num :: "profile \<Rightarrow> int" where
  "profile_num RRI_PROFILE_1 = 1"
| "profile_num RRI_PROFILE_2 = 2"
| "profile_num RRI_PROFILE_NS = 9"

definition RRI_MY_PROFILE :: int where
  "RRI_MY_PROFILE = profile_num RRI_PROFILE_1"

record ril_request_info =
  info_id :: int
  info_profile :: int
  info_name :: string

definition request_table :: "(ril_request \<times> profile \<times> string) list" where
  "request_table = [
      (RIL_REQUEST_GET_SIM_STATUS, RRI_PROFILE_NS, ''RIL_REQUEST_GET_SIM_STATUS''),
      (RIL_REQUEST_GET_CURRENT_CALLS, RRI_PROFILE_1, ''RIL_REQUEST_GET_CURRENT_CALLS''),
      (RIL_REQUEST_DIAL, RRI_PROFILE_NS, ''RIL_REQUEST_DIAL''),
      (RIL_REQUEST_SCREEN_STATE, RRI_PROFILE_1, ''RIL_REQUEST_SCREEN_STATE''),
      (RIL_REQUEST_EXIT_EMERGENCY_CALLBACK_MODE, RRI_PROFILE_2, ''RIL_REQUEST_EXIT_EMERGENCY_CALLBACK_MODE''),
      (RIL_REQUEST_SET_MUTE, RRI_PROFILE_2, ''RIL_REQUEST_SET_MUTE''),
      (RIL_REQUEST_CDMA_FLASH, RRI_PROFILE_1, ''RIL_REQUEST_CDMA_FLASH''),
      (RIL_REQUEST_HANGUP, RRI_PROFILE_NS, ''RIL_REQUEST_HANGUP''),
      (RIL_REQUEST_HANGUP_WAITING_OR_BACKGROUND, RRI_PROFILE_1, ''RIL_REQUEST_HANGUP_WAITING_OR_BACKGROUND''),
      (RIL_REQUEST_HANGUP_FOREGROUND_RESUME_BACKGROUND, RRI_PROFILE_1, ''RIL_REQUEST_HANGUP_FOREGROUND_RESUME_BACKGROUND''),
      (RIL_REQUEST_SWITCH_WAITING_OR_HOLDING_AND_ACTIVE, RRI_PROFILE_1, ''RIL_REQUEST_SWITCH_WAITING_OR_HOLDING_AND_ACTIVE''),
      (RIL_REQUEST_ANSWER, RRI_PROFILE_1, ''RIL_REQUEST_ANSWER''),
      (RIL_REQUEST_CONFERENCE, RRI_PROFILE_2, ''RIL_REQUEST_CONFERENCE''),
      (RIL_REQUEST_UDUB, RRI_PROFILE_1, ''RIL_REQUEST_UDUB''),
      (RIL_REQUEST_SEPARATE_CONNECTION, RRI_PROFILE_1, ''RIL_REQUEST_SEPARATE_CONNECTION''),
      (RIL_REQUEST_SIGNAL_STRENGTH, RRI_PROFILE_1, ''RIL_REQUEST_SIGNAL_STRENGTH''),
      (RIL_REQUEST_REGISTRATION_STATE, RRI_PROFILE_1, ''RIL_REQUEST_REGISTRATION_STATE''),
      (RIL_REQUEST_GPRS_REGISTRATION_STATE, RRI_PROFILE_1, ''RIL_REQUEST_GPRS_REGISTRATION_STATE''),
      (RIL_REQUEST_OPERATOR, RRI_PROFILE_1, ''RIL_REQUEST_OPERATOR''),
      (RIL_REQUEST_CDMA_SUBSCRIPTION, RRI_PROFILE_1, ''RIL_REQUEST_CDMA_SUBSCRIPTION''),
      (RIL_REQUEST_DEVICE_IDENTITY, RRI_PROFILE_1, ''RIL_REQUEST_DEVICE_IDENTITY''),
      (RIL_REQUEST_RADIO_POWER, RRI_PROFILE_1, ''RIL_REQUEST_RADIO_POWER''),
      (RIL_REQUEST_QUERY_FACILITY_LOCK, RRI_PROFILE_1, ''RIL_REQUEST_QUERY_FACILITY_LOCK''),
      (RIL_REQUEST_SET_FACILITY_LOCK, RRI_PROFILE_1, ''RIL_REQUEST_SET_FACILITY_LOCK''),
      (RIL_REQUEST_DTMF, RRI_PROFILE_NS, ''RIL_REQUEST_DTMF''),
      (RIL_REQUEST_DTMF_START, RRI_PROFILE_NS, ''RIL_REQUEST_DTMF_START''),
      (RIL_REQUEST_DTMF_STOP, RRI_PROFILE_NS, ''RIL_REQUEST_DTMF_STOP''),
      (RIL_REQUEST_CDMA_BURST_DTMF, RRI_PROFILE_NS, ''RIL_REQUEST_CDMA_BURST_DTMF''),
      (RIL_REQUEST_SEND_SMS, RRI_PROFILE_NS, ''RIL_REQUEST_SEND_SMS''),
      (RIL_REQUEST_SETUP_DATA_CALL, RRI_PROFILE_1, ''RIL_REQUEST_SETUP_DATA_CALL''),
      (RIL_REQUEST_LAST_DATA_CALL_FAIL_CAUSE, RRI_PROFILE_1, ''RIL_REQUEST_LAST_DATA_CALL_FAIL_CAUSE''),
      (RIL_REQUEST_DEACTIVATE_DATA_CALL, RRI_PROFILE_1, ''RIL_REQUEST_DEACTIVATE_DATA_CALL''),
      (RIL_REQUEST_SMS_ACKNOWLEDGE, RRI_PROFILE_1, ''RIL_REQUEST_SMS_ACKNOWLEDGE''),
      (RIL_REQUEST_GET_IMSI, RRI_PROFILE_1, ''RIL_REQUEST_GET_IMSI''),
      (RIL_REQUEST_BASEBAND_VERSION, RRI_PROFILE_1, ''RIL_REQUEST_BASEBAND_VERSION''),
      (RIL_REQUEST_GET_IMEI, RRI_PROFILE_1, ''RIL_REQUEST_GET_IMEI''),
      (RIL_REQUEST_SET_PREFERRED_NETWORK_TYPE, RRI_PROFILE_1, ''RIL_REQUEST_SET_PREFERRED_NETWORK_TYPE''),
      (RIL_REQUEST_GET_PREFERRED_NETWORK_TYPE, RRI_PROFILE_1, ''RIL_REQUEST_GET_PREFERRED_NETWORK_TYPE''),
      (RIL_REQUEST_SIM_IO, RRI_PROFILE_NS, ''RIL_REQUEST_SIM_IO''),
      (RIL_REQUEST_SEND_USSD, RRI_PROFILE_1, ''RIL_REQUEST_SEND_USSD''),
      (RIL_REQUEST_CANCEL_USSD, RRI_PROFILE_1, ''RIL_REQUEST_CANCEL_USSD''),
      (RIL_REQUEST_QUERY_NETWORK_SELECTION_MODE, RRI_PROFILE_1, ''RIL_REQUEST_QUERY_NETWORK_SELECTION_MODE''),
      (RIL_REQUEST_SET_NETWORK_SELECTION_AUTOMATIC, RRI_PROFILE_1, ''RIL_REQUEST_SET_NETWORK_SELECTION_AUTOMATIC''),
      (RIL_REQUEST_SET_NETWORK_SELECTION_MANUAL, RRI_PROFILE_1, ''RIL_REQUEST_SET_NETWORK_SELECTION_MANUAL''),
      (RIL_REQUEST_QUERY_AVAILABLE_NETWORKS, RRI_PROFILE_1, ''RIL_REQUEST_QUERY_AVAILABLE_NETWORKS''),
      (RIL_REQUEST_DATA_CALL_LIST, RRI_PROFILE_1, ''RIL_REQUEST_DATA_CALL_LIST''),
      (RIL_REQUEST_OEM_HOOK_RAW, RRI_PROFILE_NS, ''RIL_REQUEST_OEM_HOOK_RAW''),
      (RIL_REQUEST_OEM_HOOK_STRINGS, RRI_PROFILE_NS, ''RIL_REQUEST_OEM_HOOK_STRINGS''),
      (RIL_REQUEST_WRITE_SMS_TO_SIM, RRI_PROFILE_NS, ''RIL_REQUEST_WRITE_SMS_TO_SIM''),
      (RIL_REQUEST_DELETE_SMS_ON_SIM, RRI_PROFILE_NS, ''RIL_REQUEST_DELETE_SMS_ON_SIM''),
      (RIL_REQUEST_ENTER_SIM_PIN, RRI_PROFILE_NS, ''RIL_REQUEST_ENTER_SIM_PIN''),
      (RIL_REQUEST_ENTER_SIM_PIN2, RRI_PROFILE_NS, ''RIL_REQUEST_ENTER_SIM_PIN2''),
      (RIL_REQUEST_ENTER_SIM_PUK2, RRI_PROFILE_NS, ''RIL_REQUEST_ENTER_SIM_PUK2''),
      (RIL_REQUEST_CHANGE_SIM_PIN, RRI_PROFILE_NS, ''RIL_REQUEST_CHANGE_SIM_PIN''),
      (RIL_REQUEST_CHANGE_SIM_PIN2, RRI_PROFILE_NS, ''RIL_REQUEST_CHANGE_SIM_PIN2''),
      (RIL_REQUEST_ENTER_SIM_PUK, RRI_PROFILE_NS, ''RIL_REQUEST_ENTER_SIM_PUK''),
      (RIL_REQUEST_CDMA_SEND_SMS, RRI_PROFILE_1, ''RIL_REQUEST_CDMA_SEND_SMS''),
      (RIL_REQUEST_CDMA_WRITE_SMS_TO_RUIM, RRI_PROFILE_NS, ''RIL_REQUEST_CDMA_WRITE_SMS_TO_RUIM''),
      (RIL_REQUEST_CDMA_DELETE_SMS_ON_RUIM, RRI_PROFILE_NS, ''RIL_REQUEST_CDMA_DELETE_SMS_ON_RUIM''),
      (RIL_REQUEST_CDMA_SMS_ACKNOWLEDGE, RRI_PROFILE_1, ''RIL_REQUEST_CDMA_SMS_ACKNOWLEDGE''),
      (RIL_REQUEST_STK_SET_PROFILE, RRI_PROFILE_NS, ''RIL_REQUEST_STK_SET_PROFILE''),
      (RIL_REQUEST_STK_SEND_ENVELOPE_COMMAND, RRI_PROFILE_NS, ''RIL_REQUEST_STK_SEND_ENVELOPE_COMMAND''),
      (RIL_REQUEST_STK_SEND_TERMINAL_RESPONSE, RRI_PROFILE_NS, ''RIL_REQUEST_STK_SEND_TERMINAL_RESPONSE''),
      (RIL_REQUEST_CDMA_SET_PREFERRED_VOICE_PRIVACY_MODE, RRI_PROFILE_2, ''RIL_REQUEST_CDMA_SET_PREFERRED_VOICE_PRIVACY_MODE''),
      (RIL_REQUEST_CDMA_QUERY_PREFERRED_VOICE_PRIVACY_MODE, RRI_PROFILE_2, ''RIL_REQUEST_CDMA_QUERY_PREFERRED_VOICE_PRIVACY_MODE'')]"

text \<open>The C array: the rows with their numbers, and the terminating entry.\<close>

definition ril_request_info_array :: "(ril_request \<Rightarrow> int) \<Rightarrow> ril_request_info list" where
  "ril_request_info_array code =
     map (\<lambda>(r, p, name). \<lparr>info_id = code r, info_profile = profile_num p, info_name = name\<rparr>)
       request_table @ [\<lparr>info_id = 0, info_profile = 0, info_name = []\<rparr>]"

section \<open>The searches\<close>

text \<open>
  \<^verbatim>\<open>do { if (request == info->id) return info; info++; } while (info->id != 0);\<close> from the
  entry at the head of the list; running off the array is a fault.
\<close>

fun search_info :: "int \<Rightarrow> ril_request_info list \<Rightarrow> ril_request_info option c_result" where
  "search_info request [] = Inl OutOfBounds"
| "search_info request (info # rest) =
     (if request = info_id info then Inr (Some info)
      else (case rest of
          [] \<Rightarrow> Inl OutOfBounds
        | next # _ \<Rightarrow> if info_id next \<noteq> 0 then search_info request rest else Inr None))"

definition requestInfo :: "(ril_request \<Rightarrow> int) \<Rightarrow> int \<Rightarrow> ril_request_info option c_result" where
  "requestInfo code request = search_info request (ril_request_info_array code)"

definition requestToString :: "(ril_request \<Rightarrow> int) \<Rightarrow> int \<Rightarrow> string option c_result" where
  "requestToString code request =
     and_then (search_info request (ril_request_info_array code)) (\<lambda>r. Inr (map_option info_name r))"

definition onSupports :: "(ril_request \<Rightarrow> int) \<Rightarrow> int \<Rightarrow> int c_result" where
  "onSupports code requestCode =
     and_then (requestInfo code requestCode) (\<lambda>info. Inr (case info of
         None \<Rightarrow> 0
       | Some i \<Rightarrow> if info_profile i \<le> RRI_MY_PROFILE then 1 else 0))"

section \<open>Correctness of the searches\<close>

lemma search_info_spec:
  assumes "t \<noteq> []" "\<forall>i \<in> set t. info_id i \<noteq> 0" "info_id z = 0" "request \<noteq> 0"
  shows "search_info request (t @ [z]) = Inr (find (\<lambda>i. info_id i = request) t)"
  using assms(1,2)
proof (induction t)
  case (Cons i t)
  show ?case
  proof (cases t)
    case Nil
    with assms(3,4) show ?thesis by auto
  next
    case (Cons j u)
    with Cons.IH Cons.prems show ?thesis by auto
  qed
qed simp

lemma find_distinct:
  "distinct (map f t) \<Longrightarrow> x \<in> set t \<Longrightarrow> find (\<lambda>i. f i = f x) t = Some x"
  by (induction t) (auto simp: rev_image_eqI)

lemma find_none: "\<forall>i \<in> set t. f i \<noteq> x \<Longrightarrow> find (\<lambda>i. f i = x) t = None"
  by (induction t) auto

definition request_row :: "ril_request \<Rightarrow> profile \<times> string" where
  "request_row r = the (map_of request_table r)"

lemma table_requests: "set (map fst request_table) = UNIV"
proof -
  have "r \<in> set (map fst request_table)" for r
    by (cases r) (simp_all add: request_table_def)
  then show ?thesis by blast
qed

lemma table_distinct: "distinct (map fst request_table)"
  by (simp add: request_table_def)

lemma request_row_in: "(r, fst (request_row r), snd (request_row r)) \<in> set request_table"
proof -
  have "r \<in> set (map fst request_table)" using table_requests by simp
  then obtain v where "map_of request_table r = Some v"
    by (metis list.set_map map_of_eq_None_iff not_None_eq)
  then show ?thesis using map_of_SomeD by (fastforce simp: request_row_def)
qed

text \<open>What \<^verbatim>\<open>ril.h\<close> promises: different requests have different numbers, none of them 0.\<close>

definition codes_ok :: "(ril_request \<Rightarrow> int) \<Rightarrow> bool" where
  "codes_ok code \<longleftrightarrow> inj code \<and> (\<forall>r. code r \<noteq> 0)"

definition info_row :: "(ril_request \<Rightarrow> int) \<Rightarrow> ril_request \<times> profile \<times> string \<Rightarrow> ril_request_info" where
  "info_row code = (\<lambda>(r, p, name). \<lparr>info_id = code r, info_profile = profile_num p, info_name = name\<rparr>)"

lemma search_known:
  assumes "codes_ok code"
  shows "search_info (code r) (ril_request_info_array code) =
    Inr (Some \<lparr>info_id = code r, info_profile = profile_num (fst (request_row r)),
      info_name = snd (request_row r)\<rparr>)"
proof -
  let ?t = "map (info_row code) request_table"
  let ?x = "info_row code (r, fst (request_row r), snd (request_row r))"
  have ids: "map info_id ?t = map code (map fst request_table)"
    by (simp add: info_row_def case_prod_beta)
  have d: "distinct (map info_id ?t)"
    unfolding ids distinct_map [of code]
    using assms table_distinct inj_on_subset [of code UNIV] by (auto simp: codes_ok_def)
  have nz: "\<forall>i \<in> set ?t. info_id i \<noteq> 0"
    using assms by (auto simp: codes_ok_def info_row_def)
  have ne: "?t \<noteq> []" by (simp add: request_table_def)
  have x: "?x \<in> set ?t" using request_row_in by (metis imageI set_map)
  have id: "info_id ?x = code r" by (simp add: info_row_def split: prod.split)
  have "search_info (code r) (?t @ [\<lparr>info_id = 0, info_profile = 0, info_name = []\<rparr>]) =
      Inr (find (\<lambda>i. info_id i = code r) ?t)"
    using assms by (intro search_info_spec [OF ne nz]) (simp_all add: codes_ok_def)
  also have "find (\<lambda>i. info_id i = code r) ?t = Some ?x"
    using find_distinct [OF d x] unfolding id .
  finally show ?thesis by (simp add: ril_request_info_array_def info_row_def split: prod.splits)
qed

lemma search_unknown:
  assumes "codes_ok code" "n \<notin> range code" "n \<noteq> 0"
  shows "search_info n (ril_request_info_array code) = Inr None"
proof -
  let ?t = "map (info_row code) request_table"
  have ne: "?t \<noteq> []" by (simp add: request_table_def)
  have nz: "\<forall>i \<in> set ?t. info_id i \<noteq> 0"
    using assms by (auto simp: codes_ok_def info_row_def)
  have "\<forall>i \<in> set ?t. info_id i \<noteq> n" using assms(2) by (auto simp: info_row_def)
  then have "find (\<lambda>i. info_id i = n) ?t = None" by (rule find_none)
  then show ?thesis
    using search_info_spec [OF ne nz _ assms(3), of "\<lparr>info_id = 0, info_profile = 0, info_name = []\<rparr>"]
    by (simp add: ril_request_info_array_def info_row_def)
qed

section \<open>Properties\<close>

text \<open>
  C31 (functional). Both searches of the request table are correct for any numbering with distinct
  non-zero codes: every request of the interface is found under its number with its own name, the
  driver reports it as supported exactly if its profile is the data profile, and every number that
  is no request (and not 0) is reported as unsupported. Neither search runs off the table.
\<close>

theorem request_table_correct:
  assumes "codes_ok code"
  shows "requestToString code (code r) = Inr (Some (snd (request_row r))) \<and>
    onSupports code (code r) = Inr (if fst (request_row r) = RRI_PROFILE_1 then 1 else 0) \<and>
    (n \<notin> range code \<and> n \<noteq> 0 \<longrightarrow>
       onSupports code n = Inr 0 \<and> requestToString code n = Inr None)"
proof -
  have "profile_num p \<le> RRI_MY_PROFILE \<longleftrightarrow> p = RRI_PROFILE_1" for p
    by (cases p) (simp_all add: RRI_MY_PROFILE_def)
  then show ?thesis
    using search_known [OF assms, of r] search_unknown [OF assms, of n]
    by (simp add: requestToString_def onSupports_def requestInfo_def)
qed

text \<open>A numbering by position in the table.\<close>

fun position :: "'a \<Rightarrow> 'a list \<Rightarrow> int" where
  "position x [] = 1"
| "position x (y # ys) = (if x = y then 1 else position x ys + 1)"

lemma position_pos: "position x ys \<ge> 1"
  by (induction ys) auto

lemma position_inj: "x \<in> set ys \<Longrightarrow> x' \<in> set ys \<Longrightarrow> position x ys = position x' ys \<Longrightarrow> x = x'"
proof (induction ys)
  case (Cons y ys)
  then show ?case using position_pos [of x ys] position_pos [of x' ys] by (auto split: if_splits)
qed simp

lemma position_codes: "codes_ok (\<lambda>r. position r (map fst request_table))"
proof -
  have "inj (\<lambda>r. position r (map fst request_table))"
    by (rule injI) (metis UNIV_I position_inj table_requests)
  moreover have "position r (map fst request_table) \<noteq> 0" for r
    using position_pos [of r "map fst request_table"] by linarith
  ultimately show ?thesis by (simp add: codes_ok_def)
qed

theorem request_table_correct_witness:
  "requestToString (\<lambda>r. position r (map fst request_table))
      (position RIL_REQUEST_DIAL (map fst request_table)) = Inr (Some ''RIL_REQUEST_DIAL'') \<and>
   onSupports (\<lambda>r. position r (map fst request_table))
      (position RIL_REQUEST_DIAL (map fst request_table)) = Inr 0"
proof -
  have row: "request_row RIL_REQUEST_DIAL = (RRI_PROFILE_NS, ''RIL_REQUEST_DIAL'')"
    by (simp add: request_row_def request_table_def)
  show ?thesis
    using request_table_correct [OF position_codes, of RIL_REQUEST_DIAL 0] unfolding row by simp
qed

end
