(* ===== verification/RilMain.thy ===== *)
theory RilMain
  imports RilData RilInfo
begin

text \<open>
  The rest of \<^verbatim>\<open>fwril-100/fw100-ril.c\<close>: the handlers it holds itself, the dispatch of a
  request, the status of the card, the initialisation of modem and session, opening and watching
  the port.
\<close>

section \<open>Handlers of the main file\<close>

definition requestRadioPower :: "rdata \<Rightarrow> token \<Rightarrow> unit act" where
  "requestRadioPower data t = finish t
     (bind_act (of_result (asserted_int data)) (\<lambda>onOff.
      bind_act get_ctx (\<lambda>c.
      if onOff = 0 \<and> sState c \<noteq> RADIO_STATE_OFF
      then or_error (checked neg (at_send_command CommandThread ''AT+CPOF'' True)) (\<lambda>_.
           seq_act (setRadioState RADIO_STATE_OFF) (ret (Some PNull)))
      else if onOff > 0 \<and> sState c = RADIO_STATE_OFF
      then bind_act (checked neg (at_send_command CommandThread ''AT+CPON'' True)) (\<lambda>r.
           or_error (case r of
               Some _ \<Rightarrow> ret (Some ())
             | None \<Rightarrow> bind_act isRadioOn (\<lambda>v. ret (if v \<noteq> 1 then None else Some ()))) (\<lambda>_.
           seq_act (setRadioState RADIO_STATE_SIM_NOT_READY) (ret (Some PNull))))
      else ret (Some PNull))))"

definition requestQueryNetworkSelectionMode :: "token \<Rightarrow> unit act" where
  "requestQueryNetworkSelectionMode t = finish t
     (or_error (query neg ''AT+COPS?'' ''+COPS:'') (\<lambda>line.
      or_error (parsed (parse_int line)) (\<lambda>_.
      bind_act get_ctx (\<lambda>c. ret (Some (PInts [networkSelectMode c]))))))"

text \<open>A command whose outcome is ignored, and the completion with success.\<close>

definition send_and_complete :: "string \<Rightarrow> token \<Rightarrow> unit act" where
  "send_and_complete cmd t = seq_act (send_only cmd) (RIL_onRequestComplete t RIL_E_SUCCESS PNull)"

definition requestDial :: "rdata \<Rightarrow> token \<Rightarrow> unit act" where
  "requestDial data t = (case data of
       DDial address clir \<Rightarrow>
         send_and_complete (''ATD'' @ address @
           (if clir = 1 then ''I'' else if clir = 2 then ''i'' else []) @ '';'') t
     | _ \<Rightarrow> fault NullDeref)"

definition requestWriteSmsToSim :: "rdata \<Rightarrow> token \<Rightarrow> unit act" where
  "requestWriteSmsToSim data t = (case data of
       DSmsWrite pdu status \<Rightarrow> finish t
         (or_error (checked nonzero (at_send_command_sms CommandThread
            (''AT+CMGW='' @ show_d (int (length pdu div 2)) @ '','' @ show_d status) pdu ''+CMGW:'' True))
          (\<lambda>_. ret (Some PNull)))
     | _ \<Rightarrow> fault NullDeref)"

definition requestHangup :: "rdata \<Rightarrow> token \<Rightarrow> unit act" where
  "requestHangup data t =
     bind_act (of_result (data_int data)) (\<lambda>line. send_and_complete (''AT+CHLD=1'' @ show_d line) t)"

text \<open>A failed command is completed twice; a line that does not parse, once.\<close>

definition requestSignalStrength :: "token \<Rightarrow> unit act" where
  "requestSignalStrength t = finish t
     (or_error (fail_early t (query neg ''AT+CSQ'' ''+CSQ:'')) (\<lambda>line.
      or_error (parsed (parse_csq line)) (\<lambda>(rssi, ber).
      ret (Some (PInts [rssi, ber, 0, 0, 0, 0, 0])))))"

text \<open>
  The registration state as a GSM modem reports it. The function is defined but never called: the
  dispatch uses \<^verbatim>\<open>requestRegistrationStateEVDO\<close>. The number of commas tells which fields the line has.
\<close>

definition parse_creg_gsm :: "string \<Rightarrow> (int \<times> int \<times> int) option" where
  "parse_creg_gsm line =
     Option.bind (tok_start line) (\<lambda>cur.
     let commas = length (filter (\<lambda>c. c = CHR '','') (the cur)) in
     if commas = 0 then Option.bind (tok_int cur) (\<lambda>(stat, _). Some (stat, -1, -1))
     else if commas = 1
     then Option.bind (tok_int cur) (\<lambda>(skip, cur).
          Option.bind (tok_int cur) (\<lambda>(stat, _). Some (stat, -1, -1)))
     else if commas = 2
     then Option.bind (tok_int cur) (\<lambda>(stat, cur).
          Option.bind (tok_hex cur) (\<lambda>(lac, cur).
          Option.bind (tok_hex cur) (\<lambda>(cid, _). Some (stat, lac, cid))))
     else if commas = 3
     then Option.bind (tok_int cur) (\<lambda>(skip, cur).
          Option.bind (tok_int cur) (\<lambda>(sid, cur).
          Option.bind (tok_hex cur) (\<lambda>(nid, cur).
          Option.bind (tok_hex cur) (\<lambda>(stat, _). Some (stat, sid, nid)))))
     else None)"

text \<open>The final response is not looked at before the first line is.\<close>

definition requestRegistrationState :: "reg_request \<Rightarrow> token \<Rightarrow> unit act" where
  "requestRegistrationState request t =
     (if request = REG_OTHER then fault AssertFail
      else finish t
        (or_error
          (bind_act (run_cmd (at_send_command_singleline CommandThread ''AT+CREG?'' ''+CREG:'' True))
            (\<lambda>(err, p_response).
             if err \<noteq> 0 then ret None
             else bind_act (of_result (deref p_response)) (\<lambda>r.
                  bind_act (of_result (first_line r)) (\<lambda>l. ret (Some l))))) (\<lambda>line.
         or_error (parsed (parse_creg_gsm line)) (\<lambda>(stat, lac, cid).
         ret (Some (PStrs [Some (show_d stat), Some (show_x lac), Some (show_x cid), Some ''8'']))))))"

text \<open>Behind the completion with success the code falls into the error exit.\<close>

definition requestSMSAcknowledge :: "rdata \<Rightarrow> token \<Rightarrow> unit act" where
  "requestSMSAcknowledge data t =
     bind_act (of_result (data_int data)) (\<lambda>ackSuccess.
     if ackSuccess = 1 \<or> ackSuccess = 0
     then seq_act (send_only (if ackSuccess = 1 then ''AT+CNMA=1'' else ''AT+CNMA=2''))
            (seq_act (RIL_onRequestComplete t RIL_E_SUCCESS PNull)
              (RIL_onRequestComplete t RIL_E_GENERIC_FAILURE PNull))
     else RIL_onRequestComplete t RIL_E_GENERIC_FAILURE PNull)"

definition parse_crsm :: "string \<Rightarrow> payload option" where
  "parse_crsm line =
     Option.bind (tok_start line) (\<lambda>cur.
     Option.bind (tok_int cur) (\<lambda>(sw1, cur).
     Option.bind (tok_int cur) (\<lambda>(sw2, cur).
     if at_tok_hasmore cur
     then Option.bind (tok_str cur) (\<lambda>(s, _). Some (PSimIO sw1 sw2 (Some s)))
     else Some (PSimIO sw1 sw2 None))))"

definition requestSIM_IO :: "rdata \<Rightarrow> token \<Rightarrow> unit act" where
  "requestSIM_IO data t = (case data of
       DSimIO command fileid p1 p2 p3 d \<Rightarrow>
         finish t (or_error (query neg
            (''AT+CRSM='' @ show_d command @ '','' @ show_d fileid @ '','' @ show_d p1 @ '','' @
              show_d p2 @ '','' @ show_d p3 @ (case d of None \<Rightarrow> [] | Some s \<Rightarrow> '','' @ s)) ''+CRSM:'')
          (\<lambda>line. parsed (parse_crsm line)))
     | _ \<Rightarrow> fault NullDeref)"

text \<open>A string argument of \<^verbatim>\<open>asprintf\<close>; NULL is printed as the C library does.\<close>

definition show_s :: "string option \<Rightarrow> string" where
  "show_s s = (case s of None \<Rightarrow> ''(null)'' | Some s \<Rightarrow> s)"

definition requestEnterSimPin :: "rdata \<Rightarrow> token \<Rightarrow> unit act" where
  "requestEnterSimPin data t =
     bind_act
       (let send = (\<lambda>cmd. checked neg (at_send_command_singleline CommandThread cmd ''+CPIN:'' True)) in
        case data of
          DStrs [a] \<Rightarrow> send (''AT+CPIN='' @ show_s a)
        | DStrs [a, b] \<Rightarrow> send (''AT+CPIN='' @ show_s a @ '','' @ show_s b)
        | _ \<Rightarrow> ret None)
       (\<lambda>r. RIL_onRequestComplete t
          (if r = None then RIL_E_PASSWORD_INCORRECT else RIL_E_SUCCESS) PNull)"

definition requestSendUSSD :: "token \<Rightarrow> unit act" where
  "requestSendUSSD t = RIL_onRequestComplete t RIL_E_REQUEST_NOT_SUPPORTED PNull"

section \<open>The card\<close>

text \<open>Neither SIM nor RUIM are supported: the function returns at once.\<close>

definition getSIMStatus :: SIM_Status where
  "getSIMStatus = SIM_READY"

definition app_status :: "RIL_AppType \<Rightarrow> RIL_AppState \<Rightarrow> RIL_PersoSubstate \<Rightarrow> RIL_PinState \<Rightarrow> RIL_AppStatus" where
  "app_status type state perso pin = \<lparr>app_type = type, app_state = state, perso_substate = perso,
     aid_ptr = None, app_label_ptr = None, pin1_replaced = 0, pin1 = pin, pin2 = RIL_PINSTATE_UNKNOWN\<rparr>"

fun app_status_array :: "SIM_Status \<Rightarrow> RIL_AppStatus" where
  "app_status_array SIM_ABSENT =
     app_status RIL_APPTYPE_UNKNOWN RIL_APPSTATE_UNKNOWN RIL_PERSOSUBSTATE_UNKNOWN RIL_PINSTATE_UNKNOWN"
| "app_status_array SIM_NOT_READY =
     app_status RIL_APPTYPE_SIM RIL_APPSTATE_DETECTED RIL_PERSOSUBSTATE_UNKNOWN RIL_PINSTATE_UNKNOWN"
| "app_status_array SIM_READY =
     app_status RIL_APPTYPE_SIM RIL_APPSTATE_READY RIL_PERSOSUBSTATE_READY RIL_PINSTATE_UNKNOWN"
| "app_status_array SIM_PIN =
     app_status RIL_APPTYPE_SIM RIL_APPSTATE_PIN RIL_PERSOSUBSTATE_UNKNOWN RIL_PINSTATE_ENABLED_NOT_VERIFIED"
| "app_status_array SIM_PUK =
     app_status RIL_APPTYPE_SIM RIL_APPSTATE_PUK RIL_PERSOSUBSTATE_UNKNOWN RIL_PINSTATE_ENABLED_BLOCKED"
| "app_status_array SIM_NETWORK_PERSONALIZATION =
     app_status RIL_APPTYPE_SIM RIL_APPSTATE_SUBSCRIPTION_PERSO RIL_PERSOSUBSTATE_SIM_NETWORK
       RIL_PINSTATE_ENABLED_NOT_VERIFIED"

text \<open>The status for a given state of the SIM, and for the state the driver reports.\<close>

definition card_status :: "SIM_Status \<Rightarrow> RIL_CardStatus" where
  "card_status sim_status =
     (let num_apps = (if sim_status = SIM_ABSENT then 0 else 1);
          p = \<lparr>card_state = (if sim_status = SIM_ABSENT then RIL_CARDSTATE_ABSENT else RIL_CARDSTATE_PRESENT),
               universal_pin_state = RIL_PINSTATE_UNKNOWN, gsm_umts_subscription_app_index = None,
               cdma_subscription_app_index = None, num_applications = num_apps,
               first_application = app_status_array SIM_ABSENT, other_applications = app_status_array SIM_ABSENT\<rparr>
      in if num_apps \<noteq> 0
         then p\<lparr>num_applications := 1, gsm_umts_subscription_app_index := Some 0,
                first_application := app_status_array sim_status\<rparr>
         else p)"

definition getCardStatus :: payload where
  "getCardStatus = PCard (card_status getSIMStatus)"

definition pollSIMState :: "unit act" where
  "pollSIMState =
     bind_act get_ctx (\<lambda>c.
     if sState c \<noteq> RADIO_STATE_SIM_NOT_READY then ret ()
     else (case getSIMStatus of
         SIM_NOT_READY \<Rightarrow> upd (\<lambda>w. w\<lparr>ril := ril w @ [TimedCallback ''pollSIMState'' 1]\<rparr>)
       | SIM_READY \<Rightarrow> setRadioState RADIO_STATE_SIM_READY
       | _ \<Rightarrow> setRadioState RADIO_STATE_SIM_LOCKED_OR_ABSENT))"

section \<open>Dispatch\<close>

text \<open>
  \<^verbatim>\<open>onRequest\<close>; \<open>None\<close> is a number that is none of the interface's requests. The
  parameter \<open>cause\<close> is \<^verbatim>\<open>PDP_FAIL_ERROR_UNSPECIFIED\<close> of \<^verbatim>\<open>ril.h\<close>.
\<close>

definition separate_connection :: "rdata \<Rightarrow> token \<Rightarrow> unit act" where
  "separate_connection data t =
     bind_act (of_result (data_int data)) (\<lambda>party.
     if party > 0 \<and> party < 10 then send_and_complete (''AT+CHLD=2'' @ show_d party) t
     else RIL_onRequestComplete t RIL_E_GENERIC_FAILURE PNull)"

definition send_dtmf :: "rdata \<Rightarrow> token \<Rightarrow> unit act" where
  "send_dtmf data t = (case data of
       DText s \<Rightarrow> send_and_complete (''AT+VTS='' @ take 1 s) t
     | _ \<Rightarrow> fault NullDeref)"

definition cancel_ussd :: "token \<Rightarrow> unit act" where
  "cancel_ussd t = finish t
     (or_error (checked neg (at_send_command_numeric CommandThread ''AT+CUSD=2'' True)) (\<lambda>r.
      bind_act (of_result (first_line r)) (\<lambda>l. ret (Some (PStr l)))))"

definition delete_sms :: "rdata \<Rightarrow> token \<Rightarrow> unit act" where
  "delete_sms data t = finish t
     (bind_act (of_result (data_int data)) (\<lambda>i.
      or_error (checked neg (at_send_command CommandThread (''AT+CMGD='' @ show_d i) True)) (\<lambda>_.
      ret (Some PNull))))"

definition set_selection :: "string \<Rightarrow> int \<Rightarrow> token \<Rightarrow> unit act" where
  "set_selection cmd mode t =
     seq_act (send_only cmd)
       (seq_act (upd_ctx (\<lambda>c. c\<lparr>networkSelectMode := mode\<rparr>))
         (RIL_onRequestComplete t RIL_E_SUCCESS PNull))"

definition echo_data :: "rdata \<Rightarrow> token \<Rightarrow> unit act" where
  "echo_data data t = RIL_onRequestComplete t RIL_E_SUCCESS (PEcho data)"

definition dispatch :: "int \<Rightarrow> ril_request option \<Rightarrow> rdata \<Rightarrow> token \<Rightarrow> unit act" where
  "dispatch cause request data t = (case request of
       Some RIL_REQUEST_GET_SIM_STATUS \<Rightarrow> RIL_onRequestComplete t RIL_E_SUCCESS getCardStatus
     | Some RIL_REQUEST_GET_CURRENT_CALLS \<Rightarrow> requestGetCurrentCallsEVDO t
     | Some RIL_REQUEST_SCREEN_STATE \<Rightarrow> requestScreenState data t
     | Some RIL_REQUEST_DIAL \<Rightarrow> requestDial data t
     | Some RIL_REQUEST_HANGUP \<Rightarrow> requestHangup data t
     | Some RIL_REQUEST_HANGUP_WAITING_OR_BACKGROUND \<Rightarrow> send_and_complete ''AT+CHLD=0'' t
     | Some RIL_REQUEST_HANGUP_FOREGROUND_RESUME_BACKGROUND \<Rightarrow> send_and_complete ''AT+CHLD=1'' t
     | Some RIL_REQUEST_SWITCH_WAITING_OR_HOLDING_AND_ACTIVE \<Rightarrow> send_and_complete ''AT+CHLD=2'' t
     | Some RIL_REQUEST_ANSWER \<Rightarrow> send_and_complete ''ATA'' t
     | Some RIL_REQUEST_CONFERENCE \<Rightarrow> send_and_complete ''AT+CHLD=3'' t
     | Some RIL_REQUEST_UDUB \<Rightarrow> send_and_complete ''ATH'' t
     | Some RIL_REQUEST_SEPARATE_CONNECTION \<Rightarrow> separate_connection data t
     | Some RIL_REQUEST_SIGNAL_STRENGTH \<Rightarrow> requestSignalStrength t
     | Some RIL_REQUEST_REGISTRATION_STATE \<Rightarrow> requestRegistrationStateEVDO REG_STATE t
     | Some RIL_REQUEST_GPRS_REGISTRATION_STATE \<Rightarrow> requestRegistrationStateEVDO REG_GPRS_STATE t
     | Some RIL_REQUEST_OPERATOR \<Rightarrow> requestOperator t
     | Some RIL_REQUEST_RADIO_POWER \<Rightarrow> requestRadioPower data t
     | Some RIL_REQUEST_DTMF \<Rightarrow> send_dtmf data t
     | Some RIL_REQUEST_SEND_SMS \<Rightarrow> requestSendSMSEVDO data t
     | Some RIL_REQUEST_SETUP_DATA_CALL \<Rightarrow> requestSetupDataCallEVDO t
     | Some RIL_REQUEST_DEACTIVATE_DATA_CALL \<Rightarrow> requestDeactivateDataCallEVDO data t
     | Some RIL_REQUEST_LAST_DATA_CALL_FAIL_CAUSE \<Rightarrow> requestDataCallFailCause cause t
     | Some RIL_REQUEST_SMS_ACKNOWLEDGE \<Rightarrow> requestSMSAcknowledge data t
     | Some RIL_REQUEST_GET_IMSI \<Rightarrow> requestGetIMSI t
     | Some RIL_REQUEST_BASEBAND_VERSION \<Rightarrow> requestBasebandVersion t
     | Some RIL_REQUEST_GET_IMEI \<Rightarrow> requestGetIMEI t
     | Some RIL_REQUEST_SET_PREFERRED_NETWORK_TYPE \<Rightarrow> requestSetPreferredNetworkType data t
     | Some RIL_REQUEST_GET_PREFERRED_NETWORK_TYPE \<Rightarrow> requestGetPreferredNetworkType t
     | Some RIL_REQUEST_SIM_IO \<Rightarrow> requestSIM_IO data t
     | Some RIL_REQUEST_SEND_USSD \<Rightarrow> requestSendUSSD t
     | Some RIL_REQUEST_CANCEL_USSD \<Rightarrow> cancel_ussd t
     | Some RIL_REQUEST_QUERY_NETWORK_SELECTION_MODE \<Rightarrow> requestQueryNetworkSelectionMode t
     | Some RIL_REQUEST_SET_NETWORK_SELECTION_AUTOMATIC \<Rightarrow> set_selection ''AT+COPS=0'' 0 t
     | Some RIL_REQUEST_SET_NETWORK_SELECTION_MANUAL \<Rightarrow> set_selection ''AT+COPS=1'' 1 t
     | Some RIL_REQUEST_QUERY_AVAILABLE_NETWORKS \<Rightarrow> requestQueryAvailableNetworks t
     | Some RIL_REQUEST_DATA_CALL_LIST \<Rightarrow> requestDataCallList t
     | Some RIL_REQUEST_OEM_HOOK_RAW \<Rightarrow> echo_data data t
     | Some RIL_REQUEST_OEM_HOOK_STRINGS \<Rightarrow> echo_data data t
     | Some RIL_REQUEST_WRITE_SMS_TO_SIM \<Rightarrow> requestWriteSmsToSim data t
     | Some RIL_REQUEST_DELETE_SMS_ON_SIM \<Rightarrow> delete_sms data t
     | Some RIL_REQUEST_ENTER_SIM_PIN \<Rightarrow> requestEnterSimPin data t
     | Some RIL_REQUEST_ENTER_SIM_PUK \<Rightarrow> requestEnterSimPin data t
     | Some RIL_REQUEST_ENTER_SIM_PIN2 \<Rightarrow> requestEnterSimPin data t
     | Some RIL_REQUEST_ENTER_SIM_PUK2 \<Rightarrow> requestEnterSimPin data t
     | Some RIL_REQUEST_CHANGE_SIM_PIN \<Rightarrow> requestEnterSimPin data t
     | Some RIL_REQUEST_CHANGE_SIM_PIN2 \<Rightarrow> requestEnterSimPin data t
     | _ \<Rightarrow> RIL_onRequestComplete t RIL_E_RADIO_NOT_AVAILABLE PNull)"

definition onRequest :: "int \<Rightarrow> ril_request option \<Rightarrow> rdata \<Rightarrow> token \<Rightarrow> unit act" where
  "onRequest cause request data t =
     bind_act get_ctx (\<lambda>c.
     if sState c = RADIO_STATE_OFF \<and>
        \<not> (request = Some RIL_REQUEST_RADIO_POWER \<or> request = Some RIL_REQUEST_GET_SIM_STATUS \<or>
           request = Some RIL_REQUEST_SCREEN_STATE)
     then RIL_onRequestComplete t RIL_E_RADIO_NOT_AVAILABLE PNull
     else dispatch cause request data t)"

definition currentState :: "world \<Rightarrow> radio_state" where
  "currentState w = sState (ctx w)"

definition getVersion :: string where
  "getVersion = ''Fusion Wireless RIL 1.0''"

section \<open>The log of the dispatcher\<close>

text \<open>
  The text \<^verbatim>\<open>sprintf\<close> puts into \<^verbatim>\<open>tmp[164]\<close> at the start of \<^verbatim>\<open>onRequest\<close>, from the
  number of the state, the token as \<^verbatim>\<open>%p\<close> prints it, the number and the name of the request. It is
  not part of \<open>onRequest\<close> above, because it fits with any of the names.
\<close>

definition request_log :: "int \<Rightarrow> string \<Rightarrow> int \<Rightarrow> string \<Rightarrow> string" where
  "request_log state token request name =
     ''state='' @ show_d state @ '' token='' @ token @ '' req='' @ show_d request @ '' '' @ name @ [LF]"

lemma request_names_short: "\<forall>(r, p, name) \<in> set request_table. length name \<le> 64"
  by (simp add: request_table_def)

lemma request_log_fits:
  assumes "in_int state" "in_int request" "length token \<le> 10"
    and "name \<in> (\<lambda>(r, p, name). name) ` set request_table \<or> name = ''(null)''"
  shows "length (request_log state token request name) < 164"
proof -
  have n: "length name \<le> 64" using assms(4) request_names_short by auto
  have d: "in_int x \<Longrightarrow> length (show_d x) \<le> 11" for x
    using show_d_length(1) [of 10 x] by (auto simp: in_int_def INT_MAX_def INT_MIN_def abs_less_iff)
  show ?thesis using n d [OF assms(1)] d [OF assms(2)] assms(3) by (simp add: request_log_def)
qed

end
