(* ===== verification/RilInit.thy ===== *)
theory RilInit
  imports RilMain
begin

text \<open>
  Start and main loop of \<^verbatim>\<open>fwril-100/fw100-ril.c\<close>: the options of \<^verbatim>\<open>RIL_Init\<close>, the
  session context, opening and synchronising the port, the initialisation of the modem, and one
  round of the loop that watches it.
\<close>

section \<open>Session context\<close>

text \<open>
  The backwards scan of \<^verbatim>\<open>trim_path\<close>: \<open>i\<close> is the index of \<^verbatim>\<open>p\<close> (and the variable
  \<^verbatim>\<open>len\<close> has the same value), the character at \<open>length path\<close> is the terminator. The
  loop ends when \<^verbatim>\<open>len\<close> reaches 0, so the first character is not looked at. For an empty
  path \<^verbatim>\<open>len\<close> becomes negative and the scan leaves the string.
\<close>

fun trim_from :: "string \<Rightarrow> nat \<Rightarrow> string" where
  "trim_from path 0 = path"
| "trim_from path (Suc i) =
     (if Suc i < length path \<and> (path ! Suc i = CHR ''/'' \<or> path ! Suc i = CHR 0x5C)
      then drop (Suc (Suc i)) path else trim_from path i)"

definition trim_path :: "string \<Rightarrow> string c_result" where
  "trim_path path = (if path = [] then Inl OutOfBounds else Inr (trim_from path (length path)))"

definition zero_ctx :: fw100SessionCtx where
  "zero_ctx = \<lparr>mainIsStarted = 0, s_atctrl_path = None, s_data_path = None, s_data_devname = [],
     s_device_socket = 0, sState = RADIO_STATE_OFF, s_port = 0, s_closed = 0, networkSelectMode = 0,
     screenState = 0, inDataCall = 0, dataCallIsAutomatic = 0, dataCallLocalIP = [],
     dataCallGateway = [], gpsFifoEnable = False, gpsFifoFD = 0, gpsTtyEnable = False, gpsTtyFD = 0,
     ctx_meid = replicate 32 NUL, ctx_mdn = replicate 32 NUL, ctx_carrier = replicate 16 NUL,
     otaMsgCnt = 0, otaMsg = replicate 64 NUL, moduleAutoActivate = 0, moduleIsActivated = 0,
     moduleActivateRetry = 0\<rparr>"

text \<open>\<open>content\<close> is the control file as \<^verbatim>\<open>fgets\<close> returns it.\<close>

definition initSessionContext :: "string list option \<Rightarrow> fw100SessionCtx \<Rightarrow> fw100SessionCtx c_result"
  where
  "initSessionContext content c =
     and_then (deref (s_data_path c)) (\<lambda>path.
     and_then (trim_path path) (\<lambda>dev.
     Inr (snd (rilReadControl content
       (c\<lparr>sState := RADIO_STATE_OFF, s_port := -1, s_closed := 0, networkSelectMode := 1,
          screenState := SCREEN_IS_OFF, inDataCall := DATA_STATE_DISCONNECTED,
          dataCallIsAutomatic := 0, gpsTtyEnable := True, gpsFifoFD := -1, gpsTtyFD := -1,
          s_data_devname := dev, moduleAutoActivate := 1, moduleIsActivated := 0,
          moduleActivateRetry := MAX_AUTO_ACTIVATE_RETRY\<rparr>)))))"

text \<open>The options as \<^verbatim>\<open>getopt\<close> returns them; \<open>None\<close> for a wrong one.\<close>

datatype init_opt = OptPort string | OptAtctrl string | OptData string | OptSocket string | OptBad

fun parse_opts :: "init_opt list \<Rightarrow> fw100SessionCtx \<Rightarrow> fw100SessionCtx option" where
  "parse_opts [] c = Some c"
| "parse_opts (OptPort a # os) c = (if atoi a = 0 then None else parse_opts os (c\<lparr>s_port := atoi a\<rparr>))"
| "parse_opts (OptAtctrl a # os) c = parse_opts os (c\<lparr>s_atctrl_path := Some a\<rparr>)"
| "parse_opts (OptData a # os) c = parse_opts os (c\<lparr>s_data_path := Some a\<rparr>)"
| "parse_opts (OptSocket a # os) c = parse_opts os (c\<lparr>s_atctrl_path := Some a, s_device_socket := 1\<rparr>)"
| "parse_opts (OptBad # os) c = None"

text \<open>
  \<^verbatim>\<open>RIL_Init\<close> up to the start of the main loop: \<open>Inr None\<close> is \<^verbatim>\<open>return NULL\<close>, and
  otherwise the context the main loop starts with.
\<close>

definition RIL_Init :: "init_opt list \<Rightarrow> string list option \<Rightarrow> fw100SessionCtx option c_result" where
  "RIL_Init opts content = (case parse_opts opts zero_ctx of
       None \<Rightarrow> Inr None
     | Some c \<Rightarrow>
         if s_port c < 0 \<and> s_atctrl_path c = None then Inr None
         else and_then (initSessionContext content c) (\<lambda>c. Inr (Some c)))"

section \<open>Opening the port\<close>

text \<open>
  The inner loop of \<^verbatim>\<open>sync_modem\<close>: \<open>room\<close> bytes are left in the buffer, which holds
  \<open>got\<close>. The result tells whether \<^verbatim>\<open>OK\<close> was seen.
\<close>

function sync_read :: "int \<Rightarrow> nat \<Rightarrow> string \<Rightarrow> bool act" where
  "sync_read fd room got = (\<lambda>w.
     and_then (sys (SysRead fd room) w) (\<lambda>(r, w). case r of
       RStr d \<Rightarrow>
         (let d = take room d in
          if d = [] then Inr (False, w)
          else if strstr (takeWhile (\<lambda>c. c \<noteq> NUL) (got @ d)) ''OK'' then Inr (True, w)
          else sync_read fd (room - length d) (got @ d) w)
     | _ \<Rightarrow> Inr (False, w)))"
  by pat_completeness auto
termination
  by (relation "measure (\<lambda>(fd, room, got). room)") auto

declare sync_read.simps [simp del]

fun sync_tries :: "int \<Rightarrow> nat \<Rightarrow> int act" where
  "sync_tries fd 0 = ret 0"
| "sync_tries fd (Suc n) =
     bind_act (sys_int (SysWrite fd (''AT'' @ [CR]))) (\<lambda>k.
     if k < 3 then sync_tries fd n
     else bind_act (sync_read fd 254 []) (\<lambda>ok. if ok then ret 0 else sync_tries fd n))"

definition sync_modem :: "int \<Rightarrow> int act" where
  "sync_modem fd = sync_tries fd 100"

text \<open>Setting the attributes of the port fails exactly if \<^verbatim>\<open>tcsetattr\<close> does.\<close>

definition configure_modem_fd :: "int \<Rightarrow> int act" where
  "configure_modem_fd fd = bind_act (sys_int (SysTcsetattr fd)) (\<lambda>rc. ret (if rc \<noteq> 0 then -1 else 0))"

text \<open>The qemu control socket: the answer to \<^verbatim>\<open>gsm\<close> must be \<^verbatim>\<open>OK\<close>.\<close>

definition open_qemud :: "int act" where
  "open_qemud =
     bind_act (sys_int (SysSocket ''qemud'')) (\<lambda>fd.
     if fd < 0 then ret fd
     else bind_act (sys_int (SysWrite fd ''gsm'')) (\<lambda>k.
          if k \<noteq> 3 then seq_act (sys_int (SysClose fd)) (ret (-1))
          else bind_act (sys_str (SysRead fd 2) []) (\<lambda>answer.
               if take 2 answer \<noteq> ''OK'' then seq_act (sys_int (SysClose fd)) (ret (-1)) else ret fd)))"

text \<open>Opening and synchronising the device node.\<close>

definition open_device :: "string \<Rightarrow> int act" where
  "open_device path =
     bind_act (sys_int (SysOpen path)) (\<lambda>fd.
     bind_act (sys_int SysErrnoEAGAIN) (\<lambda>again.
     if again = 1 then ret fd
     else if fd \<ge> 0
     then bind_act (configure_modem_fd fd) (\<lambda>rc.
          if rc \<noteq> 0 then seq_act (sys_int (SysClose fd)) (ret (-1))
          else bind_act (sync_modem fd) (\<lambda>rc.
               if rc \<noteq> 0 then seq_act (sys_int (SysClose fd)) (ret (-1)) else ret fd))
     else ret fd))"

text \<open>
  One attempt of the loop \<^verbatim>\<open>while (fd < 0)\<close> of \<^verbatim>\<open>mainLoop\<close>. A failure is printed into
  \<^verbatim>\<open>tmp[128]\<close> with the path and the text of the error.
\<close>

definition open_log_fits :: "fw100SessionCtx \<Rightarrow> int \<Rightarrow> string \<Rightarrow> bool" where
  "open_log_fits c e msg \<longleftrightarrow>
     length (''error open devname '' @ show_s (s_atctrl_path c) @ '' err='' @ show_d e @ '' '' @ msg @ [LF]) < 128"

definition open_try :: "int act" where
  "open_try =
     bind_act get_ctx (\<lambda>c.
     bind_act
       (if s_port c > 0 then sys_int (SysSocket (show_d (s_port c)))
        else if s_device_socket c \<noteq> 0
        then bind_act (of_result (deref (s_atctrl_path c))) (\<lambda>path.
             if path = ''/dev/socket/qemud'' then open_qemud else sys_int (SysSocket path))
        else (case s_atctrl_path c of None \<Rightarrow> ret (-1) | Some path \<Rightarrow> open_device path))
       (\<lambda>fd. if fd < 0
             then bind_act (sys_int SysErrno) (\<lambda>e. bind_act (sys_str SysStrerror []) (\<lambda>msg.
                  if open_log_fits c e msg then seq_act (sys_int (SysSleep 5)) (ret fd) else fault OutOfBounds))
             else ret fd))"

text \<open>
  The beginning of \<^verbatim>\<open>mainLoop\<close>: the two paths are printed into \<^verbatim>\<open>tmp[128]\<close>, the callbacks
  of the channel are set, and the pseudo terminal for GPS is created.
\<close>

definition start_log_fits :: "fw100SessionCtx \<Rightarrow> bool" where
  "start_log_fits c \<longleftrightarrow>
     length (''starting at:'' @ show_s (s_atctrl_path c) @ '' data:'' @ show_s (s_data_path c) @ [LF]) < 128"

definition main_loop_start :: "unit act" where
  "main_loop_start =
     bind_act get_ctx (\<lambda>c.
     if \<not> start_log_fits c then fault OutOfBounds
     else seq_act (upd (\<lambda>w. w\<lparr>chan := at_set_on_timeout True (at_set_on_reader_closed True (chan w))\<rparr>))
       (if gpsTtyEnable c then seq_act (rilWriteGPSTty None 1) (ret ()) else ret ()))"

text \<open>
  What follows when the port is open; \<open>create_ret\<close> is the result of starting the thread. The path
  is printed once more.
\<close>

definition launch_log_fits :: "int \<Rightarrow> fw100SessionCtx \<Rightarrow> bool" where
  "launch_log_fits fd c \<longleftrightarrow>
     length (''launching at_open on fd:'' @ show_d fd @ '' '' @ show_s (s_atctrl_path c) @ [LF]) < 128"

definition start_reader :: "int \<Rightarrow> int \<Rightarrow> int act" where
  "start_reader fd create_ret =
     seq_act (upd_ctx (\<lambda>c. c\<lparr>mainIsStarted := 1\<rparr>))
       (bind_act get_ctx (\<lambda>c.
        if \<not> launch_log_fits fd c then fault OutOfBounds
        else seq_act (upd_ctx (\<lambda>c. c\<lparr>s_closed := 0\<rparr>)) (\<lambda>w.
          case at_open fd True create_ret (chan w) of (r, ch) \<Rightarrow>
            if r < 0 then Inr (r, w\<lparr>chan := ch\<rparr>)
            else Inr (r, w\<lparr>chan := ch, ril := ril w @ [TimedCallback ''initializeCallback'' 0]\<rparr>))))"

text \<open>An attempt to open, and the start of the reader thread when it succeeds.\<close>

definition main_open :: "int \<Rightarrow> int act" where
  "main_open create_ret = bind_act open_try (\<lambda>fd. if fd < 0 then ret fd else start_reader fd create_ret)"

text \<open>One round of the watching loop, \<open>True\<close> when it is left to open the port again.\<close>

definition watch_round :: "bool act" where
  "watch_round =
     seq_act (sys_int (SysSleep 10))
       (bind_act get_ctx (\<lambda>c.
        seq_act (if moduleIsActivated c = 0 then seq_act activateHelper (ret ()) else ret ())
          (bind_act get_ctx (\<lambda>c.
           if s_closed c \<noteq> 0 then ret True
           else seq_act (if screenState c = 1 then fw100ModemTimer else ret ()) (ret False)))))"

section \<open>Initialisation of the modem\<close>

definition init_commands :: "string list" where
  "init_commands = [''ATE0Q0V1'', ''ATS0=0'', ''AT+CMEE=1'', ''AT+CREG=1'', ''AT+VMCCMNC=0'',
     ''AT+ARSI=1,4'', ''AT+CMGF=0'', ''AT^MEID'', ''AT+VMDN?'', ''AT^HDRCSQ'', ''AT^SYSINFO'', ''AT+CSNID?'']"

definition gps_commands :: "string list" where
  "gps_commands = [''AT^GPSLOC=0'', ''AT^GPSMODE=1'', ''AT^GPSQOS=1,255'', ''AT^GPSLOC=1,1'']"

fun send_each :: "string list \<Rightarrow> unit act" where
  "send_each [] = ret ()"
| "send_each (c # cs) = seq_act (send_only c) (send_each cs)"

definition atcommand_init :: "unit act" where
  "atcommand_init =
     seq_act (send_each init_commands)
       (bind_act get_ctx (\<lambda>c. if gpsFifoEnable c \<or> gpsTtyEnable c then send_each gps_commands else ret ()))"

definition initializeCallback :: "unit act" where
  "initializeCallback =
     seq_act (setRadioState RADIO_STATE_OFF)
       (seq_act (run_cmd (at_handshake CommandThread))
         (seq_act atcommand_init
           (bind_act isRadioOn (\<lambda>on.
            if on > 0 then setRadioState RADIO_STATE_SIM_NOT_READY else ret ()))))"

end
