(* ===== verification/RilDispatch.thy ===== *)
theory RilDispatch
  imports RilInit
begin

text \<open>
  Laws of the dispatch: which requests are handled without a fault, how often a request is
  completed, and what happens while the radio is off.
\<close>

section \<open>Handlers of the main file\<close>

lemma send_and_complete_sound [handlers]:
  "triple (sound t n) (send_and_complete cmd t) (\<lambda>_. sound t (Suc n))"
  unfolding send_and_complete_def by (intro triple_seq_sound triples)

lemma requestQueryNetworkSelectionMode_sound [handlers]:
  "triple (sound t n) (requestQueryNetworkSelectionMode t) (\<lambda>_. sound t (Suc n))"
  unfolding requestQueryNetworkSelectionMode_def by (intro triple_finish body_intros triples)

lemma requestSendUSSD_sound [handlers]:
  "triple (sound t n) (requestSendUSSD t) (\<lambda>_. sound t (Suc n))"
  unfolding requestSendUSSD_def by (rule triples)

lemma set_selection_sound [handlers]:
  "triple (sound t n) (set_selection cmd mode t) (\<lambda>_. sound t (Suc n))"
  unfolding set_selection_def by (intro triple_seq_sound triples)

lemma echo_data_sound [handlers]: "triple (sound t n) (echo_data data t) (\<lambda>_. sound t (Suc n))"
  unfolding echo_data_def by (rule triples)

lemma requestEnterSimPin_sound [handlers]:
  "triple (sound t n) (requestEnterSimPin data t) (\<lambda>_. sound t (Suc n))"
proof -
  have c: "triple (sound t n) (case data of
          DStrs [a] \<Rightarrow> checked neg (at_send_command_singleline CommandThread (f a) ''+CPIN:'' True)
        | DStrs [a, b] \<Rightarrow> checked neg (at_send_command_singleline CommandThread (g a b) ''+CPIN:'' True)
        | _ \<Rightarrow> ret None) (\<lambda>_. sound t n)" for f g
    by (cases data) (auto split: list.splits intro!: triple_checked triple_ret_sound simp del: ret_simp)
  show ?thesis
    unfolding requestEnterSimPin_def Let_def by (intro triple_bind [OF c] triples)
qed

lemma cancel_ussd_sound [handlers]: "triple (sound t n) (cancel_ussd t) (\<lambda>_. sound t (Suc n))"
  unfolding cancel_ussd_def
proof (rule triple_finish, rule triple_or_error)
  show "triple (sound t n) (checked neg (at_send_command_numeric CommandThread ''AT+CUSD=2'' True))
      (\<lambda>r w. case r of None \<Rightarrow> sound t n w
        | Some x \<Rightarrow> sound t n w \<and> one_line line_is_digit (p_intermediates x))"
    by (rule triple_conseq [OF client_numeric.checked_sound]) (auto split: option.splits)
  show "triple (\<lambda>w. sound t n w \<and> one_line line_is_digit (p_intermediates x))
      (bind_act (of_result (first_line x)) (\<lambda>l. ret (Some (PStr l)))) (\<lambda>_. sound t n)" for x
    by (auto simp: triple_def bind_act_def first_line_def one_line_def split: sum.splits list.splits)
qed

lemma requestRadioPower_sound:
  "data_int data = Inr i \<Longrightarrow> triple (sound t n) (requestRadioPower data t) (\<lambda>_. sound t (Suc n))"
  unfolding requestRadioPower_def
  by (intro triple_finish triple_of_result [OF asserted_int_ok] body_intros triples handlers; assumption?)

lemma data_int_cases:
  "data_int data = Inr i \<Longrightarrow> triple (sound t n) (requestHangup data t) (\<lambda>_. sound t (Suc n))"
  "data_int data = Inr i \<Longrightarrow> triple (sound t n) (separate_connection data t) (\<lambda>_. sound t (Suc n))"
  "data_int data = Inr i \<Longrightarrow> triple (sound t n) (delete_sms data t) (\<lambda>_. sound t (Suc n))"
  unfolding requestHangup_def separate_connection_def delete_sms_def
  by (intro triple_finish triple_of_result [of "data_int data" i] body_intros triples handlers;
      assumption?)+

text \<open>The data a request needs, as the RIL library passes it.\<close>

definition data_ok :: "ril_request option \<Rightarrow> rdata \<Rightarrow> bool" where
  "data_ok request data =
     (if request \<in> Some ` {RIL_REQUEST_SCREEN_STATE, RIL_REQUEST_HANGUP, RIL_REQUEST_SEPARATE_CONNECTION,
        RIL_REQUEST_RADIO_POWER, RIL_REQUEST_SET_PREFERRED_NETWORK_TYPE, RIL_REQUEST_DELETE_SMS_ON_SIM}
      then (case data of DInts (_ # _) \<Rightarrow> True | _ \<Rightarrow> False)
      else if request = Some RIL_REQUEST_DIAL then (case data of DDial _ _ \<Rightarrow> True | _ \<Rightarrow> False)
      else if request = Some RIL_REQUEST_DTMF then (case data of DText _ \<Rightarrow> True | _ \<Rightarrow> False)
      else if request = Some RIL_REQUEST_SIM_IO
      then (case data of DSimIO _ _ _ _ _ _ \<Rightarrow> True | _ \<Rightarrow> False)
      else if request = Some RIL_REQUEST_WRITE_SMS_TO_SIM
      then (case data of DSmsWrite _ _ \<Rightarrow> True | _ \<Rightarrow> False)
      else if request = Some RIL_REQUEST_SEND_SMS
      then (case data of
          DStrs (smsc # Some pdu # _) \<Rightarrow>
            pdu \<noteq> [] \<and> sms_log_fits (case smsc of None \<Rightarrow> ''00'' | Some s \<Rightarrow> s) pdu
        | _ \<Rightarrow> False)
      else True)"

text \<open>
  The requests left out: three complete twice, four may follow a bad pointer, and two depend on
  what the operating system reports.
\<close>

definition regular_request :: "ril_request option \<Rightarrow> bool" where
  "regular_request request \<longleftrightarrow> request \<notin> Some `
     {RIL_REQUEST_SIGNAL_STRENGTH, RIL_REQUEST_SMS_ACKNOWLEDGE, RIL_REQUEST_DATA_CALL_LIST,
      RIL_REQUEST_OPERATOR, RIL_REQUEST_GET_IMSI, RIL_REQUEST_QUERY_AVAILABLE_NETWORKS,
      RIL_REQUEST_BASEBAND_VERSION, RIL_REQUEST_SETUP_DATA_CALL, RIL_REQUEST_DEACTIVATE_DATA_CALL}"

lemma data_ok_int:
  "(case data of DInts (_ # _) \<Rightarrow> True | _ \<Rightarrow> False) \<Longrightarrow> \<exists>i. data_int data = Inr i"
  by (auto simp: data_int_def split: rdata.splits list.splits)

lemma shaped_handlers:
  "(case data of DDial _ _ \<Rightarrow> True | _ \<Rightarrow> False) \<Longrightarrow>
     triple (sound t n) (requestDial data t) (\<lambda>_. sound t (Suc n))"
  "(case data of DText _ \<Rightarrow> True | _ \<Rightarrow> False) \<Longrightarrow>
     triple (sound t n) (send_dtmf data t) (\<lambda>_. sound t (Suc n))"
  "(case data of DSmsWrite _ _ \<Rightarrow> True | _ \<Rightarrow> False) \<Longrightarrow>
     triple (sound t n) (requestWriteSmsToSim data t) (\<lambda>_. sound t (Suc n))"
  "(case data of DSimIO _ _ _ _ _ _ \<Rightarrow> True | _ \<Rightarrow> False) \<Longrightarrow>
     triple (sound t n) (requestSIM_IO data t) (\<lambda>_. sound t (Suc n))"
proof -
  show "(case data of DDial _ _ \<Rightarrow> True | _ \<Rightarrow> False) \<Longrightarrow>
     triple (sound t n) (requestDial data t) (\<lambda>_. sound t (Suc n))"
    by (cases data) (simp_all add: requestDial_def handlers)
  show "(case data of DText _ \<Rightarrow> True | _ \<Rightarrow> False) \<Longrightarrow>
     triple (sound t n) (send_dtmf data t) (\<lambda>_. sound t (Suc n))"
    by (cases data) (auto simp: send_dtmf_def intro: handlers)
  have w: "triple (sound t n) (finish t (or_error (checked nonzero
      (at_send_command_sms CommandThread cmd pdu pre True)) (\<lambda>_. ret (Some PNull)))) (\<lambda>_. sound t (Suc n))"
    for cmd pdu pre by (intro triple_finish body_intros triples)
  show "(case data of DSmsWrite _ _ \<Rightarrow> True | _ \<Rightarrow> False) \<Longrightarrow>
     triple (sound t n) (requestWriteSmsToSim data t) (\<lambda>_. sound t (Suc n))"
    using w by (cases data) (simp_all add: requestWriteSmsToSim_def del: ret_simp)
  have q: "triple (sound t n) (finish t (or_error (query neg cmd pre) (\<lambda>line. parsed (parse_crsm line))))
      (\<lambda>_. sound t (Suc n))" for cmd pre by (intro triple_finish body_intros triples)
  show "(case data of DSimIO _ _ _ _ _ _ \<Rightarrow> True | _ \<Rightarrow> False) \<Longrightarrow>
     triple (sound t n) (requestSIM_IO data t) (\<lambda>_. sound t (Suc n))"
    using q by (cases data) (simp_all add: requestSIM_IO_def)
qed

lemma sms_handler:
  assumes "case data of DStrs (smsc # Some pdu # _) \<Rightarrow>
      pdu \<noteq> [] \<and> sms_log_fits (case smsc of None \<Rightarrow> ''00'' | Some s \<Rightarrow> s) pdu | _ \<Rightarrow> False"
  shows "triple (sound t n) (requestSendSMSEVDO data t) (\<lambda>_. sound t (Suc n))"
proof -
  from assms obtain smsc pdu rest where "data = DStrs (smsc # Some pdu # rest)" "pdu \<noteq> []"
    "sms_log_fits (case smsc of None \<Rightarrow> ''00'' | Some s \<Rightarrow> s) pdu"
    by (auto split: rdata.splits list.splits option.splits)
  then show ?thesis by (rule requestSendSMSEVDO_sound)
qed

lemma dispatch_sound:
  assumes "regular_request request" "data_ok request data"
  shows "triple (sound t n) (dispatch cause request data t) (\<lambda>_. sound t (Suc n))"
proof (cases request)
  case None
  then show ?thesis by (simp add: dispatch_def triples)
next
  case (Some r)
  note int = data_int_cases [where data = data] requestRadioPower_sound [where data = data]
    requestScreenState_sound [where data = data]
    requestSetPreferredNetworkType_sound [where data = data]
  show ?thesis
    using assms unfolding Some
    by (cases r) (auto simp: dispatch_def data_ok_def regular_request_def
        intro!: triples handlers shaped_handlers sms_handler
        dest!: data_ok_int intro: int)
qed

lemma onRequest_sound:
  assumes "regular_request request" "data_ok request data"
  shows "triple (sound t n) (onRequest cause request data t) (\<lambda>_. sound t (Suc n))"
  unfolding onRequest_def by (intro triple_get_ctx_sound triple_if triples dispatch_sound assms)

section \<open>Properties of the dispatch\<close>

text \<open>The world a request meets after the start: an open port, nothing sent or reported yet.\<close>

definition start_world :: "fw100SessionCtx \<Rightarrow> cmd_event list list \<Rightarrow> world" where
  "start_world c m = \<lparr>ctx = c, chan = fresh_chan, modem = m, ril = [], os_rets = [], os_calls = [],
     pollSavedCREG = replicate 64 NUL, pollSavedCSQ = replicate 64 NUL\<rparr>"

lemma start_world_sel [simp]:
  "ctx (start_world c m) = c" "chan (start_world c m) = fresh_chan" "modem (start_world c m) = m"
  "ril (start_world c m) = []"
  by (simp_all add: start_world_def)

text \<open>
  C3 (safety). A request that is neither one of the three with a second completion nor one of those that
  follow an unchecked pointer or depend on the operating system (\<open>regular_request\<close>), called
  with data of the kind the interface prescribes, on a consistent channel: the handler accesses
  nothing through a bad pointer, whatever the modem answers. It may only wait for ever; when it
  returns, the request has been completed exactly once more than before, and the channel is
  consistent again.
\<close>

theorem request_completed_once:
  assumes "regular_request request" "data_ok request data"
    and "chan_ok (chan w)" "modem_ok (modem w)"
  shows "case onRequest cause request data t w of
      Inl f \<Rightarrow> f = Blocked
    | Inr (_, w') \<Rightarrow> completions t (ril w') = Suc (completions t (ril w)) \<and>
        chan_ok (chan w') \<and> modem_ok (modem w')"
proof -
  have s: "sound t (completions t (ril w)) w" using assms(3,4) by (simp add: sound_def)
  note o = onRequest_sound [OF assms(1,2), of t "completions t (ril w)" cause]
  show ?thesis
  proof (cases "onRequest cause request data t w")
    case (Inl f)
    with triple_Inl [OF o s] show ?thesis by simp
  next
    case (Inr p)
    obtain w' where "p = ((), w')" by (cases p) auto
    with Inr triple_Inr [OF o s, of "()" w'] show ?thesis by (simp add: sound_def)
  qed
qed

theorem request_completed_once_witness:
  "regular_request (Some RIL_REQUEST_DIAL) \<and> data_ok (Some RIL_REQUEST_DIAL) (DDial ''611'' 0) \<and>
   (case onRequest 0 (Some RIL_REQUEST_DIAL) (DDial ''611'' 0) 7
      (start_world (zero_ctx\<lparr>sState := RADIO_STATE_SIM_READY\<rparr>) [[Line ''RING'', Line ''OK'']]) of
      Inl f \<Rightarrow> f = Blocked
    | Inr (_, w') \<Rightarrow> completions 7 (ril w') = Suc (completions 7 []) \<and>
        chan_ok (chan w') \<and> modem_ok (modem w'))"
proof -
  let ?w = "start_world (zero_ctx\<lparr>sState := RADIO_STATE_SIM_READY\<rparr>) [[Line ''RING'', Line ''OK'']]"
  have h: "regular_request (Some RIL_REQUEST_DIAL)" "data_ok (Some RIL_REQUEST_DIAL) (DDial ''611'' 0)"
    "chan_ok (chan ?w)" "modem_ok (modem ?w)"
    using fresh_chan_ok(1)
    by (auto simp: regular_request_def data_ok_def modem_ok_def ev_ok_def isSMSUnsolicited_iff
        strStartsWith_iff)
  from request_completed_once [OF h, of 7 0, unfolded start_world_sel] h(1,2) show ?thesis by simp
qed

text \<open>
  While the radio is off, every request but the three that are allowed is answered at once
  with \<^verbatim>\<open>RADIO_NOT_AVAILABLE\<close>; nothing is sent to the modem and nothing else changes.
\<close>

theorem radio_off_guard:
  assumes "sState (ctx w) = RADIO_STATE_OFF"
    and "request \<notin> Some ` {RIL_REQUEST_RADIO_POWER, RIL_REQUEST_GET_SIM_STATUS, RIL_REQUEST_SCREEN_STATE}"
  shows "onRequest cause request data t w =
    Inr ((), w\<lparr>ril := ril w @ [Complete t RIL_E_RADIO_NOT_AVAILABLE PNull]\<rparr>)"
  using assms by (auto simp: onRequest_def bind_act_def RIL_onRequestComplete_def)

theorem radio_off_guard_witness:
  "onRequest 0 (Some RIL_REQUEST_DIAL) (DDial ''611'' 0) 7 (start_world zero_ctx []) =
    Inr ((), (start_world zero_ctx [])\<lparr>ril := [Complete 7 RIL_E_RADIO_NOT_AVAILABLE PNull]\<rparr>)"
  using radio_off_guard [of "start_world zero_ctx []" "Some RIL_REQUEST_DIAL" 0 "DDial ''611'' 0" 7]
  by (simp add: zero_ctx_def image_iff)

text \<open>
  The list of data calls completes its request twice, once with success and once with a
  failure, although the RIL library expects one answer per token.
\<close>

theorem data_call_list_completes_twice:
  assumes "sState (ctx w) \<noteq> RADIO_STATE_OFF"
  shows "\<exists>w' p. onRequest cause (Some RIL_REQUEST_DATA_CALL_LIST) data t w = Inr ((), w') \<and>
    ril w' = ril w @ [Complete t RIL_E_SUCCESS p, Complete t RIL_E_GENERIC_FAILURE PNull] \<and>
    completions t (ril w') = completions t (ril w) + 2"
  using assms
  by (simp add: onRequest_def dispatch_def requestDataCallList_def bind_act_def seq_act_def
      RIL_onRequestComplete_def completions_def)

theorem data_call_list_completes_twice_witness:
  "\<exists>w' p. onRequest 0 (Some RIL_REQUEST_DATA_CALL_LIST) DNull 7
      (start_world (zero_ctx\<lparr>sState := RADIO_STATE_SIM_READY\<rparr>) []) = Inr ((), w') \<and>
    ril w' = [Complete 7 RIL_E_SUCCESS p, Complete 7 RIL_E_GENERIC_FAILURE PNull] \<and>
    completions 7 (ril w') = 2"
  using data_call_list_completes_twice
    [of "start_world (zero_ctx\<lparr>sState := RADIO_STATE_SIM_READY\<rparr>) []" 0 DNull 7]
  by (simp add: completions_def numeral_2_eq_2)

text \<open>
  Acknowledging a short message: when the command has returned, the request is completed
  twice, with success and then with a failure.
\<close>

theorem sms_acknowledge_completes_twice:
  assumes "sState (ctx w) \<noteq> RADIO_STATE_OFF" "data_int data \<in> {Inr 0, Inr 1}"
    and "chan_ok (chan w)" "modem_ok (modem w)"
    and "onRequest cause (Some RIL_REQUEST_SMS_ACKNOWLEDGE) data t w = Inr ((), w')"
  shows "completions t (ril w') = completions t (ril w) + 2"
proof -
  let ?n = "completions t (ril w)"
  from assms(2) obtain a where a: "data_int data = Inr a" "a = 1 \<or> a = 0" by auto
  have s: "sound t ?n w" using assms(3,4) by (simp add: sound_def)
  have "requestSMSAcknowledge data t w = Inr ((), w')"
    using assms(1,5) by (simp add: onRequest_def dispatch_def bind_act_def)
  then have r: "seq_act (send_only (if a = 1 then ''AT+CNMA=1'' else ''AT+CNMA=2''))
      (seq_act (RIL_onRequestComplete t RIL_E_SUCCESS PNull)
        (RIL_onRequestComplete t RIL_E_GENERIC_FAILURE PNull)) w = Inr ((), w')"
    using a by (simp add: requestSMSAcknowledge_def bind_act_def)
  have "triple (sound t ?n) (seq_act (send_only cmd)
      (seq_act (RIL_onRequestComplete t RIL_E_SUCCESS PNull)
        (RIL_onRequestComplete t RIL_E_GENERIC_FAILURE PNull))) (\<lambda>_. sound t (Suc (Suc ?n)))" for cmd
    by (intro triple_seq [OF triple_send_only] triple_seq [OF triple_complete] triple_complete)
  from triple_Inr [OF this s r] show ?thesis by (simp add: sound_def)
qed

lemma sms_acknowledge_run:
  "\<exists>w'. onRequest 0 (Some RIL_REQUEST_SMS_ACKNOWLEDGE) (DInts [1]) 7
     (start_world (zero_ctx\<lparr>sState := RADIO_STATE_SIM_READY\<rparr>) [[Line ''OK'']]) = Inr ((), w')"
proof -
  have "case onRequest 0 (Some RIL_REQUEST_SMS_ACKNOWLEDGE) (DInts [1]) 7
     (start_world (zero_ctx\<lparr>sState := RADIO_STATE_SIM_READY\<rparr>) [[Line ''OK'']]) of
     Inl _ \<Rightarrow> False | Inr _ \<Rightarrow> True"
    by code_simp
  then show ?thesis by (auto split: sum.splits)
qed

theorem sms_acknowledge_completes_twice_witness:
  "\<exists>w'. onRequest 0 (Some RIL_REQUEST_SMS_ACKNOWLEDGE) (DInts [1]) 7
     (start_world (zero_ctx\<lparr>sState := RADIO_STATE_SIM_READY\<rparr>) [[Line ''OK'']]) = Inr ((), w') \<and>
   completions 7 (ril w') = 2"
proof -
  let ?w = "start_world (zero_ctx\<lparr>sState := RADIO_STATE_SIM_READY\<rparr>) [[Line ''OK'']]"
  from sms_acknowledge_run obtain w' where
    r: "onRequest 0 (Some RIL_REQUEST_SMS_ACKNOWLEDGE) (DInts [1]) 7 ?w = Inr ((), w')" by blast
  have "sState (ctx ?w) \<noteq> RADIO_STATE_OFF" "data_int (DInts [1]) \<in> {Inr 0, Inr 1}"
    "chan_ok (chan ?w)" "modem_ok (modem ?w)"
    using fresh_chan_ok(1)
    by (auto simp: data_int_def modem_ok_def ev_ok_def isSMSUnsolicited_iff strStartsWith_iff)
  from sms_acknowledge_completes_twice [OF this r] r show ?thesis by (auto simp: completions_def)
qed

end
