(* ===== verification/AtSequential.thy ===== *)
theory AtSequential
  imports AtThreads
begin

text \<open>
  The sequential model of \<^verbatim>\<open>at_send_command_full\<close> as an abstraction of the threads: in a schedule that
  lets a thread go on before more input is handled, each call returns what the sequential
  definition computes from the events in their order, for one call and for any sequence of calls
  by any threads.
\<close>

section \<open>Taking turns\<close>

text \<open>
  Threads that take turns: a thread sends its command when no other is inside the call, and a
  thread that is awake goes on before the reader thread handles more input; the channel is not
  closed. What happens in such a schedule is a list of events.
\<close>

fun is_awake :: "cmd_thread \<Rightarrow> bool" where
  "is_awake (CmdWoken _) = True"
| "is_awake (CmdExpired _) = True"
| "is_awake _ = False"

definition quiet :: "at_sys \<Rightarrow> bool" where
  "quiet s \<longleftrightarrow> \<not> list_ex is_active (sy_threads s)"

fun in_turn :: "at_act \<Rightarrow> at_sys \<Rightarrow> bool" where
  "in_turn (Enter i) s = quiet s"
| "in_turn (Read e who) s = (\<not> list_ex is_awake (sy_threads s))"
| "in_turn (Close who) s = False"
| "in_turn _ s = True"

fun is_enter :: "at_act \<Rightarrow> bool" where
  "is_enter (Enter i) = True"
| "is_enter _ = False"

fun act_events :: "at_act \<Rightarrow> cmd_event list" where
  "act_events (Read e who) = [e]"
| "act_events (Wake i) = [Spurious]"
| "act_events (Expire i) = [TimedOut]"
| "act_events _ = []"

abbreviation events :: "at_act list \<Rightarrow> cmd_event list" where
  "events as \<equiv> concat (map act_events as)"

text \<open>
  The abstract machine has no threads inside the call. Between the calls the reader thread handles
  its input; a turn is a whole call of the sequential definition on the events up to the next
  turn, with the input that is left after the call, and the caller's entry gets the result.
\<close>

fun read_on :: "cmd_event list \<Rightarrow> at_sys \<Rightarrow> at_sys c_result" where
  "read_on [] s = Inr s"
| "read_on (e # es) s = and_then (reader_event e (sy_chan s)) (\<lambda>(ch, cbs).
     read_on es (s\<lparr>sy_chan := ch, sy_cbs := sy_cbs s @ cbs\<rparr>))"

definition turn :: "nat \<Rightarrow> cmd_args \<Rightarrow> cmd_event list \<Rightarrow> at_sys \<Rightarrow> at_sys c_result" where
  "turn i args es s =
     and_then (at_send_command_full CommandThread (ca_command args) (ca_type args) (ca_prefix args)
         (ca_pdu args) (ca_timeout args) (ca_want args) es (sy_chan s)) (\<lambda>res.
       read_on (cr_rest res)
         ((set_thread i (CmdReturned args (cr_err res) (cr_out res)) s)
            \<lparr>sy_chan := cr_chan res, sy_cbs := sy_cbs s @ cr_cbs res\<rparr>))"

function sequential :: "at_act list \<Rightarrow> at_sys \<Rightarrow> at_sys c_result" where
  "sequential [] s = Inr s"
| "sequential (a # as) s = (case a of
       Enter i \<Rightarrow> (case thread_at i s of
           Some (CmdReady args) \<Rightarrow>
             and_then (turn i args (events (takeWhile (\<lambda>b. \<not> is_enter b) as)) s)
               (sequential (dropWhile (\<lambda>b. \<not> is_enter b) as))
         | _ \<Rightarrow> Inl Blocked)
     | _ \<Rightarrow> and_then (read_on (act_events a) s) (sequential as))"
  by pat_completeness auto
termination by (relation "measure (\<lambda>(as, s). length as)") (auto simp: le_imp_less_Suc length_dropWhile_le)

section \<open>The sequential view of a command\<close>

text \<open>What the call still does from inside.\<close>

fun remaining :: "cmd_thread \<Rightarrow> cmd_event list \<Rightarrow> at_chan \<Rightarrow>
    (bool \<times> at_chan \<times> callback list \<times> cmd_event list) c_result" where
  "remaining (CmdWaiting args) es ch = wait_loop (ca_timeout args) es ch"
| "remaining (CmdWoken args) es ch = wait_loop (ca_timeout args) es ch"
| "remaining (CmdExpired args) es ch = Inr (True, ch, [], es)"
| "remaining _ es ch = Inl Blocked"

fun thread_args :: "cmd_thread \<Rightarrow> cmd_args" where
  "thread_args (CmdReady args) = args"
| "thread_args (CmdWaiting args) = args"
| "thread_args (CmdWoken args) = args"
| "thread_args (CmdExpired args) = args"
| "thread_args (CmdReturned args err out) = args"

definition before :: "callback list \<Rightarrow> (bool \<times> at_chan \<times> callback list \<times> cmd_event list) c_result \<Rightarrow>
    (bool \<times> at_chan \<times> callback list \<times> cmd_event list) c_result" where
  "before cbs r = and_then r (\<lambda>(t, ch, cbs', rest). Inr (t, ch, cbs @ cbs', rest))"

lemma before_simps [simp]:
  "before [] r = r" "before cbs (Inr (t, ch, cbs', rest)) = Inr (t, ch, cbs @ cbs', rest)"
  by (cases r; auto simp: before_def)+

lemma remaining_event:
  assumes "owns args ch" "\<not> wait_over ch" "reader_event e ch = Inr (ch', cbs)" "e \<noteq> TimedOut"
  shows "remaining (CmdWaiting args) (e # es) ch = before cbs (wait_loop (ca_timeout args) es ch')"
  using assms wait_loop_Cons [of ch "ca_timeout args" e es] by (simp add: owns_def before_def)

lemma thread_self:
  assumes "serial_ok s" "thread_at i s = Some t" "is_active t" "thread_at j s = Some u" "is_active u"
  shows "j = i \<and> u = t"
  using assms active_unique [OF assms] by auto

lemma thread_same: "thread_at i s = Some t \<Longrightarrow> (sy_threads s)[i := t] = sy_threads s"
  by (auto simp: thread_at_def split: if_splits)

lemma threads_set [simp]: "sy_threads (set_thread i t s) = (sy_threads s)[i := t]"
  by (simp add: set_thread_def)

text \<open>A piece of the schedule after which thread \<open>i\<close> is still inside the call.\<close>

definition moves :: "nat \<Rightarrow> cmd_thread \<Rightarrow> cmd_thread \<Rightarrow> callback list \<Rightarrow> at_sys \<Rightarrow> at_sys \<Rightarrow> bool" where
  "moves i t t' cbs s s' \<longleftrightarrow> is_active t' \<and> thread_args t' = thread_args t \<and>
     sy_threads s' = (sy_threads s)[i := t'] \<and> sy_cbs s' = sy_cbs s @ cbs"

lemma moves_thread: "moves i t t' cbs s s' \<Longrightarrow> thread_at i s = Some t \<Longrightarrow> thread_at i s' = Some t'"
  by (auto simp: moves_def thread_at_def split: if_splits)

lemma remaining_reader:
  assumes "serial_ok s" "thread_at i s = Some t" "is_active t"
    and "\<not> list_ex is_awake (sy_threads s)" "at_exec (Read e who) s = Some (Inr s')"
  shows "\<exists>t' cbs. moves i t t' cbs s s' \<and>
    remaining t (e # es) (sy_chan s) = before cbs (remaining t' es (sy_chan s'))"
proof -
  have "\<not> is_awake t" using assms(2,4) by (auto simp: list_ex_threads)
  with assms(3) obtain args where t: "t = CmdWaiting args" by (cases t) auto
  have ok: "owns args (sy_chan s)" "\<not> wait_over (sy_chan s)"
    using serial_ok_thread [OF assms(1,2)] t by simp_all
  then have p: "pending_ok (sy_chan s)" by (simp add: owns_def waiting_ok_def)
  obtain ch cbs where e: "reader_event e (sy_chan s) = Inr (ch, cbs)" using reader_event_no_fault [OF p] by blast
  let ?s = "s\<lparr>sy_chan := ch, sy_cbs := sy_cbs s @ cbs\<rparr>"
  have ne: "e \<noteq> TimedOut" and sg: "signal_if (reader_signals e (sy_chan s)) who ?s = Some (Inr s')"
    using assms(5) e by (auto simp: reader_step_def split: if_splits)
  have "s' = ?s \<or> s' = set_thread i (CmdWoken args) ?s"
    using signal_if_cases [OF sg] thread_self [OF assms(1-3)] t by fastforce
  then have "sy_chan s' = ch \<and> (moves i t t cbs s s' \<or> moves i t (CmdWoken args) cbs s s')"
    using t assms(2) thread_same [of i s t] by (auto simp: moves_def)
  then obtain t' where "sy_chan s' = ch" "moves i t t' cbs s s'" "t' = t \<or> t' = CmdWoken args" by blast
  with remaining_event [OF ok e ne, of es] t show ?thesis by (intro exI [of _ t'] exI [of _ cbs]) auto
qed

lemma remaining_stir:
  assumes "serial_ok s" "thread_at i s = Some t" "is_active t" "at_exec a s = Some (Inr s')"
    and "a = Wake j \<or> a = Expire j"
  shows "\<exists>t'. moves i t t' [] s s' \<and>
    remaining t (act_events a @ es) (sy_chan s) = remaining t' es (sy_chan s')"
proof -
  from assms(4,5) obtain args where w: "thread_at j s = Some (CmdWaiting args)"
    by (auto split: option.splits cmd_thread.splits)
  with thread_self [OF assms(1-3) this] have ij: "j = i" "t = CmdWaiting args" by auto
  have ok: "owns args (sy_chan s)" "\<not> wait_over (sy_chan s)"
    using serial_ok_thread [OF assms(1) w] by simp_all
  have "wait_loop (ca_timeout args) (Spurious # es) (sy_chan s) = wait_loop (ca_timeout args) es (sy_chan s)"
    using remaining_event [OF ok, of Spurious "sy_chan s" "[]" es] by (simp add: reader_event_def)
  moreover have "ca_timeout args \<noteq> 0 \<Longrightarrow> wait_loop (ca_timeout args) (TimedOut # es) (sy_chan s) = Inr (True, sy_chan s, [], es)"
    using ok wait_loop_Cons [of "sy_chan s" "ca_timeout args" TimedOut es] by (simp add: owns_def)
  ultimately show ?thesis using assms(4,5) w ij
    by (intro exI [of _ "if a = Wake j then CmdWoken args else CmdExpired args"])
      (auto simp: moves_def split: if_splits)
qed

lemma remaining_resume:
  assumes "serial_ok s" "thread_at i s = Some t" "is_active t" "at_exec (Resume j) s = Some (Inr s')"
  shows "moves i t (CmdWaiting (thread_args t)) [] s s' \<and> sy_chan s' = sy_chan s \<and>
      (\<forall>es ch. remaining t es ch = remaining (CmdWaiting (thread_args t)) es ch) \<or>
    (\<exists>timedout. (\<forall>es. remaining t es (sy_chan s) = Inr (timedout, sy_chan s, [], es)) \<and>
      s' = cmd_return i (thread_args t) (finish_command (ca_want (thread_args t)) timedout (sy_chan s) [] []) s)"
proof -
  from assms(4) obtain u where u: "thread_at j s = Some u" "is_awake u"
    by (auto split: option.splits cmd_thread.splits)
  then have "is_active u" by (cases u) auto
  with thread_self [OF assms(1-3) u(1)] have ij: "j = i" "u = t" by auto
  show ?thesis
  proof (cases t)
    case (CmdWoken args)
    then have ok: "owns args (sy_chan s)" using serial_ok_thread [OF assms(1,2)] by simp
    then show ?thesis using CmdWoken assms(2,4) ij cmd_check_owned [OF ok]
      by (auto simp: wait_loop_over moves_def split: if_splits)
  next
    case (CmdExpired args)
    with assms(2,4) ij show ?thesis by (auto simp: cmd_expired_def)
  qed (use u ij in auto)
qed

text \<open>One piece of the schedule, inside the call.\<close>

lemma remaining_step:
  assumes "serial_ok s" "thread_at i s = Some t" "is_active t" "in_turn a s" "at_exec a s = Some (Inr s')"
  shows "(\<exists>t' cbs. moves i t t' cbs s s' \<and>
      remaining t (act_events a @ es) (sy_chan s) = before cbs (remaining t' es (sy_chan s'))) \<or>
    (\<exists>timedout. remaining t (act_events a @ es) (sy_chan s) = Inr (timedout, sy_chan s, [], es) \<and>
      s' = cmd_return i (thread_args t) (finish_command (ca_want (thread_args t)) timedout (sy_chan s) [] []) s)"
proof (cases a)
  case (Enter j)
  with assms(2-4) show ?thesis by (auto simp: quiet_def list_ex_threads)
next
  case (Resume j)
  from remaining_resume [OF assms(1-3) assms(5) [unfolded Resume]] show ?thesis
  proof (elim disjE)
    assume "moves i t (CmdWaiting (thread_args t)) [] s s' \<and> sy_chan s' = sy_chan s \<and>
      (\<forall>es ch. remaining t es ch = remaining (CmdWaiting (thread_args t)) es ch)"
    with Resume show ?thesis
      by (intro disjI1 exI [of _ "CmdWaiting (thread_args t)"] exI [of _ "[]"]) simp
  qed (use Resume in auto)
next
  case (Wake j)
  with remaining_stir [OF assms(1-3,5), of j es] show ?thesis by (metis before_simps(1))
next
  case (Expire j)
  with remaining_stir [OF assms(1-3,5), of j es] show ?thesis by (metis before_simps(1))
next
  case (Read e who)
  with remaining_reader [OF assms(1-3), of e who s' es] assms(4,5) show ?thesis by simp
qed (use assms(4) in auto)

text \<open>A piece of the schedule while no thread is inside the call: input, and nothing else.\<close>

lemma quiet_thread: "quiet s \<Longrightarrow> thread_at i s = Some t \<Longrightarrow> \<not> is_active t"
  by (auto simp: quiet_def list_ex_threads)

lemma quiet_step:
  assumes "serial_ok s" "quiet s" "in_turn a s" "\<not> is_enter a" "at_exec a s = Some (Inr s')"
  shows "read_on (act_events a) s = Inr s' \<and> quiet s'"
proof -
  note no = quiet_thread [OF assms(2)]
  from assms(3-5) no obtain e who where a: "a = Read e who"
    by (cases a) (fastforce split: option.splits cmd_thread.splits)+
  then obtain ch cbs where e: "reader_event e (sy_chan s) = Inr (ch, cbs)"
    and "signal_if (reader_signals e (sy_chan s)) who (s\<lparr>sy_chan := ch, sy_cbs := sy_cbs s @ cbs\<rparr>) = Some (Inr s')"
    using assms(5) by (auto simp: reader_step_def split: if_splits sum.splits)
  from signal_if_cases [OF this(2)] no have "s' = s\<lparr>sy_chan := ch, sy_cbs := sy_cbs s @ cbs\<rparr>" by fastforce
  with a e assms(2) show ?thesis by (simp add: quiet_def)
qed

lemma in_turn_serial: "in_turn a s \<Longrightarrow> one_at_a_time a s"
  by (cases a) (auto simp: quiet_def)

lemma in_turn_keeps: "serial_ok s \<Longrightarrow> guarded in_turn at_exec a s = Some (Inr s') \<Longrightarrow> serial_ok s'"
  using serial.keeps [of s a s'] in_turn_serial [of a s] by simp

lemma read_on_append: "read_on (es @ es') s = and_then (read_on es s) (read_on es')"
  by (induction es arbitrary: s) (auto simp: and_then_assoc split_def)

lemma quiet_run:
  assumes "run (guarded in_turn at_exec) s as s'" "serial_ok s" "quiet s" "list_all (\<lambda>a. \<not> is_enter a) as"
  shows "read_on (events as) s = Inr s' \<and> quiet s'"
  using assms
proof (induction rule: run.induct)
  case (run_step a s u as s')
  then have u: "read_on (act_events a) s = Inr u" "quiet u" using quiet_step [of s a u] by simp_all
  with run_step in_turn_keeps [OF run_step.prems(1) run_step.hyps(1)] show ?case
    by (simp add: read_on_append)
qed simp


text \<open>A whole turn, from inside the call.\<close>

definition timeout_cb :: "cmd_result \<Rightarrow> callback list" where
  "timeout_cb res = (if cr_err res = AT_ERROR_TIMEOUT \<and> s_onTimeout (cr_chan res) then [CbTimeout] else [])"

definition returned :: "nat \<Rightarrow> cmd_args \<Rightarrow> cmd_result \<Rightarrow> at_sys \<Rightarrow> at_sys" where
  "returned i args res s = (set_thread i (CmdReturned args (cr_err res) (cr_out res)) s)
     \<lparr>sy_chan := cr_chan res, sy_cbs := sy_cbs s @ cr_cbs res @ timeout_cb res\<rparr>"

definition completes :: "cmd_args \<Rightarrow> (bool \<times> at_chan \<times> callback list \<times> cmd_event list) c_result \<Rightarrow>
    nat \<Rightarrow> at_sys \<Rightarrow> at_sys \<Rightarrow> bool" where
  "completes args rem i s s' \<longleftrightarrow> (\<exists>timedout ch cbs rest. rem = Inr (timedout, ch, cbs, rest) \<and>
     read_on rest (returned i args (finish_command (ca_want args) timedout ch cbs rest) s) = Inr s')"

lemma cmd_return_returned:
  "cmd_return i args (finish_command want b ch [] []) (s\<lparr>sy_chan := c\<rparr>) = returned i args (finish_command want b ch [] rest) s"
  by (simp add: returned_def cmd_return_def timeout_cb_def finish_command_def set_thread_def)

lemma returned_moves:
  assumes "moves i t t' cbs s u"
  shows "returned i args (finish_command want b ch cbs' rest) u = returned i args (finish_command want b ch (cbs @ cbs') rest) s"
  using assms by (simp add: returned_def moves_def set_thread_def timeout_cb_def finish_results finish_command_def)

lemma completes_before:
  assumes "moves i t t' cbs s u" "completes args rem i u s'"
  shows "completes args (before cbs rem) i s s'"
proof -
  from assms(2) obtain b ch cbs' rest where "rem = Inr (b, ch, cbs', rest)"
    and "read_on rest (returned i args (finish_command (ca_want args) b ch cbs' rest) u) = Inr s'"
    by (auto simp: completes_def)
  then show ?thesis by (auto simp: completes_def returned_moves [OF assms(1)])
qed

lemma completes_return:
  assumes "thread_at i s = Some t" "serial_ok (cmd_return i args (finish_command (ca_want args) b ch [] []) s)"
    and "\<And>j u. thread_at j s = Some u \<Longrightarrow> is_active u \<Longrightarrow> j = i"
    and "run (guarded in_turn at_exec) (cmd_return i args (finish_command (ca_want args) b ch [] []) s) as s'"
    and "list_all (\<lambda>a. \<not> is_enter a) as"
  shows "completes args (Inr (b, ch, [], events as)) i s s'"
proof -
  let ?u = "cmd_return i args (finish_command (ca_want args) b ch [] []) s"
  have "quiet ?u" using assms(1,3) by (auto simp: quiet_def list_ex_threads split: if_splits)
  with quiet_run [OF assms(4,2) _ assms(5)] have "read_on (events as) ?u = Inr s'" by blast
  moreover have "?u = returned i args (finish_command (ca_want args) b ch [] (events as)) s"
    by (simp add: returned_def cmd_return_def timeout_cb_def finish_command_def)
  ultimately show ?thesis by (simp add: completes_def)
qed

lemma turn_inside:
  assumes "run (guarded in_turn at_exec) s as s'" "serial_ok s" "thread_at i s = Some t" "is_active t"
    and "quiet s'" "list_all (\<lambda>a. \<not> is_enter a) as"
  shows "completes (thread_args t) (remaining t (events as) (sy_chan s)) i s s'"
  using assms
proof (induction arbitrary: t rule: run.induct)
  case (run_none s)
  then show ?case by (auto dest: quiet_thread)
next
  case (run_step a s u as s')
  from run_step.hyps(1) have a: "in_turn a s" "at_exec a s = Some (Inr u)" by auto
  have ok: "serial_ok u" using in_turn_keeps [OF run_step.prems(1) run_step.hyps(1)] .
  have as: "list_all (\<lambda>a. \<not> is_enter a) as" using run_step.prems(5) by simp
  from remaining_step [OF run_step.prems(1-3) a, of "events as"] show ?case
  proof (elim disjE exE conjE)
    fix t' cbs assume m: "moves i t t' cbs s u"
      and r: "remaining t (act_events a @ events as) (sy_chan s) = before cbs (remaining t' (events as) (sy_chan u))"
    have t': "thread_at i u = Some t'" "is_active t'" "thread_args t' = thread_args t"
      using m run_step.prems(2) by (auto simp: moves_def dest: moves_thread [OF m])
    from completes_before [OF m run_step.IH [OF ok t'(1,2) run_step.prems(4) as]] r t'(3) show ?thesis by simp
  next
    fix b assume r: "remaining t (act_events a @ events as) (sy_chan s) = Inr (b, sy_chan s, [], events as)"
      and u: "u = cmd_return i (thread_args t) (finish_command (ca_want (thread_args t)) b (sy_chan s) [] []) s"
    from completes_return [OF run_step.prems(2) _ active_unique [OF run_step.prems(1-3)] _ as] ok run_step.hyps(2) u r
    show ?thesis by simp
  qed
qed

text \<open>From the check behind the start of the command, and from the call.\<close>

lemma turn_started:
  assumes "owns args ch" "cmd_check i args (s\<lparr>sy_chan := ch\<rparr>) = Inr u" "serial_ok u" "thread_at i s = Some t" "quiet s"
    and "run (guarded in_turn at_exec) u as s'" "quiet s'" "list_all (\<lambda>a. \<not> is_enter a) as"
  shows "completes args (wait_loop (ca_timeout args) (events as) ch) i s s'"
proof (cases "wait_over ch")
  case True
  with assms(1,2) have u: "u = cmd_return i args (finish_command (ca_want args) False ch [] []) s"
    by (simp add: cmd_check_owned cmd_return_def set_thread_def)
  have "\<And>j v. thread_at j s = Some v \<Longrightarrow> is_active v \<Longrightarrow> j = i" using quiet_thread [OF assms(5)] by blast
  from completes_return [OF assms(4) _ this _ assms(8)] u assms(3,6) True show ?thesis
    by (simp add: wait_loop_over)
next
  case False
  with assms(1,2) have u: "u = set_thread i (CmdWaiting args) (s\<lparr>sy_chan := ch\<rparr>)" by (simp add: cmd_check_owned)
  have "completes args (wait_loop (ca_timeout args) (events as) ch) i u s'"
    using turn_inside [OF assms(6,3) _ _ assms(7,8), of i "CmdWaiting args"] u assms(4) by simp
  moreover have "moves i (CmdWaiting args) (CmdWaiting args) [] s u" using u by (simp add: moves_def)
  ultimately show ?thesis using completes_before by fastforce
qed

lemma turn_waited:
  assumes "start_command (ca_command args) (ca_type args) (ca_prefix args) (ca_pdu args) (sy_chan s) = (e, ch)"
    and "\<not> e < 0" "wait_loop (ca_timeout args) es ch = Inr (b, ch', cbs, rest)"
  shows "turn i args es s = read_on rest (returned i args (finish_command (ca_want args) b ch' cbs rest) s)"
  using assms by (auto simp: returned_def turn_def at_send_command_full_def at_send_command_full_nolock_def
      timeout_cb_def finish_results)

lemma turn_command:
  assumes "serial_ok s" "quiet s" "thread_at i s = Some (CmdReady args)"
    and "run (guarded in_turn at_exec) s (Enter i # as) s'" "quiet s'" "list_all (\<lambda>a. \<not> is_enter a) as"
  shows "turn i args (events as) s = Inr s'"
proof -
  have idle: "idle (sy_chan s)" using assms(1) quiet_thread [OF assms(2)] by (auto simp: serial_ok_def)
  obtain u where u: "cmd_enter i args s = Inr u" and r: "run (guarded in_turn at_exec) u as s'"
    using assms(3,4) by (auto simp: run_Cons_iff)
  obtain e ch where st: "start_command (ca_command args) (ca_type args) (ca_prefix args) (ca_pdu args) (sy_chan s) = (e, ch)"
    by fastforce
  have ok: "serial_ok u" using serial_ok_enter [OF assms(1,3) quiet_thread [OF assms(2)]] u by auto
  show ?thesis
  proof (cases "e < 0")
    case True
    let ?res = "\<lparr>cr_err = e, cr_out = None, cr_chan = clearPendingCommand ch, cr_cbs = [], cr_rest = []\<rparr>"
    have "e \<noteq> AT_ERROR_TIMEOUT" using start_command_err [OF st] by (auto simp: at_error_defs)
    moreover have v: "u = cmd_return i args ?res s" using u True st by (simp add: cmd_enter_def)
    moreover have "quiet u" using v quiet_thread [OF assms(2)] by (auto simp: quiet_def list_ex_threads split: if_splits)
    ultimately show ?thesis using True st quiet_run [OF r ok _ assms(6)]
      by (simp add: turn_def at_send_command_full_def at_send_command_full_nolock_def cmd_return_def)
  next
    case False
    have own: "owns args ch"
      using serial_ok_thread [OF assms(1,3)] start_command_owns [OF idle st False] assms(1) by (simp add: serial_ok_def)
    have c: "cmd_check i args (s\<lparr>sy_chan := ch\<rparr>) = Inr u" using u st False by (simp add: cmd_enter_def)
    from turn_started [OF own c ok assms(3,2) r assms(5,6)] turn_waited [OF st False] show ?thesis
      by (auto simp: completes_def)
  qed
qed

text \<open>The whole schedule.\<close>

lemma quiet_before_turn:
  assumes "run (guarded in_turn at_exec) s (dropWhile (\<lambda>a. \<not> is_enter a) as) s'" "quiet s'"
  shows "quiet s"
proof (cases "dropWhile (\<lambda>a. \<not> is_enter a) as")
  case (Cons b bs)
  then have "is_enter b" by (simp add: dropWhile_eq_Cons_conv)
  with assms(1) Cons show ?thesis by (cases b) (auto simp: run_Cons_iff)
next
  case Nil
  with assms show ?thesis by (simp only: run_Nil_iff)
qed

lemma all_takeWhile: "list_all P (takeWhile P xs)"
  by (induction xs) auto

lemma turns_sequential:
  assumes "run (guarded in_turn at_exec) s as s'" "serial_ok s" "quiet s" "quiet s'"
  shows "sequential as s = Inr s'"
  using assms
proof (induction as s rule: sequential.induct)
  case (2 a as s)
  show ?case
  proof (cases a)
    case (Enter i)
    let ?as = "takeWhile (\<lambda>b. \<not> is_enter b) as" and ?bs = "dropWhile (\<lambda>b. \<not> is_enter b) as"
    from 2(7) Enter obtain args where t: "thread_at i s = Some (CmdReady args)"
      by (auto simp: run_Cons_iff split: option.splits cmd_thread.splits)
    from run_split [of _ s "Enter i # ?as" ?bs s'] 2(7) Enter obtain u
      where r: "run (guarded in_turn at_exec) s (Enter i # ?as) u" "run (guarded in_turn at_exec) u ?bs s'" by auto
    have ok: "serial_ok u" by (rule run_keeps [OF r(1), where I = serial_ok]) (use 2(8) in_turn_keeps in auto)
    have "turn i args (events ?as) s = Inr u"
      by (rule turn_command [OF 2(8,9) t r(1) quiet_before_turn [OF r(2) 2(10)] all_takeWhile])
    with 2(1) [OF Enter t] r(2) ok quiet_before_turn [OF r(2) 2(10)] 2(10) Enter t show ?thesis by simp
  next
    case (Read e who)
    from 2(7) obtain u where u: "guarded in_turn at_exec a s = Some (Inr u)" "run (guarded in_turn at_exec) u as s'"
      by (auto simp: run_Cons_iff)
    with quiet_step [OF 2(8,9), of a u] Read have q: "read_on (act_events a) s = Inr u" "quiet u" by auto
    with 2(5) [OF Read q(1) u(2) in_turn_keeps [OF 2(8) u(1)] q(2) 2(10)] q(1) Read show ?thesis by simp
  qed (use 2(7,9) in \<open>auto simp: run_Cons_iff split: option.splits cmd_thread.splits dest!: quiet_thread\<close>)
qed simp

section \<open>The threads can do whatever the sequential machine does\<close>

abbreviation reach :: "at_sys \<Rightarrow> at_sys \<Rightarrow> bool" where
  "reach s s' \<equiv> (\<exists>as. run (guarded in_turn at_exec) s as s')"

lemma reach_refl: "reach s s"
  by (rule exI [of _ "[]"]) (rule run_none)

lemma reach_trans: "reach s u \<Longrightarrow> reach u s' \<Longrightarrow> reach s s'"
  using run_append [where exec = "guarded in_turn at_exec"] by blast

lemma reach_step: "in_turn a s \<Longrightarrow> at_exec a s = Some (Inr u) \<Longrightarrow> reach u s' \<Longrightarrow> reach s s'"
  using run_step [where exec = "guarded in_turn at_exec" and a = a and s = s and s' = u] by auto

text \<open>An event the reader thread has no part in.\<close>

lemma no_reader_event: "e = TimedOut \<or> e = Spurious \<Longrightarrow> reader_event e ch = Inr (ch, [])"
  by (auto simp: reader_event_def)

lemma reach_read_on:
  "serial_ok s \<Longrightarrow> quiet s \<Longrightarrow> read_on es s = Inr s' \<Longrightarrow> reach s s' \<and> serial_ok s' \<and> quiet s'"
proof (induction es arbitrary: s)
  case (Cons e es)
  from Cons.prems(3) obtain ch cbs where e: "reader_event e (sy_chan s) = Inr (ch, cbs)"
    and r: "read_on es (s\<lparr>sy_chan := ch, sy_cbs := sy_cbs s @ cbs\<rparr>) = Inr s'" (is "read_on es ?s = _")
    by (auto simp: c_simps)
  show ?case
  proof (cases "e = TimedOut \<or> e = Spurious")
    case True
    with e no_reader_event [OF True] have "?s = s" by simp
    with Cons.IH [OF Cons.prems(1,2)] r show ?thesis by simp
  next
    case False
    have no: "\<not> list_ex is_waiting (sy_threads s)" "\<not> list_ex is_awake (sy_threads s)"
      using quiet_thread [OF Cons.prems(2)] by (fastforce simp: list_ex_threads elim: is_waiting.elims is_awake.elims)+
    with False e have x: "at_exec (Read e None) s = Some (Inr ?s)" "in_turn (Read e None) s"
      by (auto simp: reader_step_def signal_if_def cond_signal_def)
    have ok: "serial_ok ?s" by (rule in_turn_keeps [OF Cons.prems(1), of "Read e None"]) (use x in simp)
    have "quiet ?s" using Cons.prems(2) by (simp add: quiet_def)
    from Cons.IH [OF ok this r] reach_step [OF x(2,1)] show ?thesis by blast
  qed
qed (use reach_refl in auto)

text \<open>A waiting thread, through the events of the wait loop to the return.\<close>

lemma waiting_alone:
  assumes "serial_ok s" "thread_at i s = Some (CmdWaiting args)"
  shows "owns args (sy_chan s)" "\<not> wait_over (sy_chan s)" "\<not> list_ex is_awake (sy_threads s)"
proof -
  show "owns args (sy_chan s)" "\<not> wait_over (sy_chan s)" using serial_ok_thread [OF assms] by simp_all
  have "\<not> is_awake t" if "thread_at j s = Some t" for j t
    using thread_self [OF assms _ that] by (cases t) auto
  then show "\<not> list_ex is_awake (sy_threads s)" by (auto simp: list_ex_threads)
qed

lemma reach_read:
  assumes "serial_ok s" "thread_at i s = Some (CmdWaiting args)" "\<not> (e = TimedOut \<or> e = Spurious)"
    and "reader_event e (sy_chan s) = Inr (ch, cbs)"
  shows "\<exists>u. reach s u \<and> serial_ok u \<and>
    (if wait_over ch then u = returned i args (finish_command (ca_want args) False ch cbs rest) s
     else moves i (CmdWaiting args) (CmdWaiting args) cbs s u \<and> sy_chan u = ch)"
proof -
  let ?s = "s\<lparr>sy_chan := ch, sy_cbs := sy_cbs s @ cbs\<rparr>" and ?sig = "reader_signals e (sy_chan s)"
  note w = waiting_alone [OF assms(1,2)]
  let ?who = "if ?sig then Some i else None" and ?u = "if ?sig then set_thread i (CmdWoken args) ?s else ?s"
  have x: "at_exec (Read e ?who) s = Some (Inr ?u)" "in_turn (Read e ?who) s"
    using assms(2-4) w(3) by (auto simp: reader_step_def signal_if_def cond_signal_def)
  have ok: "serial_ok ?u" by (rule in_turn_keeps [OF assms(1), of "Read e ?who"]) (use x in simp)
  have at: "thread_at i ?u = Some (if ?sig then CmdWoken args else CmdWaiting args)" using assms(2) by simp
  show ?thesis
  proof (cases ?sig)
    case False
    with at have t: "thread_at i ?u = Some (CmdWaiting args)" by simp
    have "\<not> wait_over ch" "moves i (CmdWaiting args) (CmdWaiting args) cbs s ?u"
      using waiting_alone(2) [OF ok t] False assms(2) by (simp_all add: moves_def thread_same)
    with False ok reach_step [OF x(2,1) reach_refl] show ?thesis by auto
  next
    case True
    with at serial_ok_thread [OF ok] have own: "owns args (sy_chan ?u)" by fastforce
    let ?v = "if wait_over ch then cmd_return i args (finish_command (ca_want args) False ch [] []) ?u
      else set_thread i (CmdWaiting args) ?u"
    have y: "at_exec (Resume i) ?u = Some (Inr ?v)" "in_turn (Resume i) ?u"
      using True at cmd_check_owned [OF own, of i] by simp_all
    have okv: "serial_ok ?v" by (rule in_turn_keeps [OF ok, of "Resume i"]) (use y in simp)
    have "if wait_over ch then ?v = returned i args (finish_command (ca_want args) False ch cbs rest) s
     else moves i (CmdWaiting args) (CmdWaiting args) cbs s ?v \<and> sy_chan ?v = ch"
      using True by (simp add: cmd_return_def returned_def set_thread_def timeout_cb_def finish_command_def moves_def)
    with okv reach_step [OF x(2,1) reach_step [OF y(2,1) reach_refl]] show ?thesis by blast
  qed
qed

lemma reach_waited:
  assumes "serial_ok s" "thread_at i s = Some (CmdWaiting args)"
    and "wait_loop (ca_timeout args) es (sy_chan s) = Inr (b, ch, cbs, rest)"
  shows "reach s (returned i args (finish_command (ca_want args) b ch cbs rest) s)"
  using assms
proof (induction es arbitrary: s cbs)
  case Nil
  from waiting_alone [OF Nil(1,2)] Nil(3) wait_loop_Nil show ?case by (auto simp: owns_def)
next
  case (Cons e es)
  note w = waiting_alone [OF Cons.prems(1,2)]
  have wo: "waiting_ok (sy_chan s)" using w(1) by (simp add: owns_def)
  show ?case
  proof (cases "e = TimedOut \<and> ca_timeout args \<noteq> 0")
    case True
    with Cons.prems(3) wait_loop_Cons [OF wo w(2), of "ca_timeout args" e es]
    have l: "b" "ch = sy_chan s" "cbs = []" "rest = es" by auto
    let ?u = "set_thread i (CmdExpired args) s"
    have "at_exec (Expire i) s = Some (Inr ?u)" "in_turn (Expire i) s" using True Cons.prems(2) by simp_all
    moreover have "at_exec (Resume i) ?u = Some (Inr (cmd_expired i args ?u))" "in_turn (Resume i) ?u"
      using Cons.prems(2) by simp_all
    moreover have "cmd_expired i args ?u = returned i args (finish_command (ca_want args) b ch cbs rest) s"
      using l by (simp add: cmd_expired_def cmd_return_def returned_def set_thread_def timeout_cb_def finish_command_def)
    ultimately show ?thesis using reach_step reach_refl by metis
  next
    case False
    from reader_event_no_fault [of "sy_chan s"] wo obtain ch1 cbs1 where e: "reader_event e (sy_chan s) = Inr (ch1, cbs1)"
      by (fastforce simp: waiting_ok_def)
    with Cons.prems(3) wait_loop_Cons [OF wo w(2), of "ca_timeout args" e es] False obtain cbs2
      where l: "wait_loop (ca_timeout args) es ch1 = Inr (b, ch, cbs2, rest)" "cbs = cbs1 @ cbs2" by (auto simp: c_simps)
    show ?thesis
    proof (cases "e = TimedOut \<or> e = Spurious")
      case True
      with no_reader_event e l Cons.IH [OF Cons.prems(1,2)] show ?thesis by auto
    next
      case False
      from reach_read [OF Cons.prems(1,2) False e, of es] obtain u where r: "reach s u" "serial_ok u"
        and u: "if wait_over ch1 then u = returned i args (finish_command (ca_want args) False ch1 cbs1 es) s
          else moves i (CmdWaiting args) (CmdWaiting args) cbs1 s u \<and> sy_chan u = ch1" by blast
      show ?thesis
      proof (cases "wait_over ch1")
        case True
        with l wait_loop_over [OF True] u r(1) show ?thesis by simp
      next
        case False
        with u have m: "moves i (CmdWaiting args) (CmdWaiting args) cbs1 s u" "sy_chan u = ch1" by simp_all
        from Cons.IH [OF r(2) moves_thread [OF m(1) Cons.prems(2)]] l m(2) reach_trans [OF r(1)]
        show ?thesis by (simp add: returned_moves [OF m(1)])
      qed
    qed
  qed
qed

text \<open>A whole turn.\<close>

lemma quiet_returned: "quiet s \<Longrightarrow> quiet (returned i args res s)"
  by (auto simp: quiet_def returned_def set_thread_def list_ex_iff set_update_memI dest!: subsetD [OF set_update_subset_insert])

lemma reach_turn:
  assumes "serial_ok s" "quiet s" "thread_at i s = Some (CmdReady args)" "turn i args es s = Inr s'"
  shows "reach s s' \<and> serial_ok s' \<and> quiet s'"
proof -
  have idle: "idle (sy_chan s)" using assms(1) quiet_thread [OF assms(2)] by (auto simp: serial_ok_def)
  obtain e ch where st: "start_command (ca_command args) (ca_type args) (ca_prefix args) (ca_pdu args) (sy_chan s) = (e, ch)"
    by fastforce
  obtain u where u: "cmd_enter i args s = Inr u" "serial_ok u"
    using serial_ok_enter [OF assms(1,3)] quiet_thread [OF assms(2)] by blast
  have x: "at_exec (Enter i) s = Some (Inr u)" "in_turn (Enter i) s" using assms(2,3) u by simp_all
  have "\<exists>res. reach u (returned i args res s) \<and> read_on (cr_rest res) (returned i args res s) = Inr s'"
  proof (cases "e < 0")
    case True
    let ?res = "\<lparr>cr_err = e, cr_out = None, cr_chan = clearPendingCommand ch, cr_cbs = [], cr_rest = es\<rparr>"
    have "e \<noteq> AT_ERROR_TIMEOUT" using start_command_err [OF st] by (auto simp: at_error_defs)
    then have "u = returned i args ?res s" "read_on (cr_rest ?res) (returned i args ?res s) = Inr s'"
      using u(1) assms(4) True st
      by (simp_all add: cmd_enter_def cmd_return_def returned_def timeout_cb_def turn_def at_send_command_full_def
          at_send_command_full_nolock_def)
    then show ?thesis using reach_refl by metis
  next
    case False
    have own: "owns args ch"
      using serial_ok_thread [OF assms(1,3)] start_command_owns [OF idle st False] assms(1) by (simp add: serial_ok_def)
    from assms(4) st False obtain b ch' cbs rest where l: "wait_loop (ca_timeout args) es ch = Inr (b, ch', cbs, rest)"
      by (cases "wait_loop (ca_timeout args) es ch") (auto simp: turn_def at_send_command_full_def at_send_command_full_nolock_def)
    with assms(4) turn_waited [OF st False l] have
      r: "read_on rest (returned i args (finish_command (ca_want args) b ch' cbs rest) s) = Inr s'" by simp
    have "reach u (returned i args (finish_command (ca_want args) b ch' cbs rest) s)"
    proof (cases "wait_over ch")
      case True
      have "u = cmd_return i args (finish_command (ca_want args) False ch [] []) (s\<lparr>sy_chan := ch\<rparr>)"
        using u(1) st False True cmd_check_owned [of args "s\<lparr>sy_chan := ch\<rparr>" i] own by (simp add: cmd_enter_def)
      then have "u = returned i args (finish_command (ca_want args) b ch' cbs rest) s"
        using l wait_loop_over [OF True, of "ca_timeout args" es] by (simp add: cmd_return_returned [where rest = rest])
      then show ?thesis using reach_refl by simp
    next
      case wait: False
      then have v: "u = set_thread i (CmdWaiting args) (s\<lparr>sy_chan := ch\<rparr>)"
        using u(1) st False cmd_check_owned [of args "s\<lparr>sy_chan := ch\<rparr>" i] own by (simp add: cmd_enter_def)
      then have "moves i (CmdWaiting args) (CmdWaiting args) [] s u" by (simp add: moves_def)
      from returned_moves [OF this] reach_waited [OF u(2), of i args es b ch' cbs rest] v assms(3) l
      show ?thesis by simp
    qed
    with r show ?thesis by (metis finish_results(5))
  qed
  then obtain res where r: "reach u (returned i args res s)" "read_on (cr_rest res) (returned i args res s) = Inr s'"
    by blast
  from r(1) have ok: "serial_ok (returned i args res s)"
    using run_keeps [where I = serial_ok and exec = "guarded in_turn at_exec"] in_turn_keeps u(2) by blast
  from reach_read_on [OF ok quiet_returned [OF assms(2)] r(2)] reach_step [OF x(2,1) reach_trans [OF r(1)]]
  show ?thesis by blast
qed

lemma reach_sequential:
  "serial_ok s \<Longrightarrow> quiet s \<Longrightarrow> sequential as s = Inr s' \<Longrightarrow> reach s s' \<and> quiet s'"
proof (induction as s rule: sequential.induct)
  case (1 s)
  then show ?case using reach_refl by simp
next
  case (2 a as s)
  show ?case
  proof (cases a)
    case (Enter i)
    with 2(9) obtain args u where t: "thread_at i s = Some (CmdReady args)"
      and u: "turn i args (events (takeWhile (\<lambda>b. \<not> is_enter b) as)) s = Inr u"
      and r: "sequential (dropWhile (\<lambda>b. \<not> is_enter b) as) u = Inr s'"
      by (auto simp: c_simps split: option.splits cmd_thread.splits)
    from reach_turn [OF 2(7,8) t u] 2(1) [OF Enter t refl u _ _ r] reach_trans show ?thesis by blast
  next
    case (Read e who)
    with 2(9) obtain u where u: "read_on (act_events a) s = Inr u" "sequential as u = Inr s'" by (auto simp: c_simps)
    from reach_read_on [OF 2(7,8) u(1)] 2(5) [OF Read u(1) _ _ u(2)] reach_trans show ?thesis by blast
  qed (use 2 in \<open>simp_all add: no_reader_event\<close>)
qed

section \<open>Properties\<close>

text \<open>
  C5 (refinement). The sequential model of \<^verbatim>\<open>at_send_command_full\<close> is what the threads do. Any
  number of threads send commands one after the other, each goes on before more input is handled,
  and the run ends with no thread inside the call: then every thread has the error code and the
  response that the sequential definition computes from the events of its turn, and the channel
  and the callbacks with their order are those of the sequential machine, through all turns.
\<close>

theorem commands_refine_sequential:
  assumes "sys_start s" "run (guarded in_turn at_exec) s as s'" "quiet s'"
  shows "sequential as s = Inr s'"
proof (rule turns_sequential [OF assms(2) serial.starts [OF assms(1)] _ assms(3)])
  show "quiet s" using sys_start_thread [OF assms(1)] by (fastforce simp: quiet_def list_ex_threads)
qed

theorem commands_refine_sequential_witness:
  "\<exists>s'. run (guarded in_turn at_exec) (calls [creg_call, at_call])
       [Enter 1, Read (Line ''RING'') None, Expire 1, Resume 1, Read (Line ''OK'') None,
        Enter 0, Wake 0, Resume 0, Read (Line ''+CREG: 0,1'') None, Read (Line ''OK'') (Some 0), Resume 0] s' \<and>
     sy_threads s' = [CmdReturned creg_call 0 (Some (answer [''+CREG: 0,1''] ''OK'')),
        CmdReturned at_call AT_ERROR_TIMEOUT None] \<and>
     sequential [Enter 1, Read (Line ''RING'') None, Expire 1, Resume 1, Read (Line ''OK'') None,
        Enter 0, Wake 0, Resume 0, Read (Line ''+CREG: 0,1'') None, Read (Line ''OK'') (Some 0), Resume 0]
       (calls [creg_call, at_call]) = Inr s'"
proof -
  let ?as = "[Enter 1, Read (Line ''RING'') None, Expire 1, Resume 1, Read (Line ''OK'') None,
        Enter 0, Wake 0, Resume 0, Read (Line ''+CREG: 0,1'') None, Read (Line ''OK'') (Some 0), Resume 0]"
  let ?ts = "[CmdReturned creg_call 0 (Some (answer [''+CREG: 0,1''] ''OK'')), CmdReturned at_call AT_ERROR_TIMEOUT None]"
  have "map_option sy_threads (execs (guarded in_turn at_exec) ?as (calls [creg_call, at_call])) = Some ?ts" by code_simp
  from run_view [OF this] obtain s' where r: "run (guarded in_turn at_exec) (calls [creg_call, at_call]) ?as s'"
    and t: "sy_threads s' = ?ts" by blast
  have "quiet s'" using t by (simp add: quiet_def)
  from commands_refine_sequential [OF calls_start(1) r this] r t show ?thesis by blast
qed

text \<open>
  C6 (equivalence). The abstraction loses nothing: the states without a thread inside the call that the
  threads reach by taking turns are exactly the states the sequential machine reaches. So
  whatever the sequential definition can return, some schedule of the threads returns.
\<close>

theorem turns_equal_sequential:
  assumes "sys_start s"
  shows "(\<exists>as. run (guarded in_turn at_exec) s as s' \<and> quiet s') \<longleftrightarrow> (\<exists>as. sequential as s = Inr s')"
proof -
  have ok: "serial_ok s" "quiet s"
    using serial.starts [OF assms] sys_start_thread [OF assms] by (fastforce simp: quiet_def list_ex_threads)+
  show ?thesis
  proof
    assume "\<exists>as. run (guarded in_turn at_exec) s as s' \<and> quiet s'"
    then show "\<exists>as. sequential as s = Inr s'" using turns_sequential [OF _ ok] by blast
  next
    assume "\<exists>as. sequential as s = Inr s'"
    then show "\<exists>as. run (guarded in_turn at_exec) s as s' \<and> quiet s'" using reach_sequential [OF ok] by blast
  qed
qed

theorem turns_equal_sequential_witness:
  "\<exists>s' as. sequential [Enter 0, Read (Line ''+CREG: 0,1'') None, Read (Line ''OK'') None] (calls [creg_call, at_call]) = Inr s' \<and>
     sy_threads s' = [CmdReturned creg_call 0 (Some (answer [''+CREG: 0,1''] ''OK'')), CmdReady at_call] \<and>
     run (guarded in_turn at_exec) (calls [creg_call, at_call]) as s'"
proof -
  let ?as = "[Enter 0, Read (Line ''+CREG: 0,1'') None, Read (Line ''OK'') None]"
  let ?ts = "[CmdReturned creg_call 0 (Some (answer [''+CREG: 0,1''] ''OK'')), CmdReady at_call]"
  have "(case sequential ?as (calls [creg_call, at_call]) of Inr s \<Rightarrow> sy_threads s = ?ts | Inl f \<Rightarrow> False)"
    by code_simp
  then obtain s' where s: "sequential ?as (calls [creg_call, at_call]) = Inr s'" "sy_threads s' = ?ts"
    by (auto split: sum.splits)
  with turns_equal_sequential [OF calls_start(1), of s'] show ?thesis by blast
qed

end
