(* ===== verification/RilThreads.thy ===== *)
theory RilThreads
  imports RilDispatch AtSequential
begin

text \<open>
  The driver on the threads of the AT channel. The handlers of \<^verbatim>\<open>fw100-ril*.c\<close> send their commands
  through \<open>run_cmd\<close>, which computes a whole call at once and applies the effects of the callbacks
  when the call has returned. Here that view is derived from the threads of \<open>AtThreads\<close>: what
  \<open>run_cmd\<close> returns and does is what a command thread and the reader thread do in any schedule in
  which the commands take turns.
\<close>

section \<open>Callbacks of unsolicited lines do not touch the channel\<close>

definition chan_blind :: "'a act \<Rightarrow> bool" where
  "chan_blind m \<longleftrightarrow> (\<forall>w ch. m (w\<lparr>chan := ch\<rparr>) = and_then (m w) (\<lambda>(x, w'). Inr (x, w'\<lparr>chan := ch\<rparr>)))"

named_theorems blind \<open>actions that do not see the channel\<close>

lemma blind_basics [blind]:
  "chan_blind (ret x)" "chan_blind get_ctx" "chan_blind (upd_ctx f)" "chan_blind (of_result r)"
  "chan_blind (RIL_onUnsolicitedResponse u p)" "chan_blind (sys c)"
  by (cases r; auto simp: chan_blind_def RIL_onUnsolicitedResponse_def sys_def split: list.splits)+

lemma blind_bind [blind]:
  assumes "chan_blind m" "\<And>x. chan_blind (f x)"
  shows "chan_blind (bind_act m f)"
  unfolding chan_blind_def
proof (intro allI)
  fix w ch
  show "bind_act m f (w\<lparr>chan := ch\<rparr>) = and_then (bind_act m f w) (\<lambda>(x, w'). Inr (x, w'\<lparr>chan := ch\<rparr>))"
    using assms by (cases "m w") (auto simp: chan_blind_def bind_act_def)
qed

lemma blind_seq [blind]: "chan_blind m \<Longrightarrow> chan_blind n \<Longrightarrow> chan_blind (seq_act m n)"
  unfolding seq_act_def by (rule blind_bind)

lemma blind_if [blind]: "chan_blind m \<Longrightarrow> chan_blind n \<Longrightarrow> chan_blind (if b then m else n)"
  by simp

lemma blind_case_prod [blind]: "(\<And>x y. chan_blind (f x y)) \<Longrightarrow> chan_blind (case p of (x, y) \<Rightarrow> f x y)"
  by (cases p) simp

lemma blind_sys_int [blind]: "chan_blind (sys_int c)"
  unfolding sys_int_def by (intro blind)

lemma blind_gps [blind]: "chan_blind (rilWriteGPSFifo file s)" "chan_blind (rilWriteGPSTty g opt)"
  unfolding rilWriteGPSFifo_def rilWriteGPSTty_def openGPSTty_def by (intro blind)+

lemma blind_onUnsolicited [blind]: "chan_blind (onUnsolicited s pdu)"
  unfolding onUnsolicited_def by (intro blind)

fun is_unsol :: "callback \<Rightarrow> bool" where
  "is_unsol (CbUnsol s pdu) = True"
| "is_unsol _ = False"

lemma blind_callbacks: "list_all is_unsol cbs \<Longrightarrow> chan_blind (run_callbacks cbs)"
proof (induction cbs)
  case (Cons cb cbs)
  then show ?case by (cases cb) (auto intro: blind)
qed (auto intro: blind)

lemma blindD: "chan_blind m \<Longrightarrow> m (w\<lparr>chan := ch\<rparr>) = and_then (m w) (\<lambda>(x, w'). Inr (x, w'\<lparr>chan := ch\<rparr>))"
  by (simp add: chan_blind_def)

lemma blind_keeps:
  assumes "chan_blind m" "m w = Inr (x, w')"
  shows "chan w' = chan w"
proof -
  have "w\<lparr>chan := chan w\<rparr> = w" by simp
  with blindD [OF assms(1), where w = w and ch = "chan w"] assms(2) have "w' = w'\<lparr>chan := chan w\<rparr>" by simp
  then have "chan w' = chan (w'\<lparr>chan := chan w\<rparr>)" by simp
  then show ?thesis by simp
qed

lemma blind_seq_chan:
  assumes "chan_blind m" "\<And>v. chan v = ch \<Longrightarrow> n v = n' (v\<lparr>chan := ch'\<rparr>)" "chan w = ch"
  shows "seq_act m n w = seq_act m n' (w\<lparr>chan := ch'\<rparr>)"
  using blindD [OF assms(1), where w = w and ch = ch'] blind_keeps [OF assms(1), of w] assms(2,3)
  by (cases "m w") (auto simp: seq_act_def bind_act_def)

section \<open>Input after the call\<close>

lemma run_callbacks_append: "run_callbacks (cbs @ cbs') = seq_act (run_callbacks cbs) (run_callbacks cbs')"
proof (induction cbs)
  case (Cons cb cbs)
  have a: "seq_act (seq_act m n) k = seq_act m (seq_act n k)" for m n k :: "unit act"
    by (rule ext) (simp add: seq_act_def bind_act_def and_then_assoc split_def)
  from Cons show ?case by (cases cb) (simp_all add: a)
qed (simp add: fun_eq_iff seq_act_def bind_act_def)

lemma read_on_cbs: "read_on es s = Inr s' \<Longrightarrow> \<exists>cbs. sy_cbs s' = sy_cbs s @ cbs"
proof (induction es arbitrary: s)
  case (Cons e es)
  then show ?case by (fastforce simp: c_simps)
qed simp

lemma idle_events_read_on:
  assumes "read_on es s = Inr s'" "sy_cbs s' = sy_cbs s @ cbs" "list_all is_unsol cbs" "chan w = sy_chan s"
  shows "idle_events es w = run_callbacks cbs (w\<lparr>chan := sy_chan s'\<rparr>)"
  using assms
proof (induction es arbitrary: s cbs w)
  case Nil
  then have "w\<lparr>chan := sy_chan s'\<rparr> = w" by simp
  with Nil show ?case by simp
next
  case (Cons e es)
  from Cons.prems(1) obtain ch cs where e: "reader_event e (sy_chan s) = Inr (ch, cs)"
    and r: "read_on es (s\<lparr>sy_chan := ch, sy_cbs := sy_cbs s @ cs\<rparr>) = Inr s'" by (auto simp: c_simps)
  from read_on_cbs [OF r] Cons.prems(2) obtain cs' where cs: "cbs = cs @ cs'" by auto
  have "idle_events es v = run_callbacks cs' (v\<lparr>chan := sy_chan s'\<rparr>)" if "chan v = ch" for v
    using Cons.IH [OF r, of cs' v] Cons.prems(2,3) cs that by simp
  then have "seq_act (run_callbacks cs) (idle_events es) (w\<lparr>chan := ch\<rparr>) =
      seq_act (run_callbacks cs) (run_callbacks cs') (w\<lparr>chan := ch, chan := sy_chan s'\<rparr>)"
    using Cons.prems(3) cs by (intro blind_seq_chan [where ch = ch] blind_callbacks) auto
  with e cs Cons.prems(4) show ?case by (simp add: run_callbacks_append)
qed

section \<open>The commands of the driver\<close>

text \<open>
  The variants of the call the driver uses, with the arguments of the underlying
  \<^verbatim>\<open>at_send_command_full\<close>; some check that a success comes with an intermediate response.
\<close>

inductive sends :: "cmd_args \<Rightarrow> bool \<Rightarrow> (cmd_event list \<Rightarrow> at_chan \<Rightarrow> cmd_result c_result) \<Rightarrow> bool" where
  "sends \<lparr>ca_command = cmd, ca_type = NO_RESULT, ca_prefix = None, ca_pdu = None, ca_timeout = 0, ca_want = want\<rparr>
     False (at_send_command CommandThread cmd want)"
| "sends \<lparr>ca_command = cmd, ca_type = SINGLELINE, ca_prefix = Some p, ca_pdu = None, ca_timeout = 0, ca_want = True\<rparr>
     True (at_send_command_singleline CommandThread cmd p True)"
| "sends \<lparr>ca_command = cmd, ca_type = NUMERIC, ca_prefix = None, ca_pdu = None, ca_timeout = 0, ca_want = True\<rparr>
     True (at_send_command_numeric CommandThread cmd True)"
| "sends \<lparr>ca_command = cmd, ca_type = SINGLELINE, ca_prefix = Some p, ca_pdu = Some d, ca_timeout = 0, ca_want = True\<rparr>
     True (at_send_command_sms CommandThread cmd d p True)"
| "sends \<lparr>ca_command = cmd, ca_type = MULTILINE, ca_prefix = Some p, ca_pdu = None, ca_timeout = 0, ca_want = True\<rparr>
     False (at_send_command_multiline CommandThread cmd p True)"

text \<open>What the caller of a variant sees of the result of the call.\<close>

definition variant_result :: "bool \<Rightarrow> int \<Rightarrow> ATResponse option \<Rightarrow> int \<times> ATResponse option" where
  "variant_result strict err out =
     (if strict \<and> err = 0 \<and> (case out of Some r \<Rightarrow> success r > 0 \<and> p_intermediates r = [] | None \<Rightarrow> False)
      then (AT_ERROR_INVALID_RESPONSE, None) else (err, out))"

lemma sends_full:
  assumes "sends args strict send"
    and "at_send_command_full CommandThread (ca_command args) (ca_type args) (ca_prefix args)
        (ca_pdu args) (ca_timeout args) (ca_want args) es ch = Inr res"
    and "ca_want args \<Longrightarrow> cr_err res = 0 \<Longrightarrow> cr_out res \<noteq> None"
  shows "\<exists>res'. send es ch = Inr res' \<and> (cr_err res', cr_out res') = variant_result strict (cr_err res) (cr_out res) \<and>
    cr_chan res' = cr_chan res \<and> cr_cbs res' = cr_cbs res \<and> cr_rest res' = cr_rest res"
  using assms
  by cases (auto simp: at_send_command_def at_send_command_singleline_def at_send_command_numeric_def
      at_send_command_sms_def at_send_command_multiline_def need_intermediate_def variant_result_def)

lemma turn_result:
  assumes "turn i args es s = Inr s'" "thread_at i s = Some t"
  shows "\<exists>res. at_send_command_full CommandThread (ca_command args) (ca_type args) (ca_prefix args)
      (ca_pdu args) (ca_timeout args) (ca_want args) es (sy_chan s) = Inr res \<and>
    thread_at i s' = Some (CmdReturned args (cr_err res) (cr_out res)) \<and>
    read_on (cr_rest res) ((set_thread i (CmdReturned args (cr_err res) (cr_out res)) s)
       \<lparr>sy_chan := cr_chan res, sy_cbs := sy_cbs s @ cr_cbs res\<rparr>) = Inr s'"
proof -
  have th: "read_on es u = Inr u' \<Longrightarrow> sy_threads u' = sy_threads u" for es u u'
    by (induction es arbitrary: u) (auto simp: c_simps)
  have at: "sy_threads u = sy_threads v \<Longrightarrow> thread_at i u = thread_at i v" for u v
    by (simp add: thread_at_def)
  from assms(1) obtain res where res: "at_send_command_full CommandThread (ca_command args) (ca_type args)
      (ca_prefix args) (ca_pdu args) (ca_timeout args) (ca_want args) es (sy_chan s) = Inr res"
    and on: "read_on (cr_rest res) ((set_thread i (CmdReturned args (cr_err res) (cr_out res)) s)
       \<lparr>sy_chan := cr_chan res, sy_cbs := sy_cbs s @ cr_cbs res\<rparr>) = Inr s'"
    by (auto simp: turn_def c_simps)
  from at [OF th [OF on]] assms(2) res on show ?thesis by simp
qed

lemma run_cmd_turn:
  assumes "turn i args (events as) s = Inr s'" "thread_at i s = Some (CmdReady args)" "sends args strict send"
    and "thread_at i s' = Some (CmdReturned args err out)" "result_ok args err out"
    and "sy_cbs s' = sy_cbs s @ cbs" "list_all is_unsol cbs" "chan w = sy_chan s" "modem w = events as # ms"
  shows "run_cmd send w = seq_act (run_callbacks cbs) (ret (variant_result strict err out))
    (w\<lparr>modem := ms, chan := sy_chan s'\<rparr>)"
proof -
  from turn_result [OF assms(1,2)] assms(4) obtain res
    where full: "at_send_command_full CommandThread (ca_command args) (ca_type args) (ca_prefix args)
        (ca_pdu args) (ca_timeout args) (ca_want args) (events as) (sy_chan s) = Inr res"
      and res: "err = cr_err res" "out = cr_out res"
      and on: "read_on (cr_rest res) ((set_thread i (CmdReturned args err out) s)
         \<lparr>sy_chan := cr_chan res, sy_cbs := sy_cbs s @ cr_cbs res\<rparr>) = Inr s'" by fastforce
  have "ca_want args \<Longrightarrow> cr_err res = 0 \<Longrightarrow> cr_out res \<noteq> None" using assms(5) res by (auto simp: result_ok_def)
  from sends_full [OF assms(3) full this] obtain res' where s': "send (events as) (sy_chan s) = Inr res'"
    and v: "(cr_err res', cr_out res') = variant_result strict err out" and same: "cr_chan res' = cr_chan res"
      "cr_cbs res' = cr_cbs res" "cr_rest res' = cr_rest res" using res by blast
  from read_on_cbs [OF on] assms(6) obtain cs where cs: "cbs = cr_cbs res @ cs" by auto
  let ?y = "variant_result strict err out" and ?w = "w\<lparr>chan := cr_chan res, modem := ms\<rparr>"
  have "seq_act (idle_events (cr_rest res)) (ret ?y) u = seq_act (run_callbacks cs) (ret ?y) (u\<lparr>chan := sy_chan s'\<rparr>)"
    if "chan u = cr_chan res" for u
    using idle_events_read_on [OF on, of cs u] assms(6,7) cs that by (simp add: seq_act_def bind_act_def)
  then have "seq_act (run_callbacks (cr_cbs res)) (seq_act (idle_events (cr_rest res)) (ret ?y)) ?w =
      seq_act (run_callbacks (cr_cbs res)) (seq_act (run_callbacks cs) (ret ?y)) (?w\<lparr>chan := sy_chan s'\<rparr>)"
    using assms(7) cs by (intro blind_seq_chan [where ch = "cr_chan res"] blind_callbacks) auto
  with assms(8,9) s' v same cs show ?thesis
    by (simp add: run_cmd_def run_callbacks_append seq_act_def bind_act_def and_then_assoc split_def)
qed

section \<open>Properties\<close>

text \<open>
  C7 (refinement). A command the driver sends, after any number of other commands, is carried out by
  the threads of the channel as the model of the handlers computes it: the handler gets what the
  command thread returns, with the check of the variant; the callbacks of the unsolicited lines,
  during and after the call, have their effects in the order in which the reader thread makes
  them; and the driver goes on with the channel the threads have left.
\<close>

theorem driver_command_on_threads:
  assumes "sys_start s0" "run (guarded in_turn at_exec) s0 as0 s" "quiet s"
    and "thread_at i s = Some (CmdReady args)" "sends args strict send"
    and "run (guarded in_turn at_exec) s (Enter i # as) s'" "quiet s'" "list_all (\<lambda>a. \<not> is_enter a) as"
    and "sy_cbs s' = sy_cbs s @ cbs" "list_all is_unsol cbs" "chan w = sy_chan s" "modem w = events as # ms"
  shows "\<exists>err out. thread_at i s' = Some (CmdReturned args err out) \<and>
    run_cmd send w = seq_act (run_callbacks cbs) (ret (variant_result strict err out)) (w\<lparr>modem := ms, chan := sy_chan s'\<rparr>) \<and>
    (\<forall>x w'. run_cmd send w = Inr (x, w') \<longrightarrow> x = variant_result strict err out \<and> chan w' = sy_chan s')"
proof -
  have ok: "serial_ok s" by (rule run_keeps [OF assms(2), where I = serial_ok]) (use serial.starts [OF assms(1)] in_turn_keeps in auto)
  have ok': "serial_ok s'" by (rule run_keeps [OF assms(6), where I = serial_ok]) (use ok in_turn_keeps in auto)
  have t: "turn i args (events as) s = Inr s'" by (rule turn_command [OF ok assms(3,4,6-8)])
  from turn_result [OF t assms(4)] obtain err out where r: "thread_at i s' = Some (CmdReturned args err out)" by blast
  have "result_ok args err out" using serial_ok_thread [OF ok' r] by simp
  note c = run_cmd_turn [OF t assms(4,5) r this assms(9-12)]
  have "x = variant_result strict err out \<and> chan w' = sy_chan s'" if "run_cmd send w = Inr (x, w')" for x w'
    using that c blind_keeps [OF blind_callbacks [OF assms(10)]] by (fastforce simp: seq_act_def bind_act_def c_simps)
  with r c show ?thesis by blast
qed

text \<open>The query of the registration while a line with a time and, after the call, a change of the network arrive.\<close>

definition ready_world :: "at_chan \<Rightarrow> cmd_event list list \<Rightarrow> world" where
  "ready_world ch es = (start_world (zero_ctx\<lparr>sState := RADIO_STATE_SIM_READY\<rparr>) es)\<lparr>chan := ch\<rparr>"

theorem driver_command_on_threads_witness:
  "\<exists>s s'. run (guarded in_turn at_exec) (calls [creg_call, at_call]) [Enter 1, Read (Line ''OK'') (Some 1), Resume 1] s \<and>
     run (guarded in_turn at_exec) s [Enter 0, Read (Line ''RING'') None, Read (Line ''+CREG: 0,1'') None,
       Read (Line ''OK'') (Some 0), Resume 0, Read (Line ''+CGREG: 2'') None] s' \<and>
     run_cmd (at_send_command_singleline CommandThread ''AT+CREG?'' ''+CREG:'' True)
       (ready_world (sy_chan s) [[Line ''RING'', Line ''+CREG: 0,1'', Line ''OK'', Line ''+CGREG: 2'']]) =
     seq_act (run_callbacks [CbUnsol ''RING'' None, CbUnsol ''+CGREG: 2'' None])
       (ret (0, Some (answer [''+CREG: 0,1''] ''OK''))) (ready_world (sy_chan s') [])"
proof -
  let ?pre = "[Enter 1, Read (Line ''OK'') (Some 1), Resume 1]"
  let ?as = "[Read (Line ''RING'') None, Read (Line ''+CREG: 0,1'') None,
       Read (Line ''OK'') (Some 0), Resume 0, Read (Line ''+CGREG: 2'') None]"
  let ?cbs = "[CbUnsol ''RING'' None, CbUnsol ''+CGREG: 2'' None]"
  let ?w = "\<lambda>s. ready_world (sy_chan s) [[Line ''RING'', Line ''+CREG: 0,1'', Line ''OK'', Line ''+CGREG: 2'']]"
  let ?ts = "[CmdReady creg_call, CmdReturned at_call 0 None]"
  let ?r = "CmdReturned creg_call 0 (Some (answer [''+CREG: 0,1''] ''OK''))"
  let ?ex = "\<lambda>as. execs (guarded in_turn at_exec) as (calls [creg_call, at_call])"
  have "map_option sy_threads (?ex ?pre) = Some ?ts" by code_simp
  from run_view [OF this] obtain s where s: "run (guarded in_turn at_exec) (calls [creg_call, at_call]) ?pre s"
    "sy_threads s = ?ts" by blast
  have "map_option sy_cbs (?ex ?pre) = Some []" by code_simp
  from run_view [OF this] run_deterministic [OF s(1)] have sc: "sy_cbs s = []" by blast
  have "map_option sy_threads (?ex (?pre @ Enter 0 # ?as)) = Some [?r, CmdReturned at_call 0 None]" by code_simp
  from run_view [OF this] obtain s' where s0: "run (guarded in_turn at_exec) (calls [creg_call, at_call]) (?pre @ Enter 0 # ?as) s'"
    and s': "sy_threads s' = [?r, CmdReturned at_call 0 None]" by blast
  have "map_option sy_cbs (?ex (?pre @ Enter 0 # ?as)) = Some ?cbs" by code_simp
  from run_view [OF this] run_deterministic [OF s0] have sc': "sy_cbs s' = ?cbs" by blast
  from run_split [OF s0] run_deterministic [OF s(1)] have r: "run (guarded in_turn at_exec) s (Enter 0 # ?as) s'" by blast
  have q: "quiet s" "quiet s'" "thread_at 0 s = Some (CmdReady creg_call)" "thread_at 0 s' = Some ?r"
    using s(2) s' by (simp_all add: quiet_def thread_at_def)
  have c: "sends creg_call True (at_send_command_singleline CommandThread ''AT+CREG?'' ''+CREG:'' True)"
    unfolding creg_call_def by (rule sends.intros)
  have "variant_result True 0 (Some (answer [''+CREG: 0,1''] ''OK'')) = (0, Some (answer [''+CREG: 0,1''] ''OK''))"
    by code_simp
  with driver_command_on_threads [OF calls_start(1) s(1) q(1,3) c r q(2), of ?cbs "?w s" "[]"] q(4) s(1) sc sc' r
  show ?thesis by (auto simp: ready_world_def start_world_def)
qed

end
