(* ===== verification/RilInvariant.thy ===== *)
theory RilInvariant
  imports Runs RilDispatch
begin

text \<open>
  Invariants of the driver. \<open>keeps B J m\<close>: started where \<open>J\<close> holds, the action \<open>m\<close>
  ends in none of the faults \<open>B\<close>, and if it returns, \<open>J\<close> still holds. The locale
  \<open>driver_inv\<close> states what \<open>J\<close> has to survive (calls of the system, changes of the
  context, a command with everything that arrives meanwhile, \<^verbatim>\<open>setRadioState\<close>); its lemmas
  then cover every handler, the timer and the main loop. The locale \<open>radio_inv\<close> gives this
  for conditions on the radio state, and is interpreted twice: a closed channel means an
  unavailable radio, and a radio that is off stays off. A third condition is the validity of the
  session context, which every change of the context has to keep.
\<close>

section \<open>Actions that keep a condition\<close>

definition keeps :: "c_fault set \<Rightarrow> (world \<Rightarrow> bool) \<Rightarrow> 'a act \<Rightarrow> bool" where
  "keeps B J m \<longleftrightarrow> (\<forall>w. J w \<longrightarrow>
     (\<forall>f. m w = Inl f \<longrightarrow> f \<notin> B) \<and> (\<forall>x w'. m w = Inr (x, w') \<longrightarrow> J w'))"

lemma keepsI:
  "(\<And>w f. J w \<Longrightarrow> m w = Inl f \<Longrightarrow> f \<notin> B) \<Longrightarrow> (\<And>w x w'. J w \<Longrightarrow> m w = Inr (x, w') \<Longrightarrow> J w') \<Longrightarrow>
    keeps B J m"
  unfolding keeps_def by blast

lemma keepsD: "keeps B J m \<Longrightarrow> J w \<Longrightarrow> m w = Inr (x, w') \<Longrightarrow> J w'"
  unfolding keeps_def by blast

lemma keeps_fault: "keeps B J m \<Longrightarrow> J w \<Longrightarrow> m w = Inl f \<Longrightarrow> f \<notin> B"
  unfolding keeps_def by blast

lemma keeps_ret: "keeps B J (ret x)" and keeps_get: "keeps B J get_ctx"
  and keeps_parsed: "keeps B J (parsed r)" and keeps_stay: "keeps B J (\<lambda>w. Inr (x, w))"
  unfolding keeps_def by (auto simp: parsed_def)

lemma keeps_bind:
  assumes "keeps B J m" "\<And>x. keeps B J (f x)"
  shows "keeps B J (bind_act m f)"
proof (rule keepsI)
  fix w e
  assume "J w" "bind_act m f w = Inl e"
  then show "e \<notin> B"
    using keeps_fault [OF assms(1)] keepsD [OF assms(1)] keeps_fault [OF assms(2)]
    unfolding bind_act_Inl_iff by blast
next
  fix w x w'
  assume "J w" "bind_act m f w = Inr (x, w')"
  then show "J w'" using keepsD [OF assms(1)] keepsD [OF assms(2)] unfolding bind_act_Inr_iff by blast
qed

lemma keeps_seq: "keeps B J m \<Longrightarrow> keeps B J k \<Longrightarrow> keeps B J (seq_act m k)"
  unfolding seq_act_def by (rule keeps_bind)

lemma keeps_if: "keeps B J m \<Longrightarrow> keeps B J k \<Longrightarrow> keeps B J (if b then m else k)"
  by simp

lemma keeps_option: "keeps B J m \<Longrightarrow> (\<And>x. keeps B J (f x)) \<Longrightarrow>
    keeps B J (case r of None \<Rightarrow> m | Some x \<Rightarrow> f x)"
  by (cases r) auto

lemma keeps_split: "(\<And>x y. keeps B J (f x y)) \<Longrightarrow> keeps B J (case p of (x, y) \<Rightarrow> f x y)"
  by (cases p) auto

lemma keeps_Let: "keeps B J (f x) \<Longrightarrow> keeps B J (Let x f)"
  by simp

lemma keeps_or_error: "keeps B J m \<Longrightarrow> (\<And>x. keeps B J (f x)) \<Longrightarrow> keeps B J (or_error m f)"
  unfolding or_error_def by (intro keeps_bind keeps_option keeps_ret)

lemma keeps_or_error_result:
  assumes "keeps B J m" "\<And>w x w'. m w = Inr (Some x, w') \<Longrightarrow> P x" "\<And>x. P x \<Longrightarrow> keeps B J (f x)"
  shows "keeps B J (or_error m f)"
proof (rule keepsI)
  fix w e
  assume "J w" "or_error m f w = Inl e"
  then show "e \<notin> B"
    using keeps_fault [OF assms(1)] keepsD [OF assms(1)] keeps_fault [OF assms(3)] assms(2)
    unfolding or_error_def bind_act_Inl_iff by (fastforce split: option.splits)
next
  fix w x w'
  assume "J w" "or_error m f w = Inr (x, w')"
  then show "J w'" using keepsD [OF assms(1)] keepsD [OF assms(3)] assms(2)
    unfolding or_error_def bind_act_Inr_iff by (fastforce split: option.splits)
qed

lemma keeps_world: "(\<And>x. keeps B J (f x)) \<Longrightarrow> keeps B J (\<lambda>w. f (g w) w)"
  unfolding keeps_def by blast

lemma keeps_world_if:
  assumes "keeps B J m" "keeps B J k"
  shows "keeps B J (\<lambda>w. if b w then m w else k w)"
proof (rule keepsI)
  fix w f
  assume "J w" "(if b w then m w else k w) = Inl f"
  with assms show "f \<notin> B" by (cases "b w") (auto dest: keeps_fault)
next
  fix w x w'
  assume "J w" "(if b w then m w else k w) = Inr (x, w')"
  with assms show "J w'" by (cases "b w") (auto dest: keepsD)
qed

lemmas keeps_intros = keeps_bind keeps_seq keeps_if keeps_option keeps_split keeps_Let keeps_or_error
  keeps_world_if keeps_stay keeps_ret keeps_get keeps_parsed

text \<open>Computations that end in no fault by waiting.\<close>

named_theorems no_block

lemma and_then_no_block [no_block]:
  "c \<noteq> Inl Blocked \<Longrightarrow> (\<And>x. f x \<noteq> Inl Blocked) \<Longrightarrow> and_then c f \<noteq> Inl Blocked"
  by (cases c) auto

lemma deref_no_block [no_block]: "deref p \<noteq> Inl Blocked"
  by (cases p) auto

lemma cstr_no_block [no_block]: "cstr b \<noteq> Inl Blocked"
  by (auto simp: cstr_def split: if_splits)

lemma parts_no_block [no_block]:
  "data_int d \<noteq> Inl Blocked" "data_str d i \<noteq> Inl Blocked" "first_line r \<noteq> Inl Blocked"
  "ptr_add s n \<noteq> Inl Blocked" "read_ptr q \<noteq> Inl Blocked" "ctrlz_pdu pdu \<noteq> Inl Blocked"
  "pppd_command dev \<noteq> Inl Blocked" "parse_mccmnc line \<noteq> Inl Blocked"
  by (auto simp: data_int_def data_str_def first_line_def ptr_add_def read_ptr_def ctrlz_pdu_def
      pppd_command_def parse_mccmnc_def Let_def split: rdata.splits list.splits char_ptr.splits
      option.splits prod.splits)

lemma asserted_no_block [no_block]: "asserted_int d \<noteq> Inl Blocked"
  using parts_no_block(1) [of d] by (simp add: asserted_int_def)

lemma tok_plus_no_block [no_block]: "tok_plus line n \<noteq> Inl Blocked"
  unfolding tok_plus_def
  by (auto simp: c_simps split: prod.splits option.splits if_splits elim!: deref.elims)

lemma status_no_block [no_block]: "status_text c \<noteq> Inl Blocked"
  unfolding status_text_def by (intro no_block) simp

lemma pid_no_block [no_block]: "findPidByName ps name \<noteq> Inl Blocked"
  by (induction ps name rule: findPidByName.induct) (auto split: option.splits)

lemma keeps_of_result: "B \<subseteq> {Blocked} \<Longrightarrow> c \<noteq> Inl Blocked \<Longrightarrow> keeps B J (of_result c)"
  by (cases c) (auto simp: keeps_def)

lemma keeps_faults: "B \<subseteq> {Blocked} \<Longrightarrow> f \<noteq> Blocked \<Longrightarrow> keeps B J (fault f)"
  by (auto simp: keeps_def)

section \<open>What a condition has to survive\<close>

text \<open>The search for the operator's names inside \<^verbatim>\<open>getNetworkInfo\<close>.\<close>

definition find_names :: "string \<Rightarrow> (string \<times> string \<times> char_ptr) option act" where
  "find_names mccmnc = (case find_operator mccmnc operator_info of
       Some (long, short) \<Rightarrow> ret (Some (long, short, StackPtr))
     | None \<Rightarrow> or_error (query nonzero ''AT$QCMIPGETP=0'' []) (\<lambda>line.
         case carrier_names line of (long, short, code) \<Rightarrow> ret (Some (long, short, StaticPtr code))))"

text \<open>The operations of the AT channel the driver calls.\<close>

definition driver_command :: "(cmd_event list \<Rightarrow> at_chan \<Rightarrow> cmd_result c_result) \<Rightarrow> bool" where
  "driver_command send \<longleftrightarrow>
     (\<exists>cmd want. send = at_send_command CommandThread cmd want) \<or>
     (\<exists>cmd prefix. send = at_send_command_singleline CommandThread cmd prefix True) \<or>
     (\<exists>cmd. send = at_send_command_numeric CommandThread cmd True) \<or>
     (\<exists>cmd pdu prefix. send = at_send_command_sms CommandThread cmd pdu prefix True) \<or>
     (\<exists>cmd prefix. send = at_send_command_multiline CommandThread cmd prefix True) \<or>
     send = at_handshake CommandThread"

lemma driver_commands [simp]:
  "driver_command (at_send_command CommandThread cmd want)"
  "driver_command (at_send_command_singleline CommandThread cmd prefix True)"
  "driver_command (at_send_command_numeric CommandThread cmd True)"
  "driver_command (at_send_command_sms CommandThread cmd pdu prefix True)"
  "driver_command (at_send_command_multiline CommandThread cmd prefix True)"
  "driver_command (at_handshake CommandThread)"
  unfolding driver_command_def by blast+

text \<open>One second of sleep in \<^verbatim>\<open>activateHelper\<close>, during which the reader thread runs.\<close>

definition ota_second :: "fw100SessionCtx act" where
  "ota_second = (\<lambda>w. seq_act (idle_events (case modem w of [] \<Rightarrow> [] | es # _ \<Rightarrow> es))
     (seq_act (upd (\<lambda>w. w\<lparr>modem := tl (modem w)\<rparr>)) (seq_act (sys_int (SysSleep 1)) get_ctx)) w)"

lemma wait_ota_step:
  "wait_ota n = bind_act ota_second (\<lambda>c. if otaMsgCnt c < 5 \<and> 0 < n then wait_ota (n - 1) else ret ())"
  by (rule ext, subst wait_ota.simps)
    (auto simp: bind_act_def ota_second_def fun_eq_iff intro!: arg_cong2 [where f = and_then])

text \<open>Whatever the modem answers, the radio is never reported to be on.\<close>

lemma bind_act_InrE:
  assumes "bind_act m f w = Inr (x, w')"
  obtains y w1 where "m w = Inr (y, w1)" "f y w1 = Inr (x, w')"
  using assms by (auto simp: bind_act_Inr_iff)

lemma isRadioOn_value:
  assumes "isRadioOn w = Inr (x, w')"
  shows "x = 0 \<or> x = -1"
  using assms unfolding isRadioOn_def
proof (rule bind_act_InrE)
  fix r w1
  assume "ret (case r of None \<Rightarrow> -1 | Some () \<Rightarrow> 0) w1 = Inr (x, w')"
  then show "x = 0 \<or> x = -1"
    by (cases r) (auto simp only: ret_def option.case sum.inject prod.inject split: unit.split)
qed

text \<open>
  A valid session context. The carrier is one of the abbreviations the driver knows, its terminator
  inside the array; the flags have the values \<^verbatim>\<open>fw100-ril.h\<close> gives them; the two addresses are
  short enough for any text of an IPv4 address, and a connected call has one; the attempts left are
  counted down from their maximum, and a failed activation has used them up.
\<close>

definition ctx_valid :: "fw100SessionCtx \<Rightarrow> bool" where
  "ctx_valid c \<longleftrightarrow>
     (\<exists>s \<in> {[], ''VZW'', ''SPCS'', ''UNK''}. ctx_carrier c = strncpy s 16) \<and>
     screenState c \<in> {SCREEN_IS_OFF, SCREEN_IS_ON} \<and> networkSelectMode c \<in> {0, 1} \<and>
     inDataCall c \<in> {DATA_STATE_DISCONNECTED, DATA_STATE_CONNECTED} \<and>
     (inDataCall c = DATA_STATE_CONNECTED \<longrightarrow> (\<exists>a. dataCallLocalIP c = inet_ntop a)) \<and>
     length (dataCallLocalIP c) < 16 \<and> length (dataCallGateway c) < 16 \<and>
     moduleIsActivated c \<in> {0, 1, 2} \<and> moduleActivateRetry c \<in> {0..MAX_AUTO_ACTIVATE_RETRY} \<and>
     (moduleIsActivated c = 2 \<longrightarrow> moduleActivateRetry c = 0)"

lemma inet_ntop_short: "length (inet_ntop a) < 16"
proof -
  have "int (n mod 256) < 10 ^ 3" for n using mod_less_divisor [of 256 n] by simp
  then have "length (show_d (int (n mod 256))) \<le> 3" for n by (intro show_d_length(2)) simp_all
  note this [of a] this [of "a div 256"] this [of "a div 65536"] this [of "a div 16777216"]
  then show ?thesis by (simp add: inet_ntop_def)
qed

lemma ctx_valid_updates:
  assumes "ctx_valid c"
  shows "ctx_valid (c\<lparr>otaMsgCnt := n, otaMsg := b\<rparr>)" "ctx_valid (c\<lparr>otaMsgCnt := n\<rparr>)"
    "ctx_valid (c\<lparr>ctx_meid := b\<rparr>)" "ctx_valid (c\<lparr>ctx_mdn := b\<rparr>)"
    "s \<in> {''VZW'', ''SPCS'', ''UNK''} \<Longrightarrow> ctx_valid (c\<lparr>ctx_carrier := strncpy s 16\<rparr>)"
    "s' \<in> {SCREEN_IS_OFF, SCREEN_IS_ON} \<Longrightarrow> ctx_valid (c\<lparr>screenState := s'\<rparr>)"
    "m \<in> {0, 1} \<Longrightarrow> ctx_valid (c\<lparr>networkSelectMode := m\<rparr>)"
    "ctx_valid (c\<lparr>inDataCall := DATA_STATE_DISCONNECTED\<rparr>)"
    "ctx_valid (c\<lparr>inDataCall := DATA_STATE_CONNECTED, dataCallLocalIP := inet_ntop a, dataCallGateway := inet_ntop g\<rparr>)"
    "ctx_valid (c\<lparr>moduleIsActivated := 1\<rparr>)" "ctx_valid (c\<lparr>moduleIsActivated := 1, ctx_mdn := b\<rparr>)"
  using assms
  by (auto simp: ctx_valid_def inet_ntop_short DATA_STATE_CONNECTED_def DATA_STATE_DISCONNECTED_def)

text \<open>One attempt less, and the mark of failure when none is left.\<close>

definition one_less :: "int \<Rightarrow> int" where
  "one_less n = (if n \<noteq> 0 then n - 1 else n)"

lemma ctx_valid_attempt:
  assumes "ctx_valid c"
  shows "ctx_valid (c\<lparr>moduleActivateRetry := one_less (moduleActivateRetry c)\<rparr>)"
    "one_less (moduleActivateRetry c) = 0 \<Longrightarrow> ctx_valid (c\<lparr>moduleActivateRetry := 0, moduleIsActivated := 2\<rparr>)"
  using assms by (auto simp: ctx_valid_def one_less_def MAX_AUTO_ACTIVATE_RETRY_def)

text \<open>The abbreviations of the operators that \<^verbatim>\<open>getNetworkInfo\<close> can find.\<close>

lemma operator_abbreviations:
  "find_operator key operator_info = Some (long, short) \<Longrightarrow> short \<in> {''VZW'', ''SPCS'', ''UNK''}"
  "carrier_names line = (long, short, code) \<Longrightarrow> short \<in> {''VZW'', ''SPCS'', ''UNK''}"
  by (auto simp: operator_info_def carrier_names_def split: if_splits)

lemma find_names_known:
  assumes "find_names mccmnc w = Inr (Some x, w')"
  shows "fst (snd x) \<in> {''VZW'', ''SPCS'', ''UNK''}"
proof (cases "find_operator mccmnc operator_info")
  case None
  with assms obtain r w1 where "(case r of None \<Rightarrow> ret None | Some line \<Rightarrow>
      case carrier_names line of (long, short, code) \<Rightarrow> ret (Some (long, short, StaticPtr code))) w1 = Inr (Some x, w')"
    by (auto simp: find_names_def or_error_def bind_act_Inr_iff)
  then show ?thesis
    by (auto simp del: insert_iff dest!: operator_abbreviations(2) split: option.splits prod.splits)
next
  case (Some names)
  then show ?thesis using assms
    by (cases names) (auto simp: find_names_def simp del: insert_iff dest!: operator_abbreviations(1))
qed

lemma sync_read_step:
  "sync_read fd room got = bind_act (sys (SysRead fd room)) (\<lambda>r. case r of
     RStr d \<Rightarrow> if take room d = [] then ret False
       else if strstr (takeWhile (\<lambda>c. c \<noteq> NUL) (got @ take room d)) ''OK'' then ret True
       else sync_read fd (room - length (take room d)) (got @ take room d)
   | _ \<Rightarrow> ret False)"
  by (rule ext, subst sync_read.simps)
    (auto simp: bind_act_def Let_def split: os_ret.splits intro!: arg_cong2 [where f = and_then])

text \<open>\<^verbatim>\<open>sync_modem\<close> returns, and what it returns is 0.\<close>

lemma sync_read_returns: "\<exists>b w'. sync_read fd room got w = Inr (b, w')"
proof (induction fd room got arbitrary: w rule: sync_read.induct)
  case (1 fd room got)
  obtain r w1 where s: "sys (SysRead fd room) w = Inr (r, w1)" using sys_total by blast
  then show ?case using 1 [OF _ ] by (subst sync_read.simps) (auto simp: Let_def split: os_ret.split)
qed

lemma sync_tries_zero: "\<exists>w'. sync_tries fd n w = Inr (0, w')"
proof (induction n arbitrary: w)
  case (Suc n)
  obtain k w1 where k: "sys_int (SysWrite fd (''AT'' @ [CR])) w = Inr (k, w1)"
    using gps_act_sys_int unfolding gps_act_def by blast
  obtain b w2 where "sync_read fd 254 [] w1 = Inr (b, w2)" using sync_read_returns by blast
  with k Suc show ?case by (auto simp: bind_act_def)
qed simp

text \<open>System calls alone; opening the port makes no others.\<close>

locale system_inv =
  fixes B :: "c_fault set" and J :: "world \<Rightarrow> bool"
  assumes only_waits: "B \<subseteq> {Blocked}"
    and J_os: "J w \<Longrightarrow> J (w\<lparr>os_calls := cs, os_rets := rs\<rparr>)"
begin

lemma sys_keeps: "keeps B J (sys c)"
proof (rule keepsI)
  fix w x w' assume "J w" "sys c w = Inr (x, w')"
  moreover have "J w \<Longrightarrow> J (w\<lparr>os_calls := cs\<rparr>)" for cs using J_os [where w = w and cs = cs and rs = "os_rets w"] by simp
  ultimately show "J w'" using J_os by (auto simp: sys_def split: list.splits)
qed (auto simp: sys_def split: list.splits)

lemma sys_int_keeps: "keeps B J (sys_int c)"
  unfolding sys_int_def by (intro keeps_bind sys_keeps keeps_ret)

lemma sys_str_keeps: "keeps B J (sys_str c d)"
  unfolding sys_str_def by (intro keeps_bind sys_keeps keeps_ret)

lemmas of_result_keeps = keeps_of_result [OF only_waits]

lemmas fault_keeps = keeps_faults [OF only_waits]

lemmas sys_basics = sys_int_keeps sys_keeps sys_str_keeps of_result_keeps fault_keeps

lemma sync_read_keeps: "keeps B J (sync_read fd room got)"
proof (induction room arbitrary: got rule: less_induct)
  case (less room)
  show ?case
  proof (subst sync_read_step, rule keeps_bind [OF sys_keeps])
    fix r
    show "keeps B J (case r of
      RStr d \<Rightarrow> if take room d = [] then ret False
        else if strstr (takeWhile (\<lambda>c. c \<noteq> NUL) (got @ take room d)) ''OK'' then ret True
        else sync_read fd (room - length (take room d)) (got @ take room d)
    | _ \<Rightarrow> ret False)"
    proof (cases r)
      case (RStr d)
      show ?thesis
      proof (cases "take room d = []")
        case True
        show ?thesis unfolding RStr os_ret.case if_P [OF True] by (rule keeps_ret)
      next
        case False
        then have "room - length (take room d) < room" by auto
        from less [OF this] show ?thesis unfolding RStr os_ret.case if_not_P [OF False]
          by (intro keeps_if keeps_ret)
      qed
    qed (simp_all only: os_ret.case keeps_ret)
  qed
qed

lemma sync_tries_keeps: "keeps B J (sync_tries fd n)"
  by (induction n) (auto intro!: keeps_intros sys_basics sync_read_keeps simp del: ret_simp)

lemma open_try_keeps: "keeps B J open_try"
  unfolding open_try_def open_device_def open_qemud_def configure_modem_fd_def sync_modem_def
  by (intro keeps_intros sys_basics sync_tries_keeps no_block) simp

end

locale callback_inv =
  fixes B :: "c_fault set" and J :: "world \<Rightarrow> bool"
  assumes B_blocked: "B \<subseteq> {Blocked}"
    and J_gps: "gps_only w w' \<Longrightarrow> J w \<Longrightarrow> J w'"
    and J_ril: "J w \<Longrightarrow> J (w\<lparr>ril := os\<rparr>)"
    and J_ctx: "J w \<Longrightarrow> sState c = sState (ctx w) \<Longrightarrow> s_closed c = s_closed (ctx w) \<Longrightarrow>
      (ctx_valid (ctx w) \<Longrightarrow> ctx_valid c) \<Longrightarrow> J (w\<lparr>ctx := c\<rparr>)"
    and J_closed: "keeps B J onATReaderClosed" "keeps B J onATTimeout"

sublocale callback_inv \<subseteq> system_inv B J
  by unfold_locales (rule B_blocked, rule J_gps [OF gps_only_updates(2)])

context callback_inv
begin

lemma gps_keeps:
  assumes "gps_act m"
  shows "keeps B J m"
proof (rule keepsI)
  fix w f
  assume "m w = Inl f"
  with assms show "f \<notin> B" unfolding gps_act_def by (metis Inr_Inl_False)
next
  fix w x w'
  assume j: "J w" and m: "m w = Inr (x, w')"
  from assms m have "gps_only w w'" unfolding gps_act_def by (metis prod.inject sum.inject(2))
  then show "J w'" using j by (rule J_gps)
qed

lemma upd_ctx_keeps:
  "(\<And>c. sState (f c) = sState c) \<Longrightarrow> (\<And>c. s_closed (f c) = s_closed c) \<Longrightarrow>
     (\<And>c. ctx_valid c \<Longrightarrow> ctx_valid (f c)) \<Longrightarrow> keeps B J (upd_ctx f)"
  using J_ctx by (simp add: keeps_def)

lemma complete_keeps: "keeps B J (RIL_onRequestComplete t e p)"
  using J_ril by (simp add: keeps_def RIL_onRequestComplete_def)

lemma unsol_keeps: "keeps B J (RIL_onUnsolicitedResponse u p)"
  using J_ril by (simp add: keeps_def RIL_onUnsolicitedResponse_def)

lemmas keeps_basics = sys_basics upd_ctx_keeps complete_keeps unsol_keeps

lemma unsolicited_keeps: "keeps B J (onUnsolicited s pdu)"
  unfolding onUnsolicited_def
  by (intro keeps_intros keeps_basics gps_keeps [OF gps_act_Fifo] gps_keeps [OF gps_act_Tty] no_block
      ctx_valid_updates) simp_all

lemma callbacks_keep: "keeps B J (run_callbacks cbs)"
  by (induction cbs rule: run_callbacks.induct)
    (auto intro!: keeps_seq keeps_ret unsolicited_keeps J_closed simp del: ret_simp)

end

locale driver_inv = callback_inv B J for B :: "c_fault set" and J :: "world \<Rightarrow> bool" +
  fixes A :: "radio_state set"
  assumes J_saved: "J w \<Longrightarrow> J (w\<lparr>pollSavedCREG := b\<rparr>)" "J w \<Longrightarrow> J (w\<lparr>pollSavedCSQ := b\<rparr>)"
    and J_cmd: "driver_command send \<Longrightarrow> keeps B J (run_cmd send)"
    and J_second: "keeps B J ota_second"
    and J_set: "s \<in> A \<Longrightarrow> keeps B J (radioStateSet s)"
begin

lemma saved_keeps:
  "keeps B J (upd (\<lambda>w. w\<lparr>pollSavedCREG := strncpy s 64\<rparr>))" "keeps B J (upd (\<lambda>w. w\<lparr>pollSavedCSQ := strncpy s 64\<rparr>))"
  using J_saved by (simp_all add: keeps_def)

lemma send_only_keeps: "keeps B J (send_only cmd)"
  unfolding send_only_def by (intro keeps_intros J_cmd) simp

lemma checked_keeps: "driver_command send \<Longrightarrow> keeps B J (checked bad send)"
  unfolding checked_def by (intro keeps_intros keeps_basics J_cmd no_block)

lemma query_keeps: "keeps B J (query bad cmd prefix)"
  unfolding query_def by (intro keeps_intros keeps_basics checked_keeps no_block) simp

lemma finish_keeps: "keeps B J body \<Longrightarrow> keeps B J (finish t body)"
  unfolding finish_def by (intro keeps_intros complete_keeps)

lemma send_all_keeps: "keeps B J (send_all cs)"
  by (induction cs) (auto simp: send_ok_def simp del: ret_simp intro!: keeps_intros send_only_keeps)

lemma send_each_keeps: "keeps B J (send_each cs)"
  by (induction cs) (auto simp del: ret_simp intro!: keeps_intros send_only_keeps)

lemma setRadioState_keeps: "s \<in> A \<Longrightarrow> keeps B J (setRadioState s)"
  unfolding setRadioState_def onSIMReady_def onRadioPowerOn_def
  by (intro keeps_intros J_set send_only_keeps unsol_keeps)

lemmas keeps_base = keeps_intros keeps_basics saved_keeps send_only_keeps checked_keeps query_keeps
  finish_keeps send_all_keeps send_each_keeps no_block J_cmd driver_commands ctx_valid_updates

lemma status_keeps: "keeps B J (rilWriteStatus file)"
  unfolding rilWriteStatus_def by (intro keeps_base)

lemma find_names_keeps: "keeps B J (find_names mccmnc)"
  unfolding find_names_def by (intro keeps_base)

lemma store_carrier_keeps:
  assumes "fst (snd x) \<in> {''VZW'', ''SPCS'', ''UNK''}"
  shows "keeps B J (case x of (long, short, ptr) \<Rightarrow> seq_act (upd_ctx (\<lambda>c. c\<lparr>ctx_carrier := strncpy short 16\<rparr>))
    (seq_act (rilWriteStatus RIL_STATUS_FILEPATH) (ret (Some (long, short, ptr)))))"
proof -
  obtain long short ptr where x: "x = (long, short, ptr)" by (cases x)
  with assms have "short \<in> {''VZW'', ''SPCS'', ''UNK''}" by simp
  then show ?thesis unfolding x prod.case
    by (intro keeps_seq keeps_ret status_keeps upd_ctx_keeps ctx_valid_updates(5)) simp_all
qed

lemma network_info_keeps: "keeps B J getNetworkInfo"
  unfolding getNetworkInfo_def find_names_def [symmetric]
  by (rule keeps_or_error [OF query_keeps], rule keeps_or_error [OF of_result_keeps [OF parts_no_block(8)]],
      rule keeps_or_error_result [OF find_names_keeps find_names_known store_carrier_keeps])

lemma ppp_tries_keeps: "keeps B J (ppp_tries ifname k)"
proof (induction k)
  case (Suc k)
  show ?case unfolding ppp_tries.simps
    by (rule keeps_bind [OF sys_keeps])
      (auto split: os_ret.splits intro!: Suc keeps_seq keeps_ret sys_int_keeps simp del: ret_simp)
qed (simp del: ret_simp add: keeps_ret)

lemma poll_ppp_keeps: "keeps B J (poll_ppp_linkstate ifname k)"
  unfolding poll_ppp_linkstate_def by (intro keeps_base ppp_tries_keeps)

lemma wait_ota_keeps: "keeps B J (wait_ota n)"
proof (induction n rule: less_induct)
  case (less n)
  then show ?case
    by (subst wait_ota_step) (cases "0 < n"; auto intro!: keeps_bind J_second keeps_ret simp del: ret_simp)
qed

lemma otasp_keeps: "keeps B J otasp_call"
  unfolding otasp_call_def by (intro keeps_base wait_ota_keeps) simp_all

lemma save_meid_keeps: "keeps B J (save_meid line)"
  unfolding save_meid_def by (intro keeps_base) simp_all

lemma attempt_keeps:
  "keeps B J (\<lambda>w. if one_less (moduleActivateRetry (ctx w)) = 0
     then Inr (-2, w\<lparr>ctx := (ctx w)\<lparr>moduleActivateRetry := 0, moduleIsActivated := 2\<rparr>\<rparr>)
     else otasp_call (w\<lparr>ctx := (ctx w)\<lparr>moduleActivateRetry := one_less (moduleActivateRetry (ctx w))\<rparr>\<rparr>))"
  (is "keeps B J ?m")
proof (rule keepsI)
  fix w :: world and f
  let ?w = "w\<lparr>ctx := (ctx w)\<lparr>moduleActivateRetry := one_less (moduleActivateRetry (ctx w))\<rparr>\<rparr>"
  assume "J w" "?m w = Inl f"
  then have "J ?w" "otasp_call ?w = Inl f"
    by (auto intro!: J_ctx ctx_valid_attempt(1) split: if_splits)
  then show "f \<notin> B" by (rule keeps_fault [OF otasp_keeps])
next
  fix w :: world and x w'
  let ?w = "w\<lparr>ctx := (ctx w)\<lparr>moduleActivateRetry := one_less (moduleActivateRetry (ctx w))\<rparr>\<rparr>"
  assume j: "J w" and m: "?m w = Inr (x, w')"
  show "J w'"
  proof (cases "one_less (moduleActivateRetry (ctx w)) = 0")
    case True
    with m j show ?thesis by (auto intro!: J_ctx ctx_valid_attempt(2))
  next
    case False
    have "J ?w" using j by (auto intro!: J_ctx ctx_valid_attempt(1))
    with False m show ?thesis by (auto intro: keepsD [OF otasp_keeps])
  qed
qed

lemma activate_carrier_eval:
  "activate_carrier line =
     (if strstr line ''sprint'' \<or> \<not> strstr line ''vzw'' then ret (-2)
      else bind_act get_ctx (\<lambda>c. if moduleAutoActivate c = 0 then ret (-2)
        else (\<lambda>w. if one_less (moduleActivateRetry (ctx w)) = 0
          then Inr (-2, w\<lparr>ctx := (ctx w)\<lparr>moduleActivateRetry := 0, moduleIsActivated := 2\<rparr>\<rparr>)
          else otasp_call (w\<lparr>ctx := (ctx w)\<lparr>moduleActivateRetry := one_less (moduleActivateRetry (ctx w))\<rparr>\<rparr>))))"
  by (rule ext) (auto simp: activate_carrier_def bind_act_def seq_act_def one_less_def Let_def)

lemma carrier_keeps: "keeps B J (activate_carrier line)"
  unfolding activate_carrier_eval by (intro keeps_base attempt_keeps)

lemma activate_keeps: "keeps B J activateHelper"
  unfolding activateHelper_def activate_body_def
  by (intro keeps_base status_keeps save_meid_keeps carrier_keeps) simp_all

lemma timer_keeps: "keeps B J fw100ModemTimer"
  unfolding fw100ModemTimer_def pollSignalStrength_def pollNetworkRegistration_def
  by (intro keeps_base gps_keeps [OF gps_act_Fifo] gps_keeps [OF gps_act_Tty])

lemma watch_round_keeps: "keeps B J watch_round"
  unfolding watch_round_def by (intro keeps_base activate_keeps timer_keeps)

lemma power_keeps:
  assumes "RADIO_STATE_OFF \<in> A" "RADIO_STATE_SIM_NOT_READY \<in> A"
  shows "keeps B J (requestRadioPower data t)"
  unfolding requestRadioPower_def isRadioOn_def
  by (intro keeps_base setRadioState_keeps assms)

lemma simple_keeps:
  "keeps B J (requestGetCurrentCallsEVDO t)" "keeps B J (requestHangup data t)"
  "keeps B J (send_and_complete cmd t)" "keeps B J (separate_connection data t)"
  "keeps B J (requestRegistrationStateEVDO r t)" "keeps B J (requestOperator t)"
  "keeps B J (requestDataCallFailCause cause t)" "keeps B J (requestGetIMSI t)"
  "keeps B J (requestSMSAcknowledge data t)" "keeps B J (requestGetIMEI t)"
  "keeps B J (requestGetPreferredNetworkType t)"
  "keeps B J (requestSetPreferredNetworkType data t)"
  "keeps B J (requestSendUSSD t)" "keeps B J (cancel_ussd t)"
  "keeps B J (requestQueryNetworkSelectionMode t)"
  "keeps B J (requestQueryAvailableNetworks t)" "keeps B J (requestDataCallList t)"
  "keeps B J (echo_data data t)" "keeps B J (delete_sms data t)"
  "keeps B J (requestBasebandVersion t)" "keeps B J (requestSendSMSEVDO data t)"
  "keeps B J (requestSignalStrength t)"
  unfolding requestGetCurrentCallsEVDO_def requestHangup_def send_and_complete_def separate_connection_def
    requestRegistrationStateEVDO_def requestOperator_def requestDataCallFailCause_def
    requestGetIMSI_def requestSMSAcknowledge_def requestGetIMEI_def requestGetPreferredNetworkType_def
    requestSetPreferredNetworkType_def requestSendUSSD_def cancel_ussd_def
    requestQueryNetworkSelectionMode_def requestQueryAvailableNetworks_def requestDataCallList_def
    echo_data_def delete_sms_def requestBasebandVersion_def requestSendSMSEVDO_def
    requestSignalStrength_def fail_early_def
  by ((intro keeps_base network_info_keeps; simp)+)

lemma updating_keeps:
  "keeps B J (requestScreenState data t)" "m \<in> {0, 1} \<Longrightarrow> keeps B J (set_selection cmd m t)"
  "keeps B J (requestSetupDataCallEVDO t)"
  "keeps B J (requestDeactivateDataCallEVDO data t)"
  unfolding requestScreenState_def set_selection_def requestSetupDataCallEVDO_def get_dns_def
    requestDeactivateDataCallEVDO_def killPppd_def
  by ((intro keeps_base poll_ppp_keeps; simp)+)

lemma shaped_keeps:
  "keeps B J (requestDial data t)" "keeps B J (send_dtmf data t)"
  "keeps B J (requestWriteSmsToSim data t)" "keeps B J (requestSIM_IO data t)"
  unfolding requestDial_def send_dtmf_def requestWriteSmsToSim_def requestSIM_IO_def
  by (auto split: rdata.splits list.splits intro!: keeps_base simple_keeps simp del: ret_simp upd_simps)

lemma pin_keeps: "keeps B J (requestEnterSimPin data t)"
  unfolding requestEnterSimPin_def Let_def
  by (rule keeps_bind) (auto split: rdata.splits list.splits intro!: keeps_base
      simp del: ret_simp)

lemmas handlers_keep = simple_keeps updating_keeps shaped_keeps pin_keeps

lemma dispatch_keeps:
  assumes "request = Some RIL_REQUEST_RADIO_POWER \<Longrightarrow> RADIO_STATE_OFF \<in> A \<and> RADIO_STATE_SIM_NOT_READY \<in> A"
  shows "keeps B J (dispatch cause request data t)"
proof (cases request)
  case None
  then show ?thesis by (simp add: dispatch_def complete_keeps)
next
  case (Some r)
  show ?thesis
    using assms power_keeps unfolding Some
    by (cases r) (simp_all add: dispatch_def handlers_keep complete_keeps)
qed

lemma onRequest_keeps:
  assumes "request = Some RIL_REQUEST_RADIO_POWER \<Longrightarrow> RADIO_STATE_OFF \<in> A \<and> RADIO_STATE_SIM_NOT_READY \<in> A"
  shows "keeps B J (onRequest cause request data t)"
  unfolding onRequest_def by (intro keeps_intros complete_keeps dispatch_keeps assms)

lemma initialize_keeps:
  assumes "RADIO_STATE_OFF \<in> A"
  shows "keeps B J initializeCallback"
proof -
  have r: "keeps B J isRadioOn" unfolding isRadioOn_def by (intro keeps_base)
  have on: "keeps B J (bind_act isRadioOn (\<lambda>on. if on > 0 then m else ret ()))" for m
  proof (rule keepsI)
    fix w f
    assume j: "J w" and b: "bind_act isRadioOn (\<lambda>on. if on > 0 then m else ret ()) w = Inl f"
    have "isRadioOn w = Inr (on, w1) \<Longrightarrow> (if on > 0 then m else ret ()) w1 = Inr ((), w1)" for on w1
      using isRadioOn_value [of w on w1] by auto
    with b have "isRadioOn w = Inl f" unfolding bind_act_Inl_iff by force
    with keeps_fault [OF r j] show "f \<notin> B" .
  next
    fix w x w'
    assume j: "J w" and b: "bind_act isRadioOn (\<lambda>on. if on > 0 then m else ret ()) w = Inr (x, w')"
    from b obtain on w1 where i: "isRadioOn w = Inr (on, w1)"
      and c: "(if on > 0 then m else ret ()) w1 = Inr (x, w')" unfolding bind_act_Inr_iff by blast
    from c isRadioOn_value [OF i] have "w' = w1" by auto
    with keepsD [OF r j i] show "J w'" by simp
  qed
  show ?thesis
    unfolding initializeCallback_def atcommand_init_def
    by (intro on keeps_base setRadioState_keeps assms)
qed

end

section \<open>Conditions on the radio state\<close>

definition on_radio :: "(radio_state \<Rightarrow> int \<Rightarrow> bool) \<Rightarrow> world \<Rightarrow> bool" where
  "on_radio K w \<longleftrightarrow> K (sState (ctx w)) (s_closed (ctx w))"

lemma on_radio_cong:
  "sState (ctx w') = sState (ctx w) \<Longrightarrow> s_closed (ctx w') = s_closed (ctx w) \<Longrightarrow> on_radio K w \<Longrightarrow> on_radio K w'"
  by (simp add: on_radio_def)

text \<open>The work of the reader thread on one event, and a command up to its callbacks.\<close>

definition read_event :: "cmd_event \<Rightarrow> callback list act" where
  "read_event e = (\<lambda>w. and_then (reader_event e (chan w)) (\<lambda>(ch, cbs). Inr (cbs, w\<lparr>chan := ch\<rparr>)))"

definition exchange :: "(cmd_event list \<Rightarrow> at_chan \<Rightarrow> cmd_result c_result) \<Rightarrow> cmd_result act" where
  "exchange send = (\<lambda>w. and_then (send (case modem w of [] \<Rightarrow> [] | e # _ \<Rightarrow> e) (chan w)) (\<lambda>res.
     Inr (res, w\<lparr>chan := cr_chan res, modem := tl (modem w)\<rparr>)))"

lemma idle_events_step:
  "idle_events (e # es) = bind_act (read_event e) (\<lambda>cbs. seq_act (run_callbacks cbs) (idle_events es))"
proof
  fix w
  show "idle_events (e # es) w =
      bind_act (read_event e) (\<lambda>cbs. seq_act (run_callbacks cbs) (idle_events es)) w"
    by (cases "reader_event e (chan w)") (auto simp: read_event_def bind_act_def)
qed

lemma run_cmd_step:
  "run_cmd send = bind_act (exchange send) (\<lambda>res. seq_act (run_callbacks (cr_cbs res))
     (seq_act (idle_events (cr_rest res)) (ret (cr_err res, cr_out res))))"
proof
  fix w
  show "run_cmd send w = bind_act (exchange send) (\<lambda>res. seq_act (run_callbacks (cr_cbs res))
     (seq_act (idle_events (cr_rest res)) (ret (cr_err res, cr_out res)))) w"
    by (cases "send (case modem w of [] \<Rightarrow> [] | e # _ \<Rightarrow> e) (chan w)")
      (simp_all add: run_cmd_def exchange_def bind_act_def)
qed

text \<open>
  A condition that survives the reader thread's work on one event and the exchange of a command
  with the modem survives every sequence of them.
\<close>

locale reader_inv = callback_inv "{}" J for J :: "world \<Rightarrow> bool" +
  assumes J_read: "keeps {} J (read_event e)"
    and J_exchange: "driver_command send \<Longrightarrow> keeps {} J (exchange send)"
    and J_modem: "J w \<Longrightarrow> J (w\<lparr>modem := m\<rparr>)"
begin

lemma idle_keeps: "keeps {} J (idle_events es)"
proof (induction es)
  case (Cons e es)
  show ?case unfolding idle_events_step by (intro keeps_intros J_read callbacks_keep Cons)
qed (simp del: ret_simp add: keeps_ret)

lemma run_cmd_keeps: "driver_command send \<Longrightarrow> keeps {} J (run_cmd send)"
  unfolding run_cmd_step by (intro keeps_intros J_exchange callbacks_keep idle_keeps)

lemma second_keeps: "keeps {} J ota_second"
proof -
  let ?k = "seq_act (upd (\<lambda>w. w\<lparr>modem := tl (modem w)\<rparr>)) (seq_act (sys_int (SysSleep 1)) get_ctx)"
  have "keeps {} J (upd (\<lambda>w. w\<lparr>modem := tl (modem w)\<rparr>))"
    using J_modem by (simp add: keeps_def)
  then have "keeps {} J (seq_act (idle_events es) ?k)" for es
    by (intro keeps_seq idle_keeps keeps_get sys_int_keeps)
  then show ?thesis unfolding ota_second_def
    by (rule keeps_world [where f = "\<lambda>es. seq_act (idle_events es) ?k"])
qed

end

locale radio_inv =
  fixes K :: "radio_state \<Rightarrow> int \<Rightarrow> bool" and A :: "radio_state set"
  assumes K_closed: "K RADIO_STATE_UNAVAILABLE 1"
    and K_set: "K s c \<Longrightarrow> s' \<in> A \<Longrightarrow> K (if c > 0 then RADIO_STATE_UNAVAILABLE else s') c"
begin

lemma set_radio: "s \<in> A \<Longrightarrow> keeps {} (on_radio K) (radioStateSet s)"
proof (rule keepsI)
  fix w x w'
  assume s: "s \<in> A" and j: "on_radio K w" and r: "radioStateSet s w = Inr (x, w')"
  let ?n = "if s_closed (ctx w) > 0 then RADIO_STATE_UNAVAILABLE else s"
  from r have "sState (ctx w') = ?n \<and> s_closed (ctx w') = s_closed (ctx w)"
    by (cases "s_closed (ctx w) > 0"; cases "sState (ctx w) = ?n")
      (auto simp: radioStateSet_def seq_act_def bind_act_def RIL_onUnsolicitedResponse_def)
  with K_set [OF _ s] j show "on_radio K w'" unfolding on_radio_def by metis
qed simp

lemma closed_radio: "keeps {} (on_radio K) onATReaderClosed" "keeps {} (on_radio K) onATTimeout"
  using K_closed
  by (auto simp: onATReaderClosed_def onATTimeout_def at_close_act_def radioStateSet_def keeps_def
      seq_act_def bind_act_def RIL_onUnsolicitedResponse_def on_radio_def)

end

sublocale radio_inv \<subseteq> reader_inv "on_radio K"
proof
  show "gps_only w w' \<Longrightarrow> on_radio K w \<Longrightarrow> on_radio K w'" for w w'
    using gps_only_frame [of w w'] on_radio_cong [of w' w] by simp
  show "keeps {} (on_radio K) (read_event e)" for e
    by (auto simp: keeps_def read_event_def on_radio_def c_simps)
  show "keeps {} (on_radio K) (exchange send)" for send
    by (auto simp: keeps_def exchange_def on_radio_def c_simps)
qed (auto simp: on_radio_def intro: closed_radio)

sublocale radio_inv \<subseteq> driver_inv "{}" "on_radio K" A
  by unfold_locales (auto simp: on_radio_def intro: run_cmd_keeps second_keeps set_radio)

text \<open>The same for a condition on the channel alone.\<close>

locale chan_inv =
  fixes K :: "at_chan \<Rightarrow> bool"
  assumes K_close: "K ch \<Longrightarrow> K (at_close ch)"
    and K_read: "K ch \<Longrightarrow> reader_event e ch = Inr (ch', cbs) \<Longrightarrow> K ch'"
    and K_send: "driver_command send \<Longrightarrow> K ch \<Longrightarrow> send es ch = Inr res \<Longrightarrow> K (cr_chan res)"
begin

lemma closed_chan: "keeps {} (\<lambda>w. K (chan w)) onATReaderClosed" "keeps {} (\<lambda>w. K (chan w)) onATTimeout"
  using K_close
  by (auto simp: onATReaderClosed_def onATTimeout_def at_close_act_def radioStateSet_def keeps_def
      seq_act_def bind_act_def RIL_onUnsolicitedResponse_def)

lemma set_chan: "keeps {} (\<lambda>w. K (chan w)) (radioStateSet s)"
  by (auto simp: radioStateSet_def keeps_def Let_def seq_act_def bind_act_def RIL_onUnsolicitedResponse_def)

end

sublocale chan_inv \<subseteq> reader_inv "\<lambda>w. K (chan w)"
proof
  show "gps_only w w' \<Longrightarrow> K (chan w) \<Longrightarrow> K (chan w')" for w w'
    using gps_only_frame(2) [of w w'] by simp
  show "keeps {} (\<lambda>w. K (chan w)) (read_event e)" for e
    using K_read by (auto simp: keeps_def read_event_def c_simps)
  show "driver_command send \<Longrightarrow> keeps {} (\<lambda>w. K (chan w)) (exchange send)" for send
    using K_send by (auto simp: keeps_def exchange_def c_simps)
qed (auto intro: closed_chan)

sublocale chan_inv \<subseteq> driver_inv "{}" "\<lambda>w. K (chan w)" UNIV
  by unfold_locales (auto intro: run_cmd_keeps second_keeps set_chan)

text \<open>A closed channel means that the radio is unavailable; every state may be set.\<close>

definition closed_unavailable :: "radio_state \<Rightarrow> int \<Rightarrow> bool" where
  "closed_unavailable s c \<longleftrightarrow> (c > 0 \<longrightarrow> s = RADIO_STATE_UNAVAILABLE)"

interpretation closing: radio_inv closed_unavailable UNIV
  by unfold_locales (auto simp: closed_unavailable_def)

text \<open>A radio that is off or unavailable, while only these two states are set.\<close>

definition radio_down :: "radio_state \<Rightarrow> int \<Rightarrow> bool" where
  "radio_down s c \<longleftrightarrow> s = RADIO_STATE_OFF \<or> s = RADIO_STATE_UNAVAILABLE"

interpretation down: radio_inv radio_down "{RADIO_STATE_OFF, RADIO_STATE_UNAVAILABLE}"
  by unfold_locales (auto simp: radio_down_def)

text \<open>A condition on the context that holds with the radio state and the channel changed.\<close>

definition world_valid :: "world \<Rightarrow> bool" where
  "world_valid w \<longleftrightarrow> ctx_valid (ctx w)"

lemma ctx_valid_radio [simp]:
  "ctx_valid (c\<lparr>sState := s\<rparr>) = ctx_valid c" "ctx_valid (c\<lparr>s_closed := n\<rparr>) = ctx_valid c"
  "ctx_valid (c\<lparr>gpsFifoFD := f, gpsTtyFD := g\<rparr>) = ctx_valid c" "ctx_valid (c\<lparr>mainIsStarted := n\<rparr>) = ctx_valid c"
  by (simp_all add: ctx_valid_def)

lemma gps_only_valid: "gps_only w w' \<Longrightarrow> world_valid w' = world_valid w"
proof -
  assume "gps_only w w'"
  then have "world_valid (gps_blank w') = world_valid (gps_blank w)" by (simp add: gps_only_def)
  then show ?thesis by (simp add: world_valid_def gps_blank_def)
qed

lemma radio_valid: "keeps {} world_valid (radioStateSet s)"
  by (auto simp: radioStateSet_def keeps_def Let_def seq_act_def bind_act_def RIL_onUnsolicitedResponse_def
      world_valid_def)

interpretation valid: reader_inv world_valid
proof
  show "keeps {} world_valid onATReaderClosed" "keeps {} world_valid onATTimeout"
    by (auto simp: onATReaderClosed_def onATTimeout_def at_close_act_def radioStateSet_def keeps_def
        seq_act_def bind_act_def RIL_onUnsolicitedResponse_def world_valid_def)
  show "keeps {} world_valid (read_event e)" for e
    by (auto simp: keeps_def read_event_def world_valid_def c_simps)
  show "keeps {} world_valid (exchange send)" for send
    by (auto simp: keeps_def exchange_def world_valid_def c_simps)
qed (auto simp: world_valid_def dest: gps_only_valid)

interpretation valid: driver_inv "{}" world_valid UNIV
  by unfold_locales (auto simp: world_valid_def intro: valid.run_cmd_keeps valid.second_keeps radio_valid)

section \<open>The driver as a state machine\<close>

text \<open>
  What can happen to the driver: the main loop starts, a request of the RIL library, a round of the
  main loop's watch, the callback that initialises the modem, lines that arrive on their own, an
  attempt to open the port, and the poll of the card's state.
\<close>

datatype driver_event =
    EvStart
  | EvRequest int "ril_request option" rdata token
  | EvWatch
  | EvInitialize
  | EvLines "cmd_event list"
  | EvReopen int
  | EvPollSIM

definition leaves :: "('a \<times> world) c_result \<Rightarrow> world c_result option" where
  "leaves r = Some (and_then r (\<lambda>(_, w). Inr w))"

fun driver_exec :: "(driver_event, world) system" where
  "driver_exec EvStart w = leaves (main_loop_start w)"
| "driver_exec (EvRequest cause request data t) w = leaves (onRequest cause request data t w)"
| "driver_exec EvWatch w = leaves (watch_round w)"
| "driver_exec EvInitialize w = leaves (initializeCallback w)"
| "driver_exec (EvLines es) w = leaves (idle_events es w)"
| "driver_exec (EvReopen r) w = leaves (main_open r w)"
| "driver_exec EvPollSIM w = leaves (pollSIMState w)"

lemma leaves_iff [simp]: "leaves r = Some (Inr w') \<longleftrightarrow> (\<exists>x. r = Inr (x, w'))"
  by (cases r) (auto simp: leaves_def)

lemma driver_one: "driver_exec e w = Some (Inr w') \<Longrightarrow> run driver_exec w [e] w'"
  using run_step [where exec = driver_exec] run_none [where exec = driver_exec] by blast

lemma main_loop_start_world:
  assumes "main_loop_start w = Inr (x, w')"
  shows "gps_only (w\<lparr>chan := at_set_on_timeout True (at_set_on_reader_closed True (chan w))\<rparr>) w'"
proof -
  let ?w = "w\<lparr>chan := at_set_on_timeout True (at_set_on_reader_closed True (chan w))\<rparr>"
  have "rilWriteGPSTty None 1 ?w = Inr (y, w') \<Longrightarrow> gps_only ?w w'" for y
    using gps_tty_open by blast
  with assms show ?thesis
    by (auto simp: main_loop_start_def bind_act_def seq_act_def c_simps split: if_splits)
qed

lemma start_reader_ctx:
  "start_reader fd r w = Inr (x, w') \<Longrightarrow> sState (ctx w') = sState (ctx w) \<and> s_closed (ctx w') = 0"
  by (auto simp: start_reader_def seq_act_def bind_act_def split: prod.splits if_splits)

lemma main_open_cases:
  assumes "main_open r w = Inr (x, w')"
  shows "\<exists>fd w1. open_try w = Inr (fd, w1) \<and> (w' = w1 \<or> start_reader fd r w1 = Inr (x, w'))"
  using assms by (auto simp: main_open_def bind_act_Inr_iff split: if_splits)

lemma pollSIM_keeps_closed: "keeps {} (on_radio closed_unavailable) pollSIMState"
  unfolding pollSIMState_def getSIMStatus_def SIM_Status.case
  by (intro keeps_intros closing.setRadioState_keeps) simp

lemma pollSIM_down:
  "pollSIMState w = Inr (x, w') \<Longrightarrow> on_radio radio_down w \<Longrightarrow> w' = w"
  by (auto simp: pollSIMState_def bind_act_def on_radio_def radio_down_def)

lemma closing_entries:
  "keeps {} (on_radio closed_unavailable) (onRequest cause request data t)"
  "keeps {} (on_radio closed_unavailable) initializeCallback"
  by (rule closing.onRequest_keeps closing.initialize_keeps; simp)+

lemma down_initialize: "keeps {} (on_radio radio_down) initializeCallback"
  by (rule down.initialize_keeps) simp

lemma main_loop_start_radio: "main_loop_start w = Inr (x, w') \<Longrightarrow> on_radio K w \<Longrightarrow> on_radio K w'"
  using main_loop_start_world [of w x w'] gps_only_frame by (fastforce simp: on_radio_def)

lemma step_closed:
  assumes "on_radio closed_unavailable w" "driver_exec e w = Some (Inr w')"
  shows "on_radio closed_unavailable w'"
proof (cases e)
  case EvStart
  with assms main_loop_start_radio show ?thesis by auto
next
  case (EvReopen r)
  with assms(2) obtain x where "main_open r w = Inr (x, w')" by auto
  from main_open_cases [OF this] keepsD [OF closing.open_try_keeps assms(1)] start_reader_ctx
  show ?thesis by (fastforce simp: on_radio_def closed_unavailable_def)
qed (use assms in \<open>auto dest: keepsD [OF closing_entries(1)] keepsD [OF closing.watch_round_keeps]
    keepsD [OF closing_entries(2)] keepsD [OF closing.idle_keeps] keepsD [OF pollSIM_keeps_closed]\<close>)

definition power_request :: "driver_event \<Rightarrow> bool" where
  "power_request e = (case e of EvRequest _ r _ _ \<Rightarrow> r = Some RIL_REQUEST_RADIO_POWER | _ \<Rightarrow> False)"

lemma step_down:
  assumes "on_radio radio_down w" "driver_exec e w = Some (Inr w')" "\<not> power_request e"
  shows "on_radio radio_down w'"
proof (cases e)
  case EvStart
  with assms main_loop_start_radio show ?thesis by auto
next
  case (EvReopen r)
  with assms(2) obtain x where "main_open r w = Inr (x, w')" by auto
  from main_open_cases [OF this] keepsD [OF down.open_try_keeps assms(1)] start_reader_ctx
  show ?thesis by (fastforce simp: on_radio_def radio_down_def)
next
  case (EvRequest cause request data t)
  with assms keepsD [OF down.onRequest_keeps [of request cause data t], of w "()" w'] show ?thesis
    by (auto simp: power_request_def)
qed (use assms in \<open>auto dest: keepsD [OF down.watch_round_keeps] keepsD [OF down_initialize]
    keepsD [OF down.idle_keeps] pollSIM_down\<close>)

text \<open>Both conditions are invariants of the driver's runs.\<close>

definition fresh_session :: "world \<Rightarrow> bool" where
  "fresh_session w \<longleftrightarrow> s_closed (ctx w) = 0 \<and> sState (ctx w) = RADIO_STATE_OFF"

interpretation closed_driver: run_invariant driver_exec fresh_session "on_radio closed_unavailable"
  by unfold_locales (simp add: fresh_session_def on_radio_def closed_unavailable_def, rule step_closed)

interpretation down_driver: run_invariant "guarded (\<lambda>e w. \<not> power_request e) driver_exec" fresh_session
  "on_radio radio_down"
  by unfold_locales (simp add: fresh_session_def on_radio_def radio_down_def, auto dest: step_down)

lemma run_no_power:
  "run driver_exec w es w' \<Longrightarrow> \<forall>e \<in> set es. \<not> power_request e \<Longrightarrow>
     run (guarded (\<lambda>e w. \<not> power_request e) driver_exec) w es w'"
  by (induction rule: run.induct) (auto intro: run_step)

lemma valid_entries:
  "keeps {} world_valid (onRequest cause request data t)" "keeps {} world_valid initializeCallback"
  "keeps {} world_valid pollSIMState"
proof -
  show "keeps {} world_valid (onRequest cause request data t)" by (rule valid.onRequest_keeps) simp
  show "keeps {} world_valid initializeCallback" by (rule valid.initialize_keeps) simp
  show "keeps {} world_valid pollSIMState"
    unfolding pollSIMState_def getSIMStatus_def SIM_Status.case
    by (intro keeps_intros valid.setRadioState_keeps) simp
qed

interpretation valid_driver: run_invariant driver_exec world_valid world_valid
proof
  fix w e w'
  assume a: "world_valid w" and e: "driver_exec e w = Some (Inr w')"
  show "world_valid w'"
  proof (cases e)
    case EvStart
    with e obtain x where "main_loop_start w = Inr (x, w')" by auto
    from gps_only_valid [OF main_loop_start_world [OF this]] a show ?thesis by (simp add: world_valid_def)
  next
    case (EvReopen r)
    have "start_reader fd r v = Inr (x, w') \<Longrightarrow> world_valid v \<Longrightarrow> world_valid w'" for fd v x
      by (auto simp: start_reader_def seq_act_def bind_act_def world_valid_def split: prod.splits if_splits)
    with EvReopen e keepsD [OF valid.open_try_keeps a] show ?thesis by (auto dest!: main_open_cases)
  qed (use a e in \<open>auto dest: keepsD [OF valid_entries(1)] keepsD [OF valid_entries(2)] keepsD [OF valid_entries(3)]
      keepsD [OF valid.watch_round_keeps] keepsD [OF valid.idle_keeps]\<close>)
qed

section \<open>Properties of the radio state\<close>

lemma control_line_keeps:
  "s_closed (control_line b c) = s_closed c" "sState (control_line b c) = sState c"
  "s_port (control_line b c) = s_port c"
  by (simp_all add: control_line_def Let_def)

lemma rilReadControl_keeps:
  "s_closed (snd (rilReadControl content c)) = s_closed c"
  "sState (snd (rilReadControl content c)) = sState c"
  "s_port (snd (rilReadControl content c)) = s_port c"
proof -
  have f: "s_closed (fold control_line bs c) = s_closed c \<and> sState (fold control_line bs c) = sState c \<and>
      s_port (fold control_line bs c) = s_port c" for bs c
    by (induction bs arbitrary: c) (simp_all add: control_line_keeps)
  then show "s_closed (snd (rilReadControl content c)) = s_closed c"
    "sState (snd (rilReadControl content c)) = sState c"
    "s_port (snd (rilReadControl content c)) = s_port c"
    by (cases content; simp add: rilReadControl_def)+
qed

lemma RIL_Init_ctx:
  assumes "RIL_Init opts content = Inr (Some c)"
  shows "s_closed c = 0" "sState c = RADIO_STATE_OFF" "s_port c = -1"
  using assms rilReadControl_keeps
  by (auto simp: RIL_Init_def initSessionContext_def c_simps split: option.splits if_splits)

lemma RIL_Init_fresh: "RIL_Init opts content = Inr (Some c) \<Longrightarrow> ctx w = c \<Longrightarrow> fresh_session w"
  using RIL_Init_ctx(1,2) by (auto simp: fresh_session_def)

text \<open>
  C12 (invariant). In every state the driver reaches from its start, by whatever requests, rounds of the
  main loop, modem lines and reopened ports: as long as the channel is marked closed the radio
  state is \<^verbatim>\<open>UNAVAILABLE\<close>.
\<close>

theorem closed_channel_unavailable:
  assumes "RIL_Init opts content = Inr (Some c)" "ctx w = c" "run driver_exec w es w'"
  shows "s_closed (ctx w') > 0 \<longrightarrow> sState (ctx w') = RADIO_STATE_UNAVAILABLE"
  using closed_driver.reachable [OF RIL_Init_fresh [OF assms(1,2)] assms(3)]
  by (simp add: on_radio_def closed_unavailable_def)

lemma sample_init:
  "\<exists>c. RIL_Init [OptAtctrl ''/dev/ttyUSB0'', OptData ''/dev/ttyUSB1''] None = Inr (Some c)"
proof -
  have "case RIL_Init [OptAtctrl ''/dev/ttyUSB0'', OptData ''/dev/ttyUSB1''] None of
      Inr (Some _) \<Rightarrow> True | _ \<Rightarrow> False"
    by code_simp
  then show ?thesis by (auto split: sum.splits option.splits)
qed

text \<open>The reader thread ends and the radio is gone.\<close>

lemma eof_step: "\<exists>w'. driver_exec (EvLines [ReaderEOF]) (start_world c m) = Some (Inr w') \<and> s_closed (ctx w') = 1"
proof -
  have "fresh_chan\<lparr>s_readerClosed := 1\<rparr> = fst (onReaderClosed fresh_chan)" "snd (onReaderClosed fresh_chan) = [CbReaderClosed]"
    by (simp_all add: onReaderClosed_def fresh_chan_def)
  then have e: "reader_event ReaderEOF fresh_chan = Inr (fresh_chan\<lparr>s_readerClosed := 1\<rparr>, [CbReaderClosed])"
    by (metis cmd_event.case(3) prod.collapse reader_event_def)
  have "\<exists>w'. idle_events [ReaderEOF] (start_world c m) = Inr ((), w') \<and> s_closed (ctx w') = 1"
    using e by (auto simp: onATReaderClosed_def at_close_act_def radioStateSet_def seq_act_def bind_act_def
        RIL_onUnsolicitedResponse_def)
  then show ?thesis by auto
qed

theorem closed_channel_unavailable_witness:
  "\<exists>c w'. RIL_Init [OptAtctrl ''/dev/ttyUSB0'', OptData ''/dev/ttyUSB1''] None = Inr (Some c) \<and>
     run driver_exec (start_world c []) [EvLines [ReaderEOF]] w' \<and> s_closed (ctx w') > 0 \<and>
     sState (ctx w') = RADIO_STATE_UNAVAILABLE"
proof -
  from sample_init obtain c where
    c: "RIL_Init [OptAtctrl ''/dev/ttyUSB0'', OptData ''/dev/ttyUSB1''] None = Inr (Some c)" by blast
  from eof_step obtain w' where s: "driver_exec (EvLines [ReaderEOF]) (start_world c []) = Some (Inr w')"
    "s_closed (ctx w') = 1" by blast
  have r: "run driver_exec (start_world c []) [EvLines [ReaderEOF]] w'"
    by (rule driver_one [OF s(1)])
  from closed_channel_unavailable [OF c _ r] c r s(2) show ?thesis by force
qed

text \<open>
  C13 (invariant). Until the RIL library asks for radio power, the driver never leaves the states
  \<^verbatim>\<open>OFF\<close> and \<^verbatim>\<open>UNAVAILABLE\<close>: not by any other request, nor by the initialisation of
  the modem, whose test whether the radio is already on never succeeds.
\<close>

theorem radio_off_until_power:
  assumes "RIL_Init opts content = Inr (Some c)" "ctx w = c" "run driver_exec w es w'"
    and "\<forall>e \<in> set es. \<not> power_request e"
  shows "sState (ctx w') \<in> {RADIO_STATE_OFF, RADIO_STATE_UNAVAILABLE}"
  using down_driver.reachable [OF RIL_Init_fresh [OF assms(1,2)] run_no_power [OF assms(3,4)]]
  by (simp add: on_radio_def radio_down_def)

theorem radio_off_until_power_witness:
  "\<exists>c w'. RIL_Init [OptAtctrl ''/dev/ttyUSB0'', OptData ''/dev/ttyUSB1''] None = Inr (Some c) \<and>
     run driver_exec (start_world c []) [EvLines [ReaderEOF]] w' \<and>
     sState (ctx w') \<in> {RADIO_STATE_OFF, RADIO_STATE_UNAVAILABLE}"
proof -
  from sample_init obtain c where
    c: "RIL_Init [OptAtctrl ''/dev/ttyUSB0'', OptData ''/dev/ttyUSB1''] None = Inr (Some c)" by blast
  from eof_step obtain w' where s: "driver_exec (EvLines [ReaderEOF]) (start_world c []) = Some (Inr w')" by blast
  have r: "run driver_exec (start_world c []) [EvLines [ReaderEOF]] w'"
    by (rule driver_one [OF s])
  have "\<forall>e \<in> set [EvLines [ReaderEOF]]. \<not> power_request e" by (simp add: power_request_def)
  from radio_off_until_power [OF c _ r this] c r show ?thesis by auto
qed

lemma parse_opts_valid: "parse_opts opts c = Some c' \<Longrightarrow> ctx_valid c \<Longrightarrow> ctx_valid c'"
  by (induction opts c rule: parse_opts.induct) (auto simp: ctx_valid_def split: if_splits)

lemma rilReadControl_valid: "ctx_valid (snd (rilReadControl content c)) = ctx_valid c"
proof -
  have "ctx_valid (control_line b c) = ctx_valid c" for b c
    by (simp add: control_line_def Let_def ctx_valid_def)
  then have "ctx_valid (fold control_line bs c) = ctx_valid c" for bs c
    by (induction bs arbitrary: c) simp_all
  then show ?thesis by (cases content) (simp_all add: rilReadControl_def)
qed

lemmas flag_values = SCREEN_IS_OFF_def SCREEN_IS_ON_def DATA_STATE_CONNECTED_def DATA_STATE_DISCONNECTED_def
  MAX_AUTO_ACTIVATE_RETRY_def

lemma RIL_Init_valid:
  assumes "RIL_Init opts content = Inr (Some c)"
  shows "ctx_valid c"
proof -
  from assms obtain c1 where p: "parse_opts opts zero_ctx = Some c1" and i: "initSessionContext content c1 = Inr c"
    by (auto simp: RIL_Init_def c_simps split: option.splits if_splits)
  have "ctx_valid zero_ctx" by (simp add: ctx_valid_def zero_ctx_def flag_values strncpy_def)
  from parse_opts_valid [OF p this] i show ?thesis
    by (auto simp: initSessionContext_def c_simps rilReadControl_valid) (simp add: ctx_valid_def flag_values)
qed

text \<open>
  C14 (type). The session context stays valid. In every state reached from the start, by whatever requests,
  rounds of the main loop and modem lines: the array \<^verbatim>\<open>carrier\<close> holds one of the driver's
  abbreviations, with its terminator inside the 16 characters, so that reading it as a text never leaves
  it; the screen, the selection mode and the data call have one of their two values; the texts of the two
  addresses, which are stored in arrays of 64 characters, have at most 15, and while the data call is
  connected the local one is the text of an address; the activation is open, done or failed, the attempts
  left are between 0 and 6, and an activation is marked failed only when no attempt is left.
\<close>

theorem session_context_valid:
  assumes "RIL_Init opts content = Inr (Some c)" "ctx w = c" "run driver_exec w es w'"
  shows "(\<exists>s \<in> {[], ''VZW'', ''SPCS'', ''UNK''}. cstr (ctx_carrier (ctx w')) = Inr s) \<and>
    screenState (ctx w') \<in> {SCREEN_IS_OFF, SCREEN_IS_ON} \<and> networkSelectMode (ctx w') \<in> {0, 1} \<and>
    inDataCall (ctx w') \<in> {DATA_STATE_DISCONNECTED, DATA_STATE_CONNECTED} \<and>
    (inDataCall (ctx w') = DATA_STATE_CONNECTED \<longrightarrow> (\<exists>a. dataCallLocalIP (ctx w') = inet_ntop a)) \<and>
    length (dataCallLocalIP (ctx w')) \<le> 15 \<and> length (dataCallGateway (ctx w')) \<le> 15 \<and>
    moduleIsActivated (ctx w') \<in> {0, 1, 2} \<and> moduleActivateRetry (ctx w') \<in> {0..6} \<and>
    (moduleIsActivated (ctx w') = 2 \<longrightarrow> moduleActivateRetry (ctx w') = 0)"
proof -
  have "world_valid w" using RIL_Init_valid [OF assms(1)] assms(2) by (simp add: world_valid_def)
  from valid_driver.reachable [OF this assms(3)] have v: "ctx_valid (ctx w')" by (simp add: world_valid_def)
  then obtain s where s: "s \<in> {[], ''VZW'', ''SPCS'', ''UNK''}" "ctx_carrier (ctx w') = strncpy s 16"
    unfolding ctx_valid_def by blast
  then have "cstr (ctx_carrier (ctx w')) = Inr s" by (auto simp: NUL_def intro!: cstr_strncpy_fits)
  with s(1) v show ?thesis by (auto simp: ctx_valid_def MAX_AUTO_ACTIVATE_RETRY_def)
qed

text \<open>A round of the main loop in which the module turns out to be activated.\<close>

definition activated_answers :: "cmd_event list list" where
  "activated_answers = [[Line ''^MEID:0xA1'', Line ''OK''], [Line ''+VMDN:7605551234'', Line ''OK'']]"

lemma activation_round:
  assumes "RIL_Init [OptAtctrl ''/dev/ttyUSB0'', OptData ''/dev/ttyUSB1''] None = Inr (Some c)"
  shows "\<exists>w'. driver_exec EvWatch (start_world c activated_answers) = Some (Inr w') \<and>
    moduleIsActivated (ctx w') = 1"
proof -
  have "case RIL_Init [OptAtctrl ''/dev/ttyUSB0'', OptData ''/dev/ttyUSB1''] None of
      Inr (Some c) \<Rightarrow> (case watch_round (start_world c activated_answers) of
        Inr (_, w') \<Rightarrow> moduleIsActivated (ctx w') = 1 | _ \<Rightarrow> False) | _ \<Rightarrow> False"
    by code_simp
  with assms show ?thesis by (auto split: sum.splits)
qed

theorem session_context_valid_witness:
  "\<exists>c w'. RIL_Init [OptAtctrl ''/dev/ttyUSB0'', OptData ''/dev/ttyUSB1''] None = Inr (Some c) \<and>
     run driver_exec (start_world c activated_answers) [EvWatch] w' \<and> moduleIsActivated (ctx w') = 1 \<and>
     moduleActivateRetry (ctx w') \<in> {0..6} \<and>
     (\<exists>s \<in> {[], ''VZW'', ''SPCS'', ''UNK''}. cstr (ctx_carrier (ctx w')) = Inr s)"
proof -
  from sample_init obtain c where
    c: "RIL_Init [OptAtctrl ''/dev/ttyUSB0'', OptData ''/dev/ttyUSB1''] None = Inr (Some c)" by blast
  from activation_round [OF c] obtain w' where
    s: "driver_exec EvWatch (start_world c activated_answers) = Some (Inr w')" "moduleIsActivated (ctx w') = 1"
    by blast
  note r = driver_one [OF s(1)]
  from session_context_valid [OF c _ r] c r s(2) show ?thesis by auto
qed

end
