(* ===== verification/RilLiveness.thy ===== *)
theory RilLiveness
  imports RilInvariant
begin

text \<open>
  Losing the modem does not hang the driver: once the reader thread is closed, or when the end
  of its input is among the events of the next command, no handler waits for ever. The argument
  is one more interpretation of \<open>driver_inv\<close>, now with waiting as the excluded fault.
\<close>

section \<open>A channel that is going down\<close>

text \<open>The reader thread is closed, or its end is among the events \<open>es\<close>.\<close>

definition going_down :: "cmd_event list \<Rightarrow> at_chan \<Rightarrow> bool" where
  "going_down es ch \<longleftrightarrow> chan_ok ch \<and>
     (s_readerClosed ch > 0 \<or> s_onReaderClosed ch \<and> ReaderEOF \<in> set es)"

definition unplugged :: "world \<Rightarrow> bool" where
  "unplugged w \<longleftrightarrow> going_down (case modem w of [] \<Rightarrow> [] | es # _ \<Rightarrow> es) (chan w)"

lemma going_down_more: "going_down [] ch \<Longrightarrow> going_down es ch"
  by (auto simp: going_down_def)

lemma reader_event_down:
  assumes "pending_ok ch" "reader_event e ch = Inr (ch', cbs)" "0 \<le> s_readerClosed ch"
    and "s_readerClosed ch > 0 \<or> s_onReaderClosed ch \<and> ReaderEOF \<in> set (e # es)"
  shows "s_readerClosed ch' > 0 \<or> s_onReaderClosed ch' \<and> ReaderEOF \<in> set es"
  using assms processLine_keeps [OF assms(1)]
  by (cases e) (auto simp: reader_event_def onReaderClosed_def split: if_splits)

lemma wait_loop_down:
  "waiting_ok ch \<Longrightarrow> s_readerClosed ch > 0 \<or> s_onReaderClosed ch \<and> ReaderEOF \<in> set es \<Longrightarrow>
   \<exists>t ch' cbs rest. wait_loop tmo es ch = Inr (t, ch', cbs, rest) \<and>
     (s_readerClosed ch' > 0 \<or> s_onReaderClosed ch' \<and> ReaderEOF \<in> set rest)"
proof (induction es arbitrary: ch)
  case Nil
  then have "wait_over ch" by (auto simp: waiting_ok_def wait_over_def)
  with wait_loop_over Nil show ?case by auto
next
  case (Cons e es)
  show ?case
  proof (cases "wait_over ch \<or> e = TimedOut \<and> tmo \<noteq> 0")
    case True
    with wait_loop_over [of ch tmo "e # es"] wait_loop_Cons [OF Cons.prems(1), of tmo e es] Cons.prems(2)
    show ?thesis by (cases "wait_over ch") auto
  next
    case False
    from Cons.prems(1) have p: "pending_ok ch" "0 \<le> s_readerClosed ch" by (auto simp: waiting_ok_def)
    from reader_event_no_fault [OF p(1)] obtain ch1 cbs1 where re: "reader_event e ch = Inr (ch1, cbs1)"
      by blast
    from Cons.IH [OF reader_event_waiting_ok [OF Cons.prems(1) re]
        reader_event_down [OF p(1) re p(2) Cons.prems(2)]]
    show ?thesis using False re wait_loop_Cons [OF Cons.prems(1), of tmo e es] by auto
  qed
qed

section \<open>Commands\<close>

lemma nolock_down:
  assumes "going_down es ch" "type \<in> {SINGLELINE, MULTILINE} \<longrightarrow> pre \<noteq> None"
  shows "\<exists>res. at_send_command_full_nolock cmd type pre pdu tmo want es ch = Inr res \<and>
    going_down (cr_rest res) (cr_chan res)"
proof -
  obtain err ch1 where st: "start_command cmd type pre pdu ch = (err, ch1)" by fastforce
  from assms(1) have ok: "chan_ok ch" "idle ch" "0 \<le> s_readerClosed ch"
    and d: "s_readerClosed ch > 0 \<or> s_onReaderClosed ch \<and> ReaderEOF \<in> set es"
    by (auto simp: going_down_def chan_ok_def)
  have frame: "s_readerClosed (snd (writeline cmd ch)) = s_readerClosed ch"
    "s_onReaderClosed (snd (writeline cmd ch)) = s_onReaderClosed ch" by (simp_all add: writeline_def)
  show ?thesis
  proof (cases "err < 0")
    case True
    with st start_command_cases [OF ok(2) st] frame d ok(3) show ?thesis
      by (auto simp: at_send_command_full_nolock_def going_down_def chan_ok_def clearPendingCommand_def
          idle_def)
  next
    case False
    with start_command_cases [OF ok(2) st] frame ok(3) d
      started_waiting_ok [OF _ assms(2), of "snd (writeline cmd ch)" pdu]
    have w: "waiting_ok ch1" "s_readerClosed ch1 > 0 \<or> s_onReaderClosed ch1 \<and> ReaderEOF \<in> set es"
      by auto
    from wait_loop_down [OF w] obtain t ch2 cbs rest where wl: "wait_loop tmo es ch1 = Inr (t, ch2, cbs, rest)"
      and d2: "s_readerClosed ch2 > 0 \<or> s_onReaderClosed ch2 \<and> ReaderEOF \<in> set rest" by blast
    let ?res = "finish_command want t ch2 cbs rest"
    have "going_down (cr_rest ?res) (cr_chan ?res)"
      using d2 chan_ok_finish [of ch2 want t cbs rest] wait_loop_result [OF w(1) wl]
      by (auto simp: going_down_def finish_command_def clearPendingCommand_def)
    with st wl False show ?thesis by (auto simp: at_send_command_full_nolock_def)
  qed
qed

lemma full_down:
  assumes "going_down es ch" "type \<in> {SINGLELINE, MULTILINE} \<longrightarrow> pre \<noteq> None"
  shows "\<exists>res. at_send_command_full CommandThread cmd type pre pdu tmo want es ch = Inr res \<and>
    going_down (cr_rest res) (cr_chan res)"
proof -
  from nolock_down [OF assms] obtain res where
    "at_send_command_full_nolock cmd type pre pdu tmo want es ch = Inr res"
    "going_down (cr_rest res) (cr_chan res)" by blast
  then show ?thesis by (simp add: at_send_command_full_def)
qed

lemma checked_down:
  assumes "going_down es ch" "type \<in> {SINGLELINE, MULTILINE} \<longrightarrow> pre \<noteq> None"
  shows "\<exists>res. and_then (at_send_command_full CommandThread cmd type pre pdu 0 True es ch)
      (need_intermediate True) = Inr res \<and> going_down (cr_rest res) (cr_chan res)"
proof -
  from full_down [OF assms] obtain res where
    r: "at_send_command_full CommandThread cmd type pre pdu 0 True es ch = Inr res"
    "going_down (cr_rest res) (cr_chan res)" by blast
  have ch: "chan_ok ch" using assms(1) by (simp add: going_down_def)
  have "cr_err res = 0 \<Longrightarrow> cr_out res \<noteq> None"
    using full_contract(2) [OF ch assms(2) r(1)] by auto
  then have "\<exists>res'. need_intermediate True res = Inr res' \<and> cr_rest res' = cr_rest res \<and>
      cr_chan res' = cr_chan res"
    by (auto simp: need_intermediate_def)
  with r show ?thesis by auto
qed

lemma handshake_down:
  "going_down es ch \<Longrightarrow> \<exists>res. handshake_tries n err es ch = Inr res \<and>
     going_down (cr_rest res) (cr_chan res)"
proof (induction n arbitrary: err es ch)
  case (Suc n)
  from nolock_down [OF Suc.prems, of NO_RESULT None] obtain res where
    "at_send_command_full_nolock ''ATE0Q0V1'' NO_RESULT None None HANDSHAKE_TIMEOUT_MSEC False es ch = Inr res"
    "going_down (cr_rest res) (cr_chan res)" by blast
  with Suc.IH [of "cr_rest res" "cr_chan res" "cr_err res"] show ?case
    by (cases "cr_err res = 0") auto
qed simp

lemma command_down:
  assumes "driver_command send" "going_down es ch"
  shows "\<exists>res. send es ch = Inr res \<and> going_down (cr_rest res) (cr_chan res)"
  using assms(1) full_down [OF assms(2)] checked_down [OF assms(2)] handshake_down [OF assms(2)]
  by (auto simp: driver_command_def at_send_command_def at_send_command_singleline_def
      at_send_command_numeric_def at_send_command_sms_def at_send_command_multiline_def at_handshake_def)

section \<open>The driver\<close>

interpretation down_cbs: callback_inv "{Blocked}" "\<lambda>w. going_down es (chan w)" for es
proof
  show "gps_only w w' \<Longrightarrow> going_down es (chan w) \<Longrightarrow> going_down es (chan w')" for w w'
    using gps_only_frame(2) [of w w'] by simp
  have c: "chan_ok ch \<Longrightarrow> going_down es (at_close ch)" for ch
    by (auto simp: going_down_def at_close_def chan_ok_def idle_def)
  show "keeps {Blocked} (\<lambda>w. going_down es (chan w)) onATReaderClosed"
    "keeps {Blocked} (\<lambda>w. going_down es (chan w)) onATTimeout"
    using c by (auto simp: onATReaderClosed_def onATTimeout_def at_close_act_def radioStateSet_def keeps_def
      seq_act_def bind_act_def RIL_onUnsolicitedResponse_def going_down_def)
qed auto

lemma read_event_down:
  assumes "going_down (e # es) (chan w)"
  shows "\<exists>cbs w'. read_event e w = Inr (cbs, w') \<and> going_down es (chan w')"
proof -
  from assms have c: "chan_ok (chan w)" by (simp add: going_down_def)
  then have p: "pending_ok (chan w)" "0 \<le> s_readerClosed (chan w)"
    by (auto simp: chan_ok_def idle_pending_ok)
  from reader_event_no_fault [OF p(1)] obtain ch cbs where r: "reader_event e (chan w) = Inr (ch, cbs)"
    by blast
  have "chan_ok ch"
    using c r by (auto simp: reader_event_def onReaderClosed_def processLine_def chan_ok_def idle_def
        split: cmd_event.splits if_splits)
  with reader_event_down [OF p(1) r p(2), of es] assms r show ?thesis
    by (auto simp: read_event_def going_down_def)
qed

text \<open>Started with its end among the events, the reader thread is closed afterwards.\<close>

definition ends_down :: "cmd_event list \<Rightarrow> 'a act \<Rightarrow> bool" where
  "ends_down es m \<longleftrightarrow> (\<forall>w. going_down es (chan w) \<longrightarrow>
     (case m w of Inl f \<Rightarrow> f \<noteq> Blocked | Inr (_, w') \<Rightarrow> going_down [] (chan w')))"

lemma ends_down_seq:
  assumes "keeps {Blocked} (\<lambda>w. going_down es (chan w)) m" "ends_down es k"
  shows "ends_down es (seq_act m k)"
  unfolding ends_down_def
proof (intro allI impI)
  fix w :: world
  assume g: "going_down es (chan w)"
  show "case seq_act m k w of Inl f \<Rightarrow> f \<noteq> Blocked | Inr (_, w') \<Rightarrow> going_down [] (chan w')"
  proof (cases "m w")
    case (Inl f)
    with keeps_fault [OF assms(1) g Inl] show ?thesis by (simp add: seq_act_def bind_act_def)
  next
    case (Inr p)
    obtain x w1 where p: "p = (x, w1)" by (cases p)
    with keepsD [OF assms(1) g] Inr have "going_down es (chan w1)" by blast
    with assms(2) Inr p show ?thesis by (auto simp: ends_down_def seq_act_def bind_act_def)
  qed
qed

lemma ends_down_then:
  assumes "ends_down es m" "keeps {Blocked} (\<lambda>w. going_down [] (chan w)) k"
  shows "ends_down es (seq_act m k)"
  unfolding ends_down_def
proof (intro allI impI)
  fix w :: world
  assume g: "going_down es (chan w)"
  show "case seq_act m k w of Inl f \<Rightarrow> f \<noteq> Blocked | Inr (_, w') \<Rightarrow> going_down [] (chan w')"
  proof (cases "m w")
    case (Inl f)
    with assms(1) g show ?thesis by (auto simp: seq_act_def bind_act_def ends_down_def)
  next
    case (Inr p)
    obtain x w1 where p: "p = (x, w1)" by (cases p)
    with assms(1) g Inr have "going_down [] (chan w1)" by (auto simp: ends_down_def)
    with keeps_fault [OF assms(2)] keepsD [OF assms(2)] show ?thesis
      unfolding seq_act_def bind_act_def Inr p by (auto split: sum.split)
  qed
qed

lemma idle_down: "ends_down es (idle_events es)"
proof (induction es)
  case Nil
  show ?case by (simp add: ends_down_def)
next
  case (Cons e es)
  show ?case unfolding ends_down_def
  proof (intro allI impI)
    fix w :: world
    assume "going_down (e # es) (chan w)"
    from read_event_down [OF this] obtain cbs w1 where r: "read_event e w = Inr (cbs, w1)"
      and g: "going_down es (chan w1)" by blast
    have "ends_down es (seq_act (run_callbacks cbs) (idle_events es))"
      by (rule ends_down_seq [OF down_cbs.callbacks_keep Cons])
    with r g show "case idle_events (e # es) w of Inl f \<Rightarrow> f \<noteq> Blocked | Inr (_, w') \<Rightarrow> going_down [] (chan w')"
      unfolding idle_events_step bind_act_def by (simp add: ends_down_def)
  qed
qed

lemma ends_down_unplugged:
  assumes "ends_down es k" "going_down es (chan w)"
  shows "k w \<noteq> Inl Blocked" "k w = Inr (x, w') \<Longrightarrow> unplugged w'"
proof -
  from assms have r: "case k w of Inl f \<Rightarrow> f \<noteq> Blocked | Inr (_, w') \<Rightarrow> going_down [] (chan w')"
    unfolding ends_down_def by blast
  then show "k w \<noteq> Inl Blocked" by (cases "k w") auto
  assume "k w = Inr (x, w')"
  with r have "going_down [] (chan w')" by simp
  then show "unplugged w'" unfolding unplugged_def by (rule going_down_more)
qed

lemma run_cmd_down: "driver_command send \<Longrightarrow> keeps {Blocked} unplugged (run_cmd send)"
proof -
  assume d: "driver_command send"
  have one: "\<exists>es k w1. ends_down es k \<and> going_down es (chan w1) \<and> run_cmd send w = k w1"
    if u: "unplugged w" for w
  proof -
    from command_down [OF d u [unfolded unplugged_def]] obtain res where
      r: "send (case modem w of [] \<Rightarrow> [] | es # _ \<Rightarrow> es) (chan w) = Inr res"
      "going_down (cr_rest res) (cr_chan res)" by blast
    let ?k = "seq_act (run_callbacks (cr_cbs res))
      (seq_act (idle_events (cr_rest res)) (ret (cr_err res, cr_out res)))"
    have "ends_down (cr_rest res) ?k"
      by (intro ends_down_seq ends_down_then down_cbs.callbacks_keep idle_down keeps_ret)
    moreover have "run_cmd send w = ?k (w\<lparr>chan := cr_chan res, modem := tl (modem w)\<rparr>)"
      using r(1) by (simp add: run_cmd_def)
    ultimately show ?thesis using r(2)
      by (intro exI [of _ "cr_rest res"] exI [of _ ?k]
          exI [of _ "w\<lparr>chan := cr_chan res, modem := tl (modem w)\<rparr>"]) simp
  qed
  show ?thesis
  proof (rule keepsI)
    fix w f
    assume "unplugged w" "run_cmd send w = Inl f"
    with one [of w] ends_down_unplugged(1) show "f \<notin> {Blocked}" by (metis singletonD)
  next
    fix w x w'
    assume "unplugged w" "run_cmd send w = Inr (x, w')"
    with one [of w] ends_down_unplugged(2) show "unplugged w'" by metis
  qed
qed

lemma second_down: "keeps {Blocked} unplugged ota_second"
proof -
  let ?k = "\<lambda>es. seq_act (idle_events es) (seq_act (upd (\<lambda>w. w\<lparr>modem := tl (modem w)\<rparr>))
    (seq_act (sys_int (SysSleep 1)) get_ctx))"
  have "keeps {Blocked} (\<lambda>w. going_down [] (chan w)) (upd (\<lambda>w. w\<lparr>modem := tl (modem w)\<rparr>))"
    by (simp add: keeps_def)
  then have e: "ends_down es (?k es)" for es
    by (intro ends_down_then idle_down keeps_seq keeps_get down_cbs.sys_int_keeps)
  show ?thesis
  proof (rule keepsI)
    fix w f
    assume "unplugged w" and o: "ota_second w = Inl f"
    then have "going_down (case modem w of [] \<Rightarrow> [] | es # _ \<Rightarrow> es) (chan w)" by (simp add: unplugged_def)
    from ends_down_unplugged(1) [OF e this] o show "f \<notin> {Blocked}" unfolding ota_second_def by auto
  next
    fix w x w'
    assume "unplugged w" and o: "ota_second w = Inr (x, w')"
    then have "going_down (case modem w of [] \<Rightarrow> [] | es # _ \<Rightarrow> es) (chan w)" by (simp add: unplugged_def)
    from ends_down_unplugged(2) [OF e this] o show "unplugged w'" unfolding ota_second_def by blast
  qed
qed

interpretation unplugging: driver_inv "{Blocked}" unplugged UNIV
proof
  show "gps_only w w' \<Longrightarrow> unplugged w \<Longrightarrow> unplugged w'" for w w'
    using gps_only_frame(2,3) [of w w'] by (simp add: unplugged_def)
  have c: "going_down es ch \<Longrightarrow> going_down es (at_close ch)" for es ch
    by (auto simp: going_down_def at_close_def chan_ok_def idle_def)
  show "keeps {Blocked} unplugged onATReaderClosed" "keeps {Blocked} unplugged onATTimeout"
    by (auto simp: onATReaderClosed_def onATTimeout_def at_close_act_def radioStateSet_def keeps_def
      seq_act_def bind_act_def RIL_onUnsolicitedResponse_def unplugged_def intro: c)
  show "keeps {Blocked} unplugged (radioStateSet s)" for s
    by (auto simp: radioStateSet_def keeps_def Let_def unplugged_def
      seq_act_def bind_act_def RIL_onUnsolicitedResponse_def)
  show "driver_command send \<Longrightarrow> keeps {Blocked} unplugged (run_cmd send)" for send
    by (rule run_cmd_down)
  show "keeps {Blocked} unplugged ota_second" by (rule second_down)
qed (auto simp: unplugged_def)

section \<open>Requests after the loss of the modem\<close>

text \<open>
  C10 (liveness). When the reader thread has ended, or ends while the first command of the request waits,
  a regular request does not hang: its handler returns, and the request has been completed
  exactly once more than before.
\<close>

theorem lost_modem_request_completes:
  assumes "regular_request request" "data_ok request data"
    and "modem_ok (modem w)" "unplugged w"
  shows "\<exists>w'. onRequest cause request data t w = Inr ((), w') \<and>
    completions t (ril w') = Suc (completions t (ril w)) \<and> unplugged w'"
proof -
  have s: "sound t (completions t (ril w)) w"
    using assms(3,4) by (simp add: sound_def unplugged_def going_down_def)
  note o = onRequest_sound [OF assms(1,2), of t "completions t (ril w)" cause]
  have k: "keeps {Blocked} unplugged (onRequest cause request data t)"
    by (rule unplugging.onRequest_keeps) simp
  show ?thesis
  proof (cases "onRequest cause request data t w")
    case (Inl f)
    with triple_Inl [OF o s] keeps_fault [OF k assms(4)] show ?thesis by simp
  next
    case (Inr p)
    obtain w' where "p = ((), w')" by (cases p) auto
    with Inr triple_Inr [OF o s, of "()" w'] keepsD [OF k assms(4), of "()" w'] show ?thesis
      by (simp add: sound_def)
  qed
qed

theorem lost_modem_request_completes_witness:
  "\<exists>w'. onRequest 0 (Some RIL_REQUEST_GET_IMEI) DNull 7
      (start_world (zero_ctx\<lparr>sState := RADIO_STATE_SIM_READY\<rparr>) [[Line ''RING'', ReaderEOF]]) = Inr ((), w') \<and>
    completions 7 (ril w') = 1 \<and> unplugged w'"
proof -
  let ?w = "start_world (zero_ctx\<lparr>sState := RADIO_STATE_SIM_READY\<rparr>) [[Line ''RING'', ReaderEOF]]"
  have "regular_request (Some RIL_REQUEST_GET_IMEI)" "data_ok (Some RIL_REQUEST_GET_IMEI) DNull"
    "modem_ok (modem ?w)" "unplugged ?w"
    using fresh_chan_ok(1)
    by (auto simp: regular_request_def data_ok_def modem_ok_def ev_ok_def isSMSUnsolicited_iff
        strStartsWith_iff unplugged_def going_down_def fresh_chan_def)
  from lost_modem_request_completes [OF this, of 0 7] show ?thesis by (simp add: completions_def)
qed

end
