(* ===== verification/RilBehaviour.thy ===== *)
theory RilBehaviour
  imports RilLiveness
begin

text \<open>
  What single operations of the driver do: the radio state, indications from the modem, the start
  options, the automatic data call, the activation, and the places where
  a handler reads or writes beyond what it was given.
\<close>

section \<open>Radio state and indications\<close>

text \<open>
  Setting the radio state: a closed channel turns every request into
  \<^verbatim>\<open>UNAVAILABLE\<close>; the RIL library is notified exactly if the state differs from the one
  before, and nothing else changes.
\<close>

theorem radio_state_change:
  "radioStateSet s w =
    (let n = (if s_closed (ctx w) > 0 then RADIO_STATE_UNAVAILABLE else s) in
     Inr (n \<noteq> sState (ctx w),
      w\<lparr>ctx := (ctx w)\<lparr>sState := n\<rparr>,
        ril := ril w @ (if n = sState (ctx w) then []
          else [Unsol RIL_UNSOL_RESPONSE_RADIO_STATE_CHANGED PNull])\<rparr>))"
proof -
  let ?n = "if s_closed (ctx w) > 0 then RADIO_STATE_UNAVAILABLE else s"
  show ?thesis
  proof (cases "?n = sState (ctx w)")
    case True
    have "w\<lparr>ctx := (ctx w)\<lparr>sState := sState (ctx w)\<rparr>, ril := ril w\<rparr> = w" by simp
    with True show ?thesis
      by (cases "s_closed (ctx w) > 0") (simp_all add: radioStateSet_def seq_act_def bind_act_def)
  next
    case False
    then show ?thesis
      by (cases "s_closed (ctx w) > 0")
        (auto simp: radioStateSet_def seq_act_def bind_act_def RIL_onUnsolicitedResponse_def)
  qed
qed

text \<open>
  An incoming message or status report, on a radio that is available, is handed to
  the RIL library with the text of the second line; on an unavailable radio every line is dropped.
\<close>

theorem sms_indication:
  assumes sms: "strStartsWith s ''+CMT:'' \<or> strStartsWith s ''+CDS:''"
  shows "onUnsolicited s (Some pdu) w = Inr ((), if sState (ctx w) = RADIO_STATE_UNAVAILABLE then w
     else w\<lparr>ril := ril w @ [Unsol (if strStartsWith s ''+CMT:'' then RIL_UNSOL_RESPONSE_NEW_SMS
        else RIL_UNSOL_RESPONSE_NEW_SMS_STATUS_REPORT) (PStr pdu)]\<rparr>)"
proof -
  have "\<not> strStartsWith s p"
    if "p \<in> {''%CTZV:'', ''+CRING:'', ''RING'', ''NO CARRIER'', ''+CCWA'', ''+CREG:'', ''+CGREG:''}" for p
    using sms that by (auto simp: strStartsWith_iff)
  with sms show ?thesis
    by (auto simp: onUnsolicited_def bind_act_def RIL_onUnsolicitedResponse_def)
qed

theorem sms_indication_witness:
  "onUnsolicited ''+CMT: ,24'' (Some ''0791'') (start_world (zero_ctx\<lparr>sState := RADIO_STATE_SIM_READY\<rparr>) []) =
     Inr ((), (start_world (zero_ctx\<lparr>sState := RADIO_STATE_SIM_READY\<rparr>) [])
       \<lparr>ril := [Unsol RIL_UNSOL_RESPONSE_NEW_SMS (PStr ''0791'')]\<rparr>)"
  using sms_indication [of "''+CMT: ,24''" "''0791''"
      "start_world (zero_ctx\<lparr>sState := RADIO_STATE_SIM_READY\<rparr>) []"]
  by (simp add: strStartsWith_iff)

section \<open>Start\<close>

text \<open>
  A port number given as an option has no effect: the session context that the main loop
  starts with has no port, whatever the options are.
\<close>

theorem init_port_discarded:
  assumes "RIL_Init opts content = Inr (Some c)"
  shows "s_port c = -1 \<and> sState c = RADIO_STATE_OFF \<and> s_closed c = 0"
  using RIL_Init_ctx [OF assms] by simp

theorem init_port_discarded_witness:
  "\<exists>c. RIL_Init [OptPort ''5000'', OptData ''/dev/ttyUSB1''] None = Inr (Some c) \<and>
     s_port c = -1 \<and> sState c = RADIO_STATE_OFF \<and> s_closed c = 0"
proof -
  have "case RIL_Init [OptPort ''5000'', OptData ''/dev/ttyUSB1''] None of
      Inr (Some _) \<Rightarrow> True | _ \<Rightarrow> False"
    by code_simp
  then obtain c where "RIL_Init [OptPort ''5000'', OptData ''/dev/ttyUSB1''] None = Inr (Some c)"
    by (auto split: sum.splits option.splits)
  with init_port_discarded [OF this] show ?thesis by blast
qed

text \<open>
  Synchronising with the modem always returns 0, whether or not the modem has answered
  within the hundred attempts; the caller's error branch is never taken.
\<close>

theorem sync_modem_always_succeeds: "\<exists>w'. sync_modem fd w = Inr (0, w')"
  unfolding sync_modem_def by (rule sync_tries_zero)

definition is_sep :: "char \<Rightarrow> bool" where
  "is_sep c \<longleftrightarrow> c = CHR ''/'' \<or> c = CHR 0x5C"

lemma trim_from_spec:
  assumes "\<forall>j. i < j \<and> j < length path \<longrightarrow> \<not> is_sep (path ! j)"
  shows "\<exists>k. trim_from path i = drop k path \<and> (\<forall>j. k \<le> j \<and> 0 < j \<and> j < length path \<longrightarrow> \<not> is_sep (path ! j)) \<and>
    (k = 0 \<or> 2 \<le> k \<and> k \<le> length path \<and> is_sep (path ! (k - 1)))"
  using assms
proof (induction path i rule: trim_from.induct)
  case (1 path)
  then show ?case by (intro exI [of _ 0]) simp
next
  case (2 path i)
  show ?case
  proof (cases "Suc i < length path \<and> is_sep (path ! Suc i)")
    case True
    with 2(2) show ?thesis by (intro exI [of _ "Suc (Suc i)"]) (auto simp: is_sep_def)
  next
    case False
    then have c: "\<not> (Suc i < length path \<and> (path ! Suc i = CHR ''/'' \<or> path ! Suc i = CHR 0x5C))"
      by (simp add: is_sep_def)
    have "\<forall>j. i < j \<and> j < length path \<longrightarrow> \<not> is_sep (path ! j)"
      using 2(2) False by (metis Suc_lessI)
    moreover have "trim_from path (Suc i) = trim_from path i"
      unfolding trim_from.simps using c by (rule if_not_P)
    ultimately show ?thesis using 2(1) [OF c] by simp
  qed
qed

text \<open>
  The device name that is passed to \<^verbatim>\<open>pppd\<close>: the part of the path behind its
  last separator; a separator at the very beginning of the path does not count.
\<close>

theorem trim_path_last_component:
  assumes "path \<noteq> []"
  shows "\<exists>k. trim_path path = Inr (drop k path) \<and>
    (\<forall>j. k \<le> j \<and> 0 < j \<and> j < length path \<longrightarrow> \<not> is_sep (path ! j)) \<and>
    (k = 0 \<or> 2 \<le> k \<and> k \<le> length path \<and> is_sep (path ! (k - 1)))"
proof -
  have "\<forall>j. length path < j \<and> j < length path \<longrightarrow> \<not> is_sep (path ! j)" by auto
  from trim_from_spec [OF this] assms show ?thesis by (simp add: trim_path_def)
qed

theorem trim_path_last_component_witness:
  "\<exists>k. trim_path ''/dev/ttyUSB1'' = Inr (drop k ''/dev/ttyUSB1'') \<and>
    (\<forall>j. k \<le> j \<and> 0 < j \<and> j < length ''/dev/ttyUSB1'' \<longrightarrow> \<not> is_sep (''/dev/ttyUSB1'' ! j)) \<and>
    (k = 0 \<or> 2 \<le> k \<and> k \<le> length ''/dev/ttyUSB1'' \<and> is_sep (''/dev/ttyUSB1'' ! (k - 1)))"
  by (rule trim_path_last_component) simp

section \<open>Data call\<close>

text \<open>Writing the status file changes nothing but the system calls.\<close>

lemma writeStatus_frame:
  assumes "\<exists>t. status_text (ctx w) = Inr t"
  shows "\<exists>rc cs rs. rilWriteStatus file w = Inr (rc, w\<lparr>os_calls := cs, os_rets := rs\<rparr>)"
proof -
  have sysi: "\<exists>i cs rs. sys_int c w = Inr (i, w\<lparr>os_calls := cs, os_rets := rs\<rparr>)" for c w
  proof (cases "os_rets w")
    case Nil
    have e: "w\<lparr>os_calls := cs\<rparr> = w\<lparr>os_calls := cs, os_rets := os_rets w\<rparr>" for cs by simp
    from Nil show ?thesis by (simp add: sys_int_def sys_def bind_act_def) (metis e)
  qed (auto simp: sys_int_def sys_def bind_act_def)
  from assms obtain t where t: "status_text (ctx w) = Inr t" by blast
  from sysi obtain f cs rs where f: "sys_int (SysOpen file) w = Inr (f, w\<lparr>os_calls := cs, os_rets := rs\<rparr>)"
    by blast
  let ?w1 = "w\<lparr>os_calls := cs, os_rets := rs\<rparr>"
  from sysi [of "SysStatusFile t" ?w1] obtain i cs1 rs1 where
    g: "sys_int (SysStatusFile t) ?w1 = Inr (i, w\<lparr>os_calls := cs1, os_rets := rs1\<rparr>)" by auto
  from sysi [of "SysSystem (''chmod 666 '' @ file)" "w\<lparr>os_calls := cs1, os_rets := rs1\<rparr>"]
  obtain j cs2 rs2 where h: "sys_int (SysSystem (''chmod 666 '' @ file)) (w\<lparr>os_calls := cs1, os_rets := rs1\<rparr>)
    = Inr (j, w\<lparr>os_calls := cs2, os_rets := rs2\<rparr>)" by auto
  show ?thesis using f g h t
    by (cases "f \<le> 0") (simp_all add: rilWriteStatus_def bind_act_def seq_act_def, blast+)
qed

text \<open>
  The automatic data call finds the link up: the call counts as connected with the
  address of the link; if it was not connected before, the context is changed, one list of data
  calls with the address is reported and the status file is written, otherwise nothing happens.
\<close>

theorem automatic_call_link_up:
  assumes "poll_ppp_linkstate ''ppp0'' 30 w = Inr (Some (addr, gway), w1)"
    and "cstr (ctx_carrier (ctx w1)) = Inr apn" "cstr (ctx_meid (ctx w1)) = Inr meid"
    and "cstr (ctx_mdn (ctx w1)) = Inr mdn"
  shows "\<exists>w2. pppAutomatic w = Inr (0, w2) \<and> inDataCall (ctx w2) = DATA_STATE_CONNECTED \<and>
    (if inDataCall (ctx w1) = DATA_STATE_CONNECTED then w2 = w1
     else dataCallLocalIP (ctx w2) = inet_ntop addr \<and>
       ril w2 = ril w1 @ [Unsol RIL_UNSOL_DATA_CALL_LIST_CHANGED
         (PDataCall \<lparr>dc_cid = 1, dc_active = 2, dc_type = Some ''IP'', dc_apn = Some apn,
            dc_address = Some (inet_ntop addr)\<rparr>)])"
proof (cases "inDataCall (ctx w1) = DATA_STATE_CONNECTED")
  case True
  with assms(1) show ?thesis by (simp add: pppAutomatic_def bind_act_def seq_act_def)
next
  case False
  let ?c = "(ctx w1)\<lparr>inDataCall := DATA_STATE_CONNECTED, dataCallLocalIP := inet_ntop addr\<rparr>"
  let ?r = "\<lparr>dc_cid = 1, dc_active = 2, dc_type = Some ''IP'', dc_apn = Some apn,
    dc_address = Some (inet_ntop addr)\<rparr>"
  let ?w = "w1\<lparr>ctx := ?c, ril := ril w1 @ [Unsol RIL_UNSOL_DATA_CALL_LIST_CHANGED (PDataCall ?r)]\<rparr>"
  have st: "\<exists>t. status_text ?c = Inr t" using assms(2-4) by (auto simp: status_text_def)
  from writeStatus_frame [of ?w RIL_STATUS_FILEPATH] st obtain rc cs rs where
    ws: "rilWriteStatus RIL_STATUS_FILEPATH ?w = Inr (rc, ?w\<lparr>os_calls := cs, os_rets := rs\<rparr>)" by auto
  from False assms(1,2) ws have "pppAutomatic w = Inr (0, ?w\<lparr>os_calls := cs, os_rets := rs\<rparr>)"
    by (simp add: pppAutomatic_def link_change_def bind_act_def seq_act_def RIL_onUnsolicitedResponse_def)
  with False show ?thesis by simp
qed

text \<open>The world in which the first look at the interface finds it up, with address 10.0.0.7.\<close>

definition link_world :: world where
  "link_world = (start_world zero_ctx [])\<lparr>os_rets := [RInt 0, RIfc 0 117440522 0 1, RInt 0]\<rparr>"

lemma link_world_poll:
  "\<exists>w1. poll_ppp_linkstate ''ppp0'' 30 link_world = Inr (Some (117440522, 0), w1) \<and> ctx w1 = zero_ctx"
proof -
  have p: "ppp_tries ''ppp0'' 30 w = ppp_tries ''ppp0'' (Suc 29) w" for w by simp
  show ?thesis
    unfolding poll_ppp_linkstate_def or_error_def bind_act_def p ppp_tries.simps
    by (simp add: link_world_def start_world_def sys_int_def sys_def bind_act_def)
qed

theorem automatic_call_link_up_witness:
  "\<exists>w1 w2. poll_ppp_linkstate ''ppp0'' 30 link_world = Inr (Some (117440522, 0), w1) \<and>
    pppAutomatic link_world = Inr (0, w2) \<and> inDataCall (ctx w2) = DATA_STATE_CONNECTED \<and>
    dataCallLocalIP (ctx w2) = inet_ntop 117440522"
proof -
  from link_world_poll obtain w1 where
    p: "poll_ppp_linkstate ''ppp0'' 30 link_world = Inr (Some (117440522, 0), w1)" "ctx w1 = zero_ctx" by blast
  have e: "cstr (ctx_carrier zero_ctx) = Inr []" "cstr (ctx_meid zero_ctx) = Inr []"
    "cstr (ctx_mdn zero_ctx) = Inr []" "inDataCall zero_ctx \<noteq> DATA_STATE_CONNECTED"
    by (simp_all add: cstr_def zero_ctx_def DATA_STATE_CONNECTED_def)
  with automatic_call_link_up [OF p(1), of "[]" "[]" "[]"] p show ?thesis by auto
qed

section \<open>Activation\<close>

text \<open>
  The activation gives up: when the counter of attempts is used up (at most one is left),
  a module of the carrier that needs the activation call is marked as failed without another
  call. The main loop calls the helper only for modules with mark 0, so it does not try again.
\<close>

theorem activation_gives_up:
  assumes "\<not> strstr line ''sprint''" "strstr line ''vzw''" "moduleAutoActivate (ctx w) \<noteq> 0"
    and "moduleActivateRetry (ctx w) \<in> {0, 1}"
  shows "activate_carrier line w =
      Inr (-2, w\<lparr>ctx := (ctx w)\<lparr>moduleActivateRetry := 0, moduleIsActivated := 2\<rparr>\<rparr>)"
  using assms by (auto simp: activate_carrier_def bind_act_def seq_act_def Let_def)

theorem activation_gives_up_witness:
  "activate_carrier ''vzw3g.com'' (start_world (zero_ctx\<lparr>moduleAutoActivate := 1, moduleActivateRetry := 1\<rparr>) []) =
     Inr (-2, (start_world (zero_ctx\<lparr>moduleAutoActivate := 1, moduleActivateRetry := 1\<rparr>) [])
       \<lparr>ctx := zero_ctx\<lparr>moduleAutoActivate := 1, moduleActivateRetry := 0, moduleIsActivated := 2\<rparr>\<rparr>)"
proof -
  let ?w = "start_world (zero_ctx\<lparr>moduleAutoActivate := 1, moduleActivateRetry := 1\<rparr>) []"
  have "\<not> strstr ''vzw3g.com'' ''sprint''" "strstr ''vzw3g.com'' ''vzw''"
    "moduleAutoActivate (ctx ?w) \<noteq> 0" "moduleActivateRetry (ctx ?w) \<in> {0, 1}" by simp_all
  from activation_gives_up [OF this] show ?thesis by simp
qed

section \<open>Calls\<close>

text \<open>Whether a line is accepted does not depend on the slot it is stored in.\<close>

lemma nextint_slot:
  "at_tok_nextint cur a = (e, v, cur') \<Longrightarrow> \<exists>v'. at_tok_nextint cur b = (e, v', cur')"
  by (auto simp: at_tok_nextint_def at_tok_nextint_base_def split: option.splits prod.splits)

lemma nextbool_slot:
  "at_tok_nextbool cur (Some a) = (e, v, cur') \<Longrightarrow> \<exists>v'. at_tok_nextbool cur (Some b) = (e, v', cur')"
  by (auto simp: at_tok_nextbool_def split: option.splits prod.splits if_splits)

lemma nextstr_slot:
  "at_tok_nextstr cur a = (e, v, cur') \<Longrightarrow> \<exists>v'. at_tok_nextstr cur b = (e, v', cur')"
  by (auto simp: at_tok_nextstr_def split: option.splits prod.splits)

lemma call_number_slot: "fst (call_number cur c) = fst (call_number cur d)"
proof -
  obtain e v cur1 where s: "at_tok_nextstr cur (c_number c) = (e, v, cur1)" by (rule prod_cases3)
  from nextstr_slot [OF this] obtain v' where s': "at_tok_nextstr cur (c_number d) = (e, v', cur1)" by blast
  obtain e2 t cur2 where n: "at_tok_nextint cur1 (c_toa c) = (e2, t, cur2)" by (rule prod_cases3)
  from nextint_slot [OF this] obtain t' where n': "at_tok_nextint cur1 (c_toa d) = (e2, t', cur2)" by blast
  show ?thesis using s s' n n' by (simp add: call_number_def Let_def)
qed

lemma callFromCLCCLine_slot: "fst (callFromCLCCLine line c) = fst (callFromCLCCLine line d)"
proof -
  obtain e0 cur0 where t0: "at_tok_start (Some line) = (e0, cur0)" by fastforce
  obtain e1 i cur1 where t1: "at_tok_nextint cur0 (c_index c) = (e1, i, cur1)" by (rule prod_cases3)
  from nextint_slot [OF this] obtain i' where u1: "at_tok_nextint cur0 (c_index d) = (e1, i', cur1)" by blast
  obtain e2 m cur2 where t2: "at_tok_nextbool cur1 (Some (c_isMT c)) = (e2, m, cur2)" by (rule prod_cases3)
  from nextbool_slot [OF this] obtain m' where
    u2: "at_tok_nextbool cur1 (Some (c_isMT d)) = (e2, m', cur2)" by blast
  obtain e3 st cur3 where t3: "at_tok_nextint cur2 0 = (e3, st, cur3)" by (rule prod_cases3)
  obtain e4 mode cur4 where t4: "at_tok_nextint cur3 0 = (e4, mode, cur4)" by (rule prod_cases3)
  obtain e5 p cur5 where t5: "at_tok_nextbool cur4 (Some (c_isMpty c)) = (e5, p, cur5)" by (rule prod_cases3)
  from nextbool_slot [OF this] obtain p' where
    u5: "at_tok_nextbool cur4 (Some (c_isMpty d)) = (e5, p', cur5)" by blast
  note parts = t0 t1 u1 t2 u2 t3 t4 t5 u5
  show ?thesis
  proof (cases "clccStateToRILState st")
    case None
    with parts show ?thesis by (simp add: callFromCLCCLine_def Let_def)
  next
    case (Some s)
    with parts show ?thesis
      by (simp add: callFromCLCCLine_def Let_def) (auto intro: call_number_slot)
  qed
qed

definition valid_call :: "string \<Rightarrow> bool" where
  "valid_call line \<longleftrightarrow> fst (callFromCLCCLine line zero_call) = 0"

lemma collect_calls_length:
  "k + length ls \<le> length calls \<Longrightarrow>
     length (collect_calls ls k calls) = k + length (filter valid_call ls)"
proof (induction ls k calls rule: collect_calls.induct)
  case (2 l ls k calls)
  obtain e c where p: "callFromCLCCLine l (calls ! k) = (e, c)" by fastforce
  then have "valid_call l \<longleftrightarrow> e = 0"
    using callFromCLCCLine_slot [of l zero_call "calls ! k"] by (simp add: valid_call_def)
  with 2 p show ?case by (simp add: Let_def)
qed simp

text \<open>
  The list of current calls reported to the RIL library has exactly one entry for each
  line of the modem that is a valid voice call; the array of calls is large enough for any answer.
\<close>

theorem calls_reported:
  "length (collect_calls ls 0 (replicate (length ls) zero_call)) = length (filter valid_call ls)"
  using collect_calls_length [of 0 ls "replicate (length ls) zero_call"] by simp

text \<open>
  A rejected line leaves its traces: the slot is reused for the next call without being
  cleared, so that a call without a number is reported with the number of the rejected line.
\<close>

theorem rejected_call_leaks_number:
  "collect_calls [''+CLCC: 1,0,0,0,0,5551234,x'', ''+CLCC: 2,0,0,0,0''] 0 (replicate 2 zero_call) =
     [\<lparr>c_state = RIL_CALL_ACTIVE, c_index = 1, c_toa = 0, c_isMpty = 0, c_isMT = 0, c_isVoice = True,
       c_number = Some ''5551234''\<rparr>]"
  by code_simp

section \<open>Handlers that go beyond their data\<close>

lemma find_operator_known:
  assumes "code \<in> {''310000'', ''310004'', ''310005'', ''310012''}"
  shows "find_operator code operator_info = Some (''Verizon Wireless'', ''VZW'')" "length code < 32"
  using assms by (auto simp: operator_info_def)

text \<open>The line with the codes of the country and the network, taken apart.\<close>

lemma parse_mccmnc_line:
  assumes "in_int n" "field_ok (Plain mcc)" "field_ok (Plain mnc)" "length (mcc @ mnc) < 32"
  shows "parse_mccmnc (''+VMCCMNC:'' @ show_d n @ '','' @ mcc @ '','' @ mnc) = Inr (Some (mcc @ mnc))"
proof -
  have "tok_start (''+VMCCMNC:'' @ s) = Some (Some s)" for s
    using at_tok_start_prefix [of "''+VMCCMNC''" s] by (simp add: tok_start_def)
  moreover have "tok_int (Some (show_d n @ COMMA # s)) = Some (n, Some s)" for s
    using nextint_show_d [OF assms(1), of "Some s"] by (simp add: tok_int_def then_rest_def)
  moreover have "tok_str (Some (mcc @ COMMA # s)) = Some (mcc, Some s)" for s
    using nextTok_plain [OF assms(2), of "Some s"] by (simp add: tok_str_def at_tok_nextstr_def then_rest_def)
  moreover have "tok_str (Some mnc) = Some (mnc, None)"
    using nextTok_plain [OF assms(3), of None] by (simp add: tok_str_def at_tok_nextstr_def then_rest_def)
  ultimately show ?thesis using assms(4) by (simp add: parse_mccmnc_def)
qed

text \<open>For an operator of the table \<^verbatim>\<open>getNetworkInfo\<close> succeeds, with a pointer to its own frame.\<close>

lemma getNetworkInfo_table:
  assumes "query nonzero ''AT+VMCCMNC?'' ''+VMCCMNC:'' w =
      Inr (Some (''+VMCCMNC:'' @ show_d n @ '','' @ mcc @ '','' @ mnc), w1)"
    and "in_int n" "field_ok (Plain mcc)" "field_ok (Plain mnc)"
    and code: "mcc @ mnc \<in> {''310000'', ''310004'', ''310005'', ''310012''}"
    and "cstr (ctx_meid (ctx w1)) = Inr meid" "cstr (ctx_mdn (ctx w1)) = Inr mdn"
  shows "\<exists>w2. getNetworkInfo w = Inr (Some (''Verizon Wireless'', ''VZW'', StackPtr), w2)"
proof -
  let ?w = "w1\<lparr>ctx := (ctx w1)\<lparr>ctx_carrier := strncpy ''VZW'' 16\<rparr>\<rparr>"
  have "cstr (strncpy ''VZW'' 16) = Inr ''VZW''" by (rule cstr_strncpy_fits) (simp_all add: NUL_def)
  with assms(6,7) have "\<exists>t. status_text (ctx ?w) = Inr t" by (simp add: status_text_def)
  from writeStatus_frame [OF this, of RIL_STATUS_FILEPATH] obtain rc cs rs where
    "rilWriteStatus RIL_STATUS_FILEPATH ?w = Inr (rc, ?w\<lparr>os_calls := cs, os_rets := rs\<rparr>)" by blast
  with assms(1) parse_mccmnc_line [OF assms(2-4) find_operator_known(2) [OF code]] find_operator_known(1) [OF code]
  show ?thesis by (simp add: getNetworkInfo_def or_error_def bind_act_def seq_act_def)
qed

text \<open>
  C39 (error). When the modem reports one of the four operators of the driver's own table, by the codes of
  its country and its network, and the status file can be written, the answer's third string points into a
  stack frame that is gone: the operator request and the list of available networks read it when they
  complete.
\<close>

theorem operator_reads_dead_stack:
  assumes "query nonzero ''AT+VMCCMNC?'' ''+VMCCMNC:'' w =
      Inr (Some (''+VMCCMNC:'' @ show_d n @ '','' @ mcc @ '','' @ mnc), w1)"
    and "in_int n" "field_ok (Plain mcc)" "field_ok (Plain mnc)"
    and "mcc @ mnc \<in> {''310000'', ''310004'', ''310005'', ''310012''}"
    and "cstr (ctx_meid (ctx w1)) = Inr meid" "cstr (ctx_mdn (ctx w1)) = Inr mdn"
  shows "requestOperator t w = Inl Dangling \<and> requestQueryAvailableNetworks t w = Inl Dangling"
proof -
  from getNetworkInfo_table [OF assms] obtain w2 where
    "getNetworkInfo w = Inr (Some (''Verizon Wireless'', ''VZW'', StackPtr), w2)" by blast
  moreover obtain s w3 where "sys_str (SysPropertyGet ''ro.telephony.display_optname'') ''0'' w2 = Inr (s, w3)"
    using sys_total [of "SysPropertyGet ''ro.telephony.display_optname''" w2]
    by (auto simp: sys_str_def bind_act_def)
  ultimately show ?thesis
    by (simp add: requestOperator_def requestQueryAvailableNetworks_def finish_def or_error_def bind_act_def
        seq_act_def read_ptr_def)
qed

theorem operator_reads_dead_stack_witness:
  "requestOperator 7 (start_world zero_ctx [[Line ''+VMCCMNC:1,310,004'', Line ''OK'']]) = Inl Dangling"
proof -
  let ?w = "start_world zero_ctx [[Line ''+VMCCMNC:1,310,004'', Line ''OK'']]"
  have e: "''+VMCCMNC:1,310,004'' = ''+VMCCMNC:'' @ show_d 1 @ '','' @ ''310'' @ '','' @ ''004''" by code_simp
  have "case query nonzero ''AT+VMCCMNC?'' ''+VMCCMNC:'' ?w of
      Inr (Some l, w1) \<Rightarrow> l = ''+VMCCMNC:1,310,004'' \<and> cstr (ctx_meid (ctx w1)) = Inr [] \<and>
        cstr (ctx_mdn (ctx w1)) = Inr [] | _ \<Rightarrow> False"
    by code_simp
  then obtain w1 where
    "query nonzero ''AT+VMCCMNC?'' ''+VMCCMNC:'' ?w = Inr (Some (''+VMCCMNC:'' @ show_d 1 @ '','' @ ''310'' @ '','' @ ''004''), w1)"
    "cstr (ctx_meid (ctx w1)) = Inr []" "cstr (ctx_mdn (ctx w1)) = Inr []"
    unfolding e [symmetric] by (auto split: sum.splits prod.splits option.splits)
  note q = this
  have "in_int 1" "field_ok (Plain ''310'')" "field_ok (Plain ''004'')"
    "''310'' @ ''004'' \<in> {''310000'', ''310004'', ''310005'', ''310012''}"
    by (simp_all add: in_int_def INT_MAX_def INT_MIN_def isspace_def chr_code_def)
  from operator_reads_dead_stack [OF q(1) this q(2,3), of 7] show ?thesis by blast
qed

text \<open>
  The version request skips six characters of the line with the software version, whose
  prefix has five: it reads beyond the end of the line exactly if nothing follows the prefix.
\<close>

theorem version_reads_past_end:
  assumes "strStartsWith line ''+GMR:''"
  shows "tok_plus line 6 = Inl OutOfBounds \<longleftrightarrow> line = ''+GMR:''"
proof -
  from assms obtain r where l: "line = ''+GMR:'' @ r" by (auto simp: strStartsWith_iff)
  have ws: "skipWhiteSpace (Some line) = Some line" by (simp add: l isspace_def chr_code_def)
  have h: "\<not> (line \<noteq> [] \<and> hd line = QUOTE)" by (simp add: l)
  have n: "nextTok (Some line) = (case strsep line COMMA of (t, cur) \<Rightarrow> (Some t, cur))"
    using h by (auto simp: nextTok_def ws)
  obtain t cur where rs: "strsep r COMMA = (t, cur)" by fastforce
  then have "strsep line COMMA = (''+GMR:'' @ t, cur)" by (simp add: l)
  then have tok: "at_tok_nextstr (Some line) None = (0, Some (''+GMR:'' @ t), cur)"
    using n by (simp add: at_tok_nextstr_def)
  show ?thesis
  proof (cases "t = []")
    case True
    with rs have "cur = None \<longleftrightarrow> r = []" by (cases r) (auto split: prod.splits if_splits)
    with True tok l show ?thesis by (cases cur) (auto simp: tok_plus_def)
  next
    case False
    then obtain c t' where "t = c # t'" by (cases t) auto
    moreover from this rs have "r \<noteq> []" by auto
    ultimately show ?thesis using tok l by (simp add: tok_plus_def)
  qed
qed

theorem version_reads_past_end_witness:
  "tok_plus ''+GMR:'' 6 = Inl OutOfBounds \<longleftrightarrow> ''+GMR:'' = ''+GMR:''"
  by (rule version_reads_past_end) (simp add: strStartsWith_iff)

text \<open>
  The text of an outgoing message ends in Ctrl-Z and has the length it was given; a text
  that did not end in Ctrl-Z loses its last character, and an empty one is written in front of its
  start.
\<close>

theorem sms_text_loses_last_char:
  "ctrlz_pdu [] = Inl OutOfBounds \<and> ctrlz_pdu (text @ [c]) = Inr (text @ [CHR 0x1A])"
  by (auto simp: ctrlz_pdu_def)

text \<open>
  A message whose number and text have together more than 98 characters overflows the
  handler's buffer of 128 bytes as soon as the text mode command has returned.
\<close>

theorem long_sms_overflows:
  assumes "data = DStrs [Some smsc, Some pdu]" "98 < length smsc + length pdu" "pdu \<noteq> []"
    and "send_only ''at+cmgf=1'' w = Inr (err, w1)"
  shows "requestSendSMSEVDO data t w = Inl OutOfBounds"
proof -
  obtain p where p: "ctrlz_pdu pdu = Inr p" "length p = length pdu"
    using assms(3) by (auto simp: ctrlz_pdu_def)
  with assms show ?thesis
    by (simp add: requestSendSMSEVDO_def finish_def seq_act_def bind_act_def data_str_def sms_log_fits_def)
qed

lemma send_only_free:
  "\<exists>err w1. send_only ''at+cmgf=1'' (start_world zero_ctx [[Line ''OK'']]) = Inr (err, w1)"
proof -
  have "case send_only ''at+cmgf=1'' (start_world zero_ctx [[Line ''OK'']]) of Inr _ \<Rightarrow> True | Inl _ \<Rightarrow> False"
    by code_simp
  then show ?thesis by (auto split: sum.splits)
qed

theorem long_sms_overflows_witness:
  "requestSendSMSEVDO (DStrs [Some ''5551234'', Some (replicate 160 (CHR ''a''))]) 7
     (start_world zero_ctx [[Line ''OK'']]) = Inl OutOfBounds"
proof -
  from send_only_free obtain err w1 where
    s: "send_only ''at+cmgf=1'' (start_world zero_ctx [[Line ''OK'']]) = Inr (err, w1)" by blast
  show ?thesis
    by (rule long_sms_overflows [OF refl _ _ s]) simp_all
qed

section \<open>Network type\<close>

text \<open>
  The three network types: the value sent to the modem for a type, read back from an
  answer with the prefix the driver expects, gives the type; the prefix with a circumflex, with
  which this modem marks its own answers elsewhere, is not recognised.
\<close>

theorem network_type_roundtrip:
  assumes "mode \<in> {NETWORK_MODE_HYBRID, NETWORK_MODE_CDMA_NO_EVDO, NETWORK_MODE_EVDO_NO_CDMA}"
  shows "\<exists>v. prefmode_of_mode mode = Some v \<and>
    map_option mode_of_prefmode (parse_int (''PREFMODE:'' @ show_d v)) = Some mode \<and>
    \<not> strStartsWith (''^PREFMODE:'' @ show_d v) ''PREFMODE:''"
proof -
  have e: "map_option mode_of_prefmode (parse_int (''PREFMODE:'' @ show_d 2)) = Some 5"
    "map_option mode_of_prefmode (parse_int (''PREFMODE:'' @ show_d 4)) = Some 6"
    "map_option mode_of_prefmode (parse_int (''PREFMODE:'' @ show_d 8)) = Some 4"
    by code_simp+
  from assms consider "mode = 4" | "mode = 5" | "mode = 6"
    by (auto simp: NETWORK_MODE_HYBRID_def NETWORK_MODE_CDMA_NO_EVDO_def NETWORK_MODE_EVDO_NO_CDMA_def)
  then show ?thesis
    using e by cases (simp_all add: prefmode_of_mode_def NETWORK_MODE_HYBRID_def
        NETWORK_MODE_CDMA_NO_EVDO_def NETWORK_MODE_EVDO_NO_CDMA_def strStartsWith_iff)
qed

theorem network_type_roundtrip_witness:
  "\<exists>v. prefmode_of_mode 4 = Some v \<and>
    map_option mode_of_prefmode (parse_int (''PREFMODE:'' @ show_d v)) = Some 4 \<and>
    \<not> strStartsWith (''^PREFMODE:'' @ show_d v) ''PREFMODE:''"
  by (rule network_type_roundtrip) (simp add: NETWORK_MODE_HYBRID_def)

text \<open>
  The GSM version of the registration request, on the forms of the line it knows, and on an error
  of the modem: the missing line is read through a null pointer.
\<close>

lemma tok_show:
  assumes "in_int x"
  shows "tok_int (Some (show_d x)) = Some (x, None)" "tok_int (Some (show_d x @ COMMA # t)) = Some (x, Some t)"
    "tok_hex (Some (show_x x)) = Some (x, None)" "tok_hex (Some (show_x x @ COMMA # t)) = Some (x, Some t)"
  using nextint_show_d [OF assms, of None] nextint_show_d [OF assms, of "Some t"]
    nexthexint_show_x [OF assms, of None] nexthexint_show_x [OF assms, of "Some t"]
  by (simp_all add: tok_int_def tok_hex_def then_rest_def)

lemma no_commas: "filter (\<lambda>c. c = COMMA) (show_d x) = []" "filter (\<lambda>c. c = COMMA) (show_x x) = []"
  using show_d_field_ok [of x] show_x_field_ok [of x] by (auto simp: filter_empty_conv)

lemma tok_start_creg: "tok_start (''+CREG:'' @ s) = Some (Some s)"
  using at_tok_start_prefix [of "''+CREG''" s] by (simp add: tok_start_def)

lemma registration_state_forms:
  assumes "in_int n" "in_int stat" "in_int lac" "in_int cid"
  shows "parse_creg_gsm (''+CREG:'' @ show_d stat) = Some (stat, -1, -1)"
    "parse_creg_gsm (''+CREG:'' @ show_d n @ '','' @ show_d stat) = Some (stat, -1, -1)"
    "parse_creg_gsm (''+CREG:'' @ show_d stat @ '','' @ show_x lac @ '','' @ show_x cid) = Some (stat, lac, cid)"
    "parse_creg_gsm (''+CREG:'' @ show_d n @ '','' @ show_d lac @ '','' @ show_x cid @ '','' @ show_x stat) =
      Some (stat, lac, cid)"
  unfolding parse_creg_gsm_def tok_start_creg using assms by (simp_all add: tok_show no_commas)

lemma registration_state_faults:
  "requestRegistrationState REG_STATE t (start_world c [[Line ''ERROR'']]) = Inl NullDeref"
proof -
  have "and_then (at_send_command_singleline CommandThread ''AT+CREG?'' ''+CREG:'' True [Line ''ERROR''] fresh_chan)
      (\<lambda>res. Inr (cr_err res, cr_out res, cr_cbs res, cr_rest res)) = Inr (0, Some (answer [] ''ERROR''), [], [])"
    by code_simp
  then show ?thesis
    by (auto simp: requestRegistrationState_def finish_def or_error_def bind_act_def run_cmd_def seq_act_def
        first_line_def answer_def c_simps)
qed

end
