(* ===== verification/RilPolls.thy ===== *)
theory RilPolls
  imports RilInvariant "HOL-Library.Sublist"
begin

text \<open>
  The registration poll of \<^verbatim>\<open>fwril-100/fw100-ril-timer.c\<close> over time. A history is the list
  of the lines the polls have seen, each with whether the RIL library was notified; between two polls
  anything may happen that leaves the saved line alone. The histories are characterised by the lines
  alone: which of them were reported follows from the line reported last.
\<close>

section \<open>One poll\<close>

text \<open>Nothing that happens during a command touches the saved line.\<close>

interpretation saved: reader_inv "\<lambda>w. pollSavedCREG w = b" for b
proof
  show "keeps {} (\<lambda>w. pollSavedCREG w = b) onATReaderClosed" "keeps {} (\<lambda>w. pollSavedCREG w = b) onATTimeout"
    by (auto simp: onATReaderClosed_def onATTimeout_def at_close_act_def radioStateSet_def keeps_def
        seq_act_def bind_act_def RIL_onUnsolicitedResponse_def)
  show "keeps {} (\<lambda>w. pollSavedCREG w = b) (read_event e)" for e
    by (auto simp: keeps_def read_event_def c_simps)
  show "keeps {} (\<lambda>w. pollSavedCREG w = b) (exchange send)" for send
    by (auto simp: keeps_def exchange_def c_simps)
qed (auto dest: gps_only_frame)

lemma query_saved:
  assumes "query bad cmd pre w = Inr (r, w1)"
  shows "pollSavedCREG w1 = pollSavedCREG w"
proof -
  have "keeps {} (\<lambda>v. pollSavedCREG v = pollSavedCREG w) (query bad cmd pre)"
    unfolding query_def checked_def
    by (intro keeps_intros saved.keeps_basics saved.run_cmd_keeps no_block) simp
  from keepsD [OF this _ assms] show ?thesis by simp
qed

lemma prefix_padded:
  assumes "c \<notin> set x"
  shows "prefix x (r @ replicate n c) = prefix x r"
proof
  assume "prefix x (r @ replicate n c)"
  then consider "prefix x r" | us where "x = r @ us" "prefix us (replicate n c)" by (auto simp: prefix_append)
  then show "prefix x r"
  proof cases
    case 2
    then have "set us \<subseteq> {c}" using set_mono_prefix [of us "replicate n c"] by auto
    with 2 assms have "us = []" by (cases us) auto
    with 2 show ?thesis by simp
  qed
qed simp

text \<open>What the comparison with the saved line says about the line that was saved.\<close>

lemma unchanged_prefix:
  assumes "NUL \<notin> set line"
  shows "unchanged (strncpy r 64) line \<longleftrightarrow> prefix (take 64 line) r"
proof -
  let ?p = "r @ replicate 64 NUL" and ?m = "min 64 (length line)"
  have "take ?m line = take 64 line" by (cases "length line \<le> 64") simp_all
  moreover have "take ?m (take 64 ?p) = take ?m ?p" "length (take 64 line) = ?m"
    by (simp_all add: min.commute del: take_append)
  ultimately have "unchanged (strncpy r 64) line \<longleftrightarrow> take (length (take 64 line)) ?p = take 64 line"
    by (simp add: unchanged_def strncpy_def Let_def del: take_append)
  also have "\<dots> \<longleftrightarrow> prefix (take 64 line) ?p" by (metis append_eq_conv_conj prefix_def)
  also have "\<dots> \<longleftrightarrow> prefix (take 64 line) r"
    by (rule prefix_padded) (use assms in \<open>auto dest: in_set_takeD\<close>)
  finally show ?thesis .
qed

lemma poll_result:
  assumes "query nonzero ''AT+CREG?'' ''+CREG:'' u = Inr (Some line, w1)"
  shows "pollNetworkRegistration u = Inr ((), if unchanged (pollSavedCREG u) line then w1
    else w1\<lparr>pollSavedCREG := strncpy line 64,
      ril := ril w1 @ [Unsol RIL_UNSOL_RESPONSE_NETWORK_STATE_CHANGED PNull]\<rparr>)"
  using assms query_saved [OF assms]
  by (simp add: pollNetworkRegistration_def seq_act_def bind_act_def RIL_onUnsolicitedResponse_def)

section \<open>Histories\<close>

text \<open>
  \<open>creg_polls w tr w'\<close>: polls from \<open>w\<close> to \<open>w'\<close> that read the lines of \<open>tr\<close>, oldest
  first, and notified where the flag is set. \<open>v\<close> is the state a poll starts in.
\<close>

inductive creg_polls :: "world \<Rightarrow> (string \<times> bool) list \<Rightarrow> world \<Rightarrow> bool" where
  polls_none: "creg_polls w [] w"
| polls_next: "creg_polls w tr w' \<Longrightarrow> pollSavedCREG v = pollSavedCREG w' \<Longrightarrow>
    query nonzero ''AT+CREG?'' ''+CREG:'' v = Inr (Some line, v1) \<Longrightarrow>
    pollNetworkRegistration v = Inr ((), v2) \<Longrightarrow>
    ril v2 = ril v1 @ (if notified then [Unsol RIL_UNSOL_RESPONSE_NETWORK_STATE_CHANGED PNull] else []) \<Longrightarrow>
    creg_polls w (tr @ [(line, notified)]) v2"

text \<open>The line that was reported last.\<close>

definition last_reported :: "(string \<times> bool) list \<Rightarrow> string" where
  "last_reported tr = (case filter snd (rev tr) of [] \<Rightarrow> [] | x # _ \<Rightarrow> fst x)"

lemma last_reported_simps [simp]:
  "last_reported [] = []" "last_reported (tr @ [(l, n)]) = (if n then l else last_reported tr)"
  by (simp_all add: last_reported_def)

lemma history_saved:
  assumes "creg_polls w tr w'" "pollSavedCREG w = replicate 64 NUL" "\<forall>x \<in> set tr. NUL \<notin> set (fst x)"
  shows "pollSavedCREG w' = strncpy (last_reported tr) 64 \<and>
    (\<forall>p l n q. tr = p @ (l, n) # q \<longrightarrow> n = (\<not> prefix (take 64 l) (last_reported p)))"
  using assms
proof (induction rule: creg_polls.induct)
  case (polls_none w)
  then show ?case by (simp add: strncpy_def)
next
  case (polls_next w tr w' v line v1 v2 notified)
  then have saved: "pollSavedCREG v = strncpy (last_reported tr) 64" and "NUL \<notin> set line" by simp_all
  then have same: "unchanged (pollSavedCREG v) line = prefix (take 64 line) (last_reported tr)"
    by (simp add: unchanged_prefix)
  have v1: "pollSavedCREG v1 = pollSavedCREG v" using polls_next.hyps(3) by (rule query_saved)
  from poll_result [OF polls_next.hyps(3)] polls_next.hyps(4,5) same
  have n: "notified = (\<not> prefix (take 64 line) (last_reported tr))" by (auto split: if_splits)
  with poll_result [OF polls_next.hyps(3)] polls_next.hyps(4) same saved v1
  have "pollSavedCREG v2 = strncpy (last_reported (tr @ [(line, notified)])) 64" by auto
  moreover have "n' = (\<not> prefix (take 64 l) (last_reported p))"
    if "tr @ [(line, notified)] = p @ (l, n') # q" for p l n' q
    using that n polls_next.IH polls_next.prems by (cases q rule: rev_cases) auto
  ultimately show ?case by blast
qed

text \<open>With lines of one length, the line reported last is the line of the poll before.\<close>

lemma reported_previous:
  assumes "\<forall>p l n q. tr = p @ (l, n) # q \<longrightarrow> n = (\<not> prefix (take 64 l) (last_reported p))"
    and "\<forall>x \<in> set tr. length (fst x) = k" "k \<le> 64"
  shows "last_reported tr = (if tr = [] then [] else fst (last tr))"
  using assms(1,2)
proof (induction tr rule: rev_induct)
  case (snoc x tr)
  obtain l n where x: "x = (l, n)" by (cases x)
  have IH: "last_reported tr = (if tr = [] then [] else fst (last tr))"
    by (rule snoc.IH) (use snoc.prems in auto)
  have n: "n = (\<not> prefix l (last_reported tr))" using snoc.prems assms(3) x by force
  moreover have "length (last_reported tr) = k \<or> last_reported tr = []"
    unfolding IH using snoc.prems(2) last_in_set [of tr] by auto
  ultimately have "\<not> n \<Longrightarrow> l = last_reported tr"
    using snoc.prems(2) x by (auto simp: prefix_def)
  then show ?case by (simp add: x)
qed simp

lemma all_one_length:
  assumes all: "\<forall>p l n q. tr = p @ (l, n) # q \<longrightarrow> n = (\<not> prefix (take 64 l) (last_reported p))"
    and len: "\<forall>x \<in> set tr. length (fst x) = k" "k \<le> 64" and tr: "tr = p @ (l, n) # q"
  shows "n = (l \<noteq> (if p = [] then [] else fst (last p)))"
proof -
  have "\<forall>p' l n q'. p = p' @ (l, n) # q' \<longrightarrow> n = (\<not> prefix (take 64 l) (last_reported p'))"
    using all tr by auto
  moreover have lp: "\<forall>x \<in> set p. length (fst x) = k" using len tr by simp
  ultimately have rep: "last_reported p = (if p = [] then [] else fst (last p))"
    using len(2) by (rule reported_previous)
  have "length (if p = [] then [] else fst (last p)) = k \<or> (if p = [] then [] else fst (last p)) = []"
    using lp by simp
  moreover have "length l = k" using len tr by simp
  moreover have "n = (\<not> prefix l (last_reported p))" using all tr len by force
  ultimately show ?thesis unfolding rep by (auto simp: prefix_def)
qed

section \<open>Property\<close>

text \<open>
  C32 (functional). The registration poll, over any history of polls from the start of the driver. A
  line is reported to the RIL library exactly when it is not a beginning of the line reported last (the
  first 64 characters count). If all lines have one length of at most 64, as the modem's have, this means:
  exactly when it differs from the line of the poll before. The next poll always returns, reports at most
  this one notification and changes neither the context nor the channel.
\<close>

theorem registration_poll_notifies_once:
  assumes "creg_polls w tr w'" "pollSavedCREG w = replicate 64 NUL" "\<forall>x \<in> set tr. NUL \<notin> set (fst x)"
  shows "(\<forall>p l n q. tr = p @ (l, n) # q \<longrightarrow> n = (\<not> prefix (take 64 l) (last_reported p))) \<and>
    ((\<forall>x \<in> set tr. length (fst x) = k) \<and> k \<le> 64 \<longrightarrow>
      (\<forall>p l n q. tr = p @ (l, n) # q \<longrightarrow> n = (l \<noteq> (if p = [] then [] else fst (last p))))) \<and>
    (pollSavedCREG v = pollSavedCREG w' \<and> query nonzero ''AT+CREG?'' ''+CREG:'' v = Inr (Some line, v1) \<longrightarrow>
      (\<exists>n v2. pollNetworkRegistration v = Inr ((), v2) \<and> creg_polls w (tr @ [(line, n)]) v2 \<and>
        ctx v2 = ctx v1 \<and> chan v2 = chan v1))"
proof (intro conjI impI)
  show all: "\<forall>p l n q. tr = p @ (l, n) # q \<longrightarrow> n = (\<not> prefix (take 64 l) (last_reported p))"
    using history_saved [OF assms] by blast
  show "\<forall>p l n q. tr = p @ (l, n) # q \<longrightarrow> n = (l \<noteq> (if p = [] then [] else fst (last p)))"
    if len: "(\<forall>x \<in> set tr. length (fst x) = k) \<and> k \<le> 64"
    using all_one_length [OF all] len by blast
next
  assume a: "pollSavedCREG v = pollSavedCREG w' \<and> query nonzero ''AT+CREG?'' ''+CREG:'' v = Inr (Some line, v1)"
  note r = poll_result [OF conjunct2 [OF a]]
  show "\<exists>n v2. pollNetworkRegistration v = Inr ((), v2) \<and> creg_polls w (tr @ [(line, n)]) v2 \<and>
      ctx v2 = ctx v1 \<and> chan v2 = chan v1"
    by (intro exI conjI, rule r,
        rule polls_next [OF assms(1) conjunct1 [OF a] conjunct2 [OF a] r, of "\<not> unchanged (pollSavedCREG v) line"])
      simp_all
qed

text \<open>Two polls with the same answer and a third with another one.\<close>

definition three_answers :: world where
  "three_answers = start_world zero_ctx [[Line ''+CREG: 0,1'', Line ''OK''], [Line ''+CREG: 0,1'', Line ''OK''],
     [Line ''+CREG: 0,2'', Line ''OK'']]"

definition poll_sees :: "world \<Rightarrow> string \<Rightarrow> bool" where
  "poll_sees v line \<longleftrightarrow> (case query nonzero ''AT+CREG?'' ''+CREG:'' v of Inr (Some l, _) \<Rightarrow> l = line | _ \<Rightarrow> False)"

lemma poll_sees_iff: "poll_sees v line \<longleftrightarrow> (\<exists>v1. query nonzero ''AT+CREG?'' ''+CREG:'' v = Inr (Some line, v1))"
  by (auto simp: poll_sees_def split: sum.splits option.splits)

lemma three_answers_seen:
  "poll_sees three_answers ''+CREG: 0,1''"
  "pollNetworkRegistration three_answers = Inr ((), v) \<Longrightarrow> poll_sees v ''+CREG: 0,1''"
  "pollNetworkRegistration three_answers = Inr ((), v) \<Longrightarrow> pollNetworkRegistration v = Inr ((), u) \<Longrightarrow>
     poll_sees u ''+CREG: 0,2''"
proof -
  have "case pollNetworkRegistration three_answers of
      Inr (_, v) \<Rightarrow> poll_sees v ''+CREG: 0,1'' \<and> (case pollNetworkRegistration v of
        Inr (_, u) \<Rightarrow> poll_sees u ''+CREG: 0,2'' | _ \<Rightarrow> False) | _ \<Rightarrow> False"
    by code_simp
  then show "pollNetworkRegistration three_answers = Inr ((), v) \<Longrightarrow> poll_sees v ''+CREG: 0,1''"
    "pollNetworkRegistration three_answers = Inr ((), v) \<Longrightarrow> pollNetworkRegistration v = Inr ((), u) \<Longrightarrow>
     poll_sees u ''+CREG: 0,2''" by simp_all
  show "poll_sees three_answers ''+CREG: 0,1''" by code_simp
qed

theorem registration_poll_notifies_once_witness:
  "\<exists>w'. creg_polls three_answers
     [(''+CREG: 0,1'', True), (''+CREG: 0,1'', False), (''+CREG: 0,2'', True)] w'"
proof -
  let ?w = three_answers
  have s: "pollSavedCREG ?w = replicate 64 NUL" by (simp add: three_answers_def start_world_def)
  have more: "\<exists>n v. pollNetworkRegistration w' = Inr ((), v) \<and> creg_polls ?w (tr @ [(line, n)]) v"
    if "creg_polls ?w tr w'" "\<forall>x \<in> set tr. NUL \<notin> set (fst x)" "poll_sees w' line" for tr w' line
    using registration_poll_notifies_once [OF that(1) s that(2), of 0 w' line] that(3) unfolding poll_sees_iff by blast
  from more [OF polls_none _ three_answers_seen(1)] obtain n1 v1 where
    p1: "pollNetworkRegistration ?w = Inr ((), v1)" "creg_polls ?w ([] @ [(''+CREG: 0,1'', n1)]) v1" by auto
  from more [OF p1(2) _ three_answers_seen(2) [OF p1(1)]] obtain n2 v2 where
    p2: "pollNetworkRegistration v1 = Inr ((), v2)"
      "creg_polls ?w (([] @ [(''+CREG: 0,1'', n1)]) @ [(''+CREG: 0,1'', n2)]) v2" by (auto simp: NUL_def)
  from more [OF p2(2) _ three_answers_seen(3) [OF p1(1) p2(1)]] obtain n3 v3 where
    p3: "creg_polls ?w [(''+CREG: 0,1'', n1), (''+CREG: 0,1'', n2), (''+CREG: 0,2'', n3)] v3" by (auto simp: NUL_def)
  let ?tr = "[(''+CREG: 0,1'', n1), (''+CREG: 0,1'', n2), (''+CREG: 0,2'', n3)]"
  have n: "\<forall>p l n q. ?tr = p @ (l, n) # q \<longrightarrow> n = (l \<noteq> (if p = [] then [] else fst (last p)))"
    using registration_poll_notifies_once [OF p3 s, of 10] by (simp add: NUL_def)
  have "n1" using n [rule_format, of "[]"] by simp
  moreover have "\<not> n2" using n [rule_format, of "[(''+CREG: 0,1'', n1)]"] by simp
  moreover have "n3" using n [rule_format, of "[(''+CREG: 0,1'', n1), (''+CREG: 0,1'', n2)]"] by simp
  ultimately show ?thesis using p3 by auto
qed

end
