(* ===== verification/RilRecovery.thy ===== *)
theory RilRecovery
  imports RilLiveness
begin

text \<open>
  The way from the loss of the modem back to work: the main loop registers the callbacks of the
  channel before it opens the port, nothing in the driver takes them away, so that the end of the
  reader thread is always noticed, closes the session and makes the main loop open the port again.
\<close>

section \<open>The registered callback stays\<close>

definition attached :: "at_chan \<Rightarrow> bool" where
  "attached ch \<longleftrightarrow> chan_ok ch \<and> s_onReaderClosed ch"

lemma wait_loop_attached:
  "waiting_ok ch \<Longrightarrow> wait_loop tmo es ch = Inr (t, ch', cbs, rest) \<Longrightarrow> s_onReaderClosed ch' = s_onReaderClosed ch"
proof (induction es arbitrary: ch t ch' cbs rest)
  case Nil
  then show ?case using wait_loop_over [of ch tmo "[]"] wait_loop_Nil [of ch tmo] by (cases "wait_over ch") auto
next
  case (Cons e es)
  show ?case
  proof (cases "wait_over ch \<or> e = TimedOut \<and> tmo \<noteq> 0")
    case True
    with Cons.prems wait_loop_over [of ch tmo "e # es"] wait_loop_Cons [of ch tmo e es]
    show ?thesis by (cases "wait_over ch") auto
  next
    case False
    have p: "pending_ok ch" using Cons.prems(1) by (simp add: waiting_ok_def)
    from reader_event_no_fault [OF p] obtain ch1 cbs1 where re: "reader_event e ch = Inr (ch1, cbs1)" by blast
    with False Cons.prems wait_loop_Cons [of ch tmo e es] obtain cbs2 where
      "wait_loop tmo es ch1 = Inr (t, ch', cbs2, rest)" by (auto simp: c_simps)
    with Cons.IH [OF reader_event_waiting_ok [OF Cons.prems(1) re]] reader_event_onReaderClosed [OF p re]
    show ?thesis by simp
  qed
qed

lemma nolock_attached:
  assumes "attached ch" "type \<in> {SINGLELINE, MULTILINE} \<longrightarrow> pre \<noteq> None"
    and "at_send_command_full_nolock cmd type pre pdu tmo want es ch = Inr res"
  shows "attached (cr_chan res)"
proof -
  obtain err ch1 where st: "start_command cmd type pre pdu ch = (err, ch1)" by fastforce
  have ch: "chan_ok ch" "idle ch" "0 \<le> s_readerClosed ch" "s_onReaderClosed ch"
    using assms(1) by (auto simp: attached_def chan_ok_def)
  have "s_onReaderClosed (cr_chan res)"
  proof (cases "err < 0")
    case True
    with assms(3) st start_command_cases [OF ch(2) st] ch(4) show ?thesis
      by (auto simp: at_send_command_full_nolock_def clearPendingCommand_def writeline_def)
  next
    case False
    with start_command_cases [OF ch(2) st] ch(3,4) started_waiting_ok [OF _ assms(2), of "snd (writeline cmd ch)" pdu]
    have w: "waiting_ok ch1" "s_onReaderClosed ch1" by (auto simp: writeline_def)
    from False assms(3) st obtain t ch2 cbs rest where "wait_loop tmo es ch1 = Inr (t, ch2, cbs, rest)"
      "res = finish_command want t ch2 cbs rest"
      by (auto simp: at_send_command_full_nolock_def c_simps)
    with wait_loop_attached [OF w(1)] w(2) show ?thesis
      by (auto simp: finish_command_def clearPendingCommand_def)
  qed
  with nolock_contract(2) [OF ch(1) assms(2,3)] show ?thesis by (simp add: attached_def)
qed

lemma full_attached:
  assumes "attached ch" "type \<in> {SINGLELINE, MULTILINE} \<longrightarrow> pre \<noteq> None"
    and "at_send_command_full CommandThread cmd type pre pdu tmo want es ch = Inr res"
  shows "attached (cr_chan res)"
proof -
  from assms(3) obtain res0 where "at_send_command_full_nolock cmd type pre pdu tmo want es ch = Inr res0"
    "cr_chan res = cr_chan res0" by (auto simp: at_send_command_full_def c_simps)
  with nolock_attached [OF assms(1,2)] show ?thesis by simp
qed

lemma checked_attached:
  assumes "attached ch" "type \<in> {SINGLELINE, MULTILINE} \<longrightarrow> pre \<noteq> None"
    and "and_then (at_send_command_full CommandThread cmd type pre pdu 0 True es ch) (need_intermediate True) = Inr res"
  shows "attached (cr_chan res)"
proof -
  from assms(3) obtain res0 where "at_send_command_full CommandThread cmd type pre pdu 0 True es ch = Inr res0"
    "cr_chan res = cr_chan res0" by (auto simp: need_intermediate_def c_simps split: if_splits)
  with full_attached [OF assms(1,2)] show ?thesis by simp
qed

lemma handshake_attached:
  "attached ch \<Longrightarrow> handshake_tries n err es ch = Inr res \<Longrightarrow> attached (cr_chan res)"
proof (induction n arbitrary: err es ch res)
  case (Suc n)
  from Suc.prems(2) obtain res1 where
    r: "at_send_command_full_nolock ''ATE0Q0V1'' NO_RESULT None None HANDSHAKE_TIMEOUT_MSEC False es ch = Inr res1"
    and k: "res = res1 \<or> handshake_tries n (cr_err res1) (cr_rest res1) (cr_chan res1) = Inr res \<or>
      (\<exists>res2. handshake_tries n (cr_err res1) (cr_rest res1) (cr_chan res1) = Inr res2 \<and> cr_chan res = cr_chan res2)"
    by (auto simp: c_simps split: if_splits)
  have "attached (cr_chan res1)" by (rule nolock_attached [OF Suc.prems(1) _ r]) simp
  with k Suc.IH show ?case by auto
qed auto

interpretation attached: chan_inv attached
proof
  fix ch
  assume a: "attached ch"
  then show "attached (at_close ch)" by (auto simp: attached_def at_close_def chan_ok_def idle_def)
  show "attached ch'" if "reader_event e ch = Inr (ch', cbs)" for e ch' cbs
  proof -
    have p: "pending_ok ch" "chan_ok ch" using a by (auto simp: attached_def chan_ok_def idle_pending_ok)
    have "chan_ok ch'" using p that
      by (auto simp: reader_event_def onReaderClosed_def processLine_def chan_ok_def idle_def
          split: cmd_event.splits if_splits)
    with a reader_event_onReaderClosed [OF p(1) that] show ?thesis by (simp add: attached_def)
  qed
  show "attached (cr_chan res)" if "driver_command send" "send es ch = Inr res" for send es res
    using that full_attached [OF a, of NO_RESULT None, simplified] full_attached [OF a, of MULTILINE "Some p" for p, simplified]
      checked_attached [OF a, of SINGLELINE "Some p" for p, simplified] checked_attached [OF a, of NUMERIC None, simplified]
      handshake_attached [OF a]
    by (auto simp: driver_command_def at_send_command_def at_send_command_singleline_def
        at_send_command_numeric_def at_send_command_sms_def at_send_command_multiline_def at_handshake_def)
qed

interpretation same_ctx: system_inv "{}" "\<lambda>w. ctx w = c" for c
  by unfold_locales simp_all

section \<open>Runs of the driver\<close>

lemma start_reader_attached:
  "start_reader fd r w = Inr (x, w') \<Longrightarrow> s_onReaderClosed (chan w) \<Longrightarrow>
     attached (chan w') \<and> s_readerClosed (chan w') = 0 \<and> s_closed (ctx w') = 0"
  by (auto simp: start_reader_def at_open_def seq_act_def bind_act_def attached_def chan_ok_def idle_def
      split: if_splits)

lemma main_loop_start_attached:
  assumes "main_loop_start w = Inr (x, w')" "chan_ok (chan w)"
  shows "attached (chan w')"
  using gps_only_frame(2) [OF main_loop_start_world [OF assms(1)]] assms(2)
  by (simp add: attached_def chan_ok_def idle_def at_set_on_timeout_def at_set_on_reader_closed_def)

lemma attached_entries:
  "keeps {} (\<lambda>w. attached (chan w)) (onRequest cause request data t)"
  "keeps {} (\<lambda>w. attached (chan w)) initializeCallback" "keeps {} (\<lambda>w. attached (chan w)) pollSIMState"
proof -
  show "keeps {} (\<lambda>w. attached (chan w)) (onRequest cause request data t)"
    by (rule attached.onRequest_keeps) simp
  show "keeps {} (\<lambda>w. attached (chan w)) initializeCallback"
    by (rule attached.initialize_keeps) simp
  show "keeps {} (\<lambda>w. attached (chan w)) pollSIMState"
    unfolding pollSIMState_def getSIMStatus_def SIM_Status.case
    by (intro keeps_intros attached.setRadioState_keeps) simp
qed

interpretation attached_driver: run_invariant driver_exec
  "\<lambda>w. \<exists>w0. chan_ok (chan w0) \<and> driver_exec EvStart w0 = Some (Inr w)" "\<lambda>w. attached (chan w)"
proof
  show "attached (chan w)" if "\<exists>w0. chan_ok (chan w0) \<and> driver_exec EvStart w0 = Some (Inr w)" for w
    using that main_loop_start_attached by auto
next
  fix w e w'
  assume a: "attached (chan w)" and e: "driver_exec e w = Some (Inr w')"
  show "attached (chan w')"
  proof (cases e)
    case EvStart
    with a e main_loop_start_attached [of w _ w'] show ?thesis by (auto simp: attached_def)
  next
    case (EvReopen r)
    with e obtain x where m: "main_open r w = Inr (x, w')" by auto
    from main_open_cases [OF m] obtain fd w1
      where o: "open_try w = Inr (fd, w1)" "w' = w1 \<or> start_reader fd r w1 = Inr (x, w')" by blast
    have "attached (chan w1)" by (rule keepsD [OF attached.open_try_keeps _ o(1)]) (rule a)
    with o(2) start_reader_attached [of fd r w1 x w'] show ?thesis by (auto simp: attached_def)
  qed (use a e in \<open>auto dest: keepsD [OF attached_entries(1)] keepsD [OF attached_entries(2)]
      keepsD [OF attached_entries(3)] keepsD [OF attached.watch_round_keeps] keepsD [OF attached.idle_keeps]\<close>)
qed

text \<open>Once the session is closed, only the main loop opens it again.\<close>

definition session_closed :: "radio_state \<Rightarrow> int \<Rightarrow> bool" where
  "session_closed s c \<longleftrightarrow> c > 0"

interpretation closed_session: radio_inv session_closed UNIV
  by unfold_locales (auto simp: session_closed_def)

lemma watch_closed:
  assumes "s_closed (ctx w) > 0" "watch_round w = Inr (b, w')"
  shows "b"
proof -
  let ?J = "on_radio session_closed"
  let ?m = "seq_act (sys_int (SysSleep 10)) (bind_act get_ctx (\<lambda>c.
    if moduleIsActivated c = 0 then seq_act activateHelper (ret ()) else ret ()))"
  have k: "keeps {} ?J ?m"
    by (intro keeps_seq keeps_bind keeps_if keeps_get keeps_ret closed_session.sys_int_keeps closed_session.activate_keeps)
  have "watch_round w = bind_act ?m (\<lambda>_. bind_act get_ctx (\<lambda>c.
      if s_closed c \<noteq> 0 then ret True
      else seq_act (if screenState c = 1 then fw100ModemTimer else ret ()) (ret False))) w"
    by (cases "sys_int (SysSleep 10) w") (auto simp: watch_round_def seq_act_def bind_act_def)
  with assms(2) obtain y w1 where m: "?m w = Inr (y, w1)" and
    r: "bind_act get_ctx (\<lambda>c. if s_closed c \<noteq> 0 then ret True
      else seq_act (if screenState c = 1 then fw100ModemTimer else ret ()) (ret False)) w1 = Inr (b, w')"
    by (auto simp: bind_act_Inr_iff)
  have "s_closed (ctx w1) > 0"
    using keepsD [OF k _ m] assms(1) by (simp add: on_radio_def session_closed_def)
  with r show ?thesis by (simp add: bind_act_def)
qed

lemma eof_noticed:
  assumes "attached (chan w)" "s_readerClosed (chan w) = 0"
  shows "\<exists>w'. driver_exec (EvLines [ReaderEOF]) w = Some (Inr w') \<and> s_closed (ctx w') = 1 \<and>
    sState (ctx w') = RADIO_STATE_UNAVAILABLE \<and> unplugged w'"
proof -
  have "reader_event ReaderEOF (chan w) = Inr ((chan w)\<lparr>s_readerClosed := 1\<rparr>, [CbReaderClosed])"
    using assms by (simp add: reader_event_def onReaderClosed_def attached_def)
  with assms show ?thesis
    by (auto simp: onATReaderClosed_def at_close_act_def radioStateSet_def seq_act_def bind_act_def
        RIL_onUnsolicitedResponse_def unplugged_def going_down_def attached_def chan_ok_def idle_def at_close_def)
qed

text \<open>
  An attempt to open the device succeeds when \<^verbatim>\<open>open\<close> and \<^verbatim>\<open>tcsetattr\<close> do, whatever the
  modem answers: \<^verbatim>\<open>sync_modem\<close> gives up after a hundred tries and reports success.
\<close>

definition device_opens :: "int \<Rightarrow> world \<Rightarrow> bool" where
  "device_opens fd w \<longleftrightarrow> fd \<ge> 0 \<and> s_port (ctx w) \<le> 0 \<and> s_device_socket (ctx w) = 0 \<and> s_atctrl_path (ctx w) \<noteq> None \<and>
     (\<exists>rets. os_rets w = RInt fd # RInt 0 # RInt 0 # rets)"

lemma open_try_succeeds:
  assumes "device_opens fd w"
  shows "\<exists>w'. open_try w = Inr (fd, w')"
proof -
  from assms obtain path rets where c: "s_port (ctx w) \<le> 0" "s_device_socket (ctx w) = 0"
    "s_atctrl_path (ctx w) = Some path" "os_rets w = RInt fd # RInt 0 # RInt 0 # rets" "\<not> fd < 0"
    by (auto simp: device_opens_def)
  have int: "sys_int k v = Inr (i, v\<lparr>os_calls := os_calls v @ [k], os_rets := rs\<rparr>)"
    if "os_rets v = RInt i # rs" for k v i rs using that by (simp add: sys_int_def sys_def bind_act_def)
  have "\<exists>w'. open_device path w = Inr (fd, w')"
  proof -
    let ?w = "w\<lparr>os_calls := os_calls w @ [SysOpen path, SysErrnoEAGAIN, SysTcsetattr fd], os_rets := rets\<rparr>"
    obtain w' where s: "sync_tries fd 100 ?w = Inr (0, w')" using sync_tries_zero by blast
    have "open_device path w = bind_act (sync_modem fd) (\<lambda>rc.
        if rc \<noteq> 0 then seq_act (sys_int (SysClose fd)) (ret (-1)) else ret fd) ?w"
      using c(4,5) by (simp add: open_device_def configure_modem_fd_def bind_act_def int)
    with s show ?thesis by (simp add: sync_modem_def bind_act_def)
  qed
  with c show ?thesis by (auto simp: open_try_def bind_act_def)
qed

text \<open>The context stays as it is while the port is opened.\<close>

lemma open_try_ctx: "open_try w = Inr (fd, w') \<Longrightarrow> ctx w' = ctx w"
proof -
  assume o: "open_try w = Inr (fd, w')"
  have "keeps {} (\<lambda>v. ctx v = ctx w) open_try" by (rule same_ctx.open_try_keeps)
  from keepsD [OF this _ o] show ?thesis by simp
qed

lemma reopened:
  assumes "attached (chan w)" "device_opens fd w" "launch_log_fits fd (ctx w)"
  shows "\<exists>w'. driver_exec (EvReopen 0) w = Some (Inr w') \<and> s_closed (ctx w') = 0 \<and> s_fd (chan w') = fd \<and>
    s_readerClosed (chan w') = 0 \<and> attached (chan w')"
proof -
  from open_try_succeeds [OF assms(2)] obtain w1 where o: "open_try w = Inr (fd, w1)" by blast
  have a: "attached (chan w1)" by (rule keepsD [OF attached.open_try_keeps _ o]) (rule assms(1))
  have "launch_log_fits fd ((ctx w1)\<lparr>mainIsStarted := 1\<rparr>)"
    using assms(3) open_try_ctx [OF o] by (simp add: launch_log_fits_def)
  then obtain x w' where s: "start_reader fd 0 w1 = Inr (x, w')" "s_fd (chan w') = fd"
    by (auto simp: start_reader_def at_open_def seq_act_def bind_act_def)
  have "\<not> fd < 0" using assms(2) by (simp add: device_opens_def)
  with o s(1) have "driver_exec (EvReopen 0) w = Some (Inr w')" by (auto simp: main_open_def bind_act_def)
  with s(2) start_reader_attached [OF s(1)] a show ?thesis by (auto simp: attached_def)
qed

text \<open>
  C11 (liveness). Losing the modem is always noticed, and the driver comes back: in every state reached
  after the start of the main loop in which the reader thread runs, its end closes the session and makes
  the radio unavailable; the next round of the main loop does not hang, and when it returns it
  leaves to open the port; after any number of failed attempts, the first attempt at which the
  device opens starts the reader thread and opens the session again, whatever the modem answers.
\<close>

theorem modem_loss_recovered:
  assumes "run driver_exec w (EvStart # es) w'" "chan_ok (chan w)" "s_readerClosed (chan w') = 0"
  shows "\<exists>w1. run driver_exec w' [EvLines [ReaderEOF]] w1 \<and> s_closed (ctx w1) = 1 \<and>
    sState (ctx w1) = RADIO_STATE_UNAVAILABLE \<and> watch_round w1 \<noteq> Inl Blocked \<and>
    (\<forall>b w2. watch_round w1 = Inr (b, w2) \<longrightarrow> b \<and>
      (\<forall>n w3 fd. run driver_exec w2 (replicate n (EvReopen 0)) w3 \<and> device_opens fd w3 \<and> launch_log_fits fd (ctx w3) \<longrightarrow>
        (\<exists>w4. run driver_exec w3 [EvReopen 0] w4 \<and> s_closed (ctx w4) = 0 \<and> s_fd (chan w4) = fd \<and>
          s_readerClosed (chan w4) = 0 \<and> attached (chan w4))))"
proof -
  from assms(1) obtain v where v: "driver_exec EvStart w = Some (Inr v)" "run driver_exec v es w'"
    by (auto elim: run_ConsE)
  have a: "attached (chan w')" using attached_driver.reachable [OF _ v(2)] v(1) assms(2) by blast
  from eof_noticed [OF a assms(3)] obtain w1 where e: "driver_exec (EvLines [ReaderEOF]) w' = Some (Inr w1)"
    and c: "s_closed (ctx w1) = 1" "sState (ctx w1) = RADIO_STATE_UNAVAILABLE" "unplugged w1" by blast
  have a1: "attached (chan w1)" using attached_driver.keeps [OF a e] .
  have nb: "watch_round w1 \<noteq> Inl Blocked" using keeps_fault [OF unplugging.watch_round_keeps c(3)] by auto
  have "\<exists>w4. run driver_exec w3 [EvReopen 0] w4 \<and> s_closed (ctx w4) = 0 \<and> s_fd (chan w4) = fd \<and>
      s_readerClosed (chan w4) = 0 \<and> attached (chan w4)"
    if "watch_round w1 = Inr (b, w2)" "run driver_exec w2 (replicate n (EvReopen 0)) w3" "device_opens fd w3"
      "launch_log_fits fd (ctx w3)" for b w2 n w3 fd
  proof -
    have a2: "attached (chan w2)" by (rule keepsD [OF attached.watch_round_keeps _ that(1)]) (rule a1)
    from reopened [OF attached_driver.run_from [OF that(2) a2] that(3,4)] driver_one [of "EvReopen 0" w3]
    show ?thesis by blast
  qed
  with c nb driver_one [OF e] watch_closed [of w1] show ?thesis by (intro exI [of _ w1]) auto
qed

text \<open>From the state of the static variables before the start.\<close>

definition boot_world :: world where
  "boot_world = (start_world (zero_ctx\<lparr>gpsTtyEnable := True, gpsTtyFD := -1,
       s_atctrl_path := Some ''/dev/ttyUSB0'', s_data_path := Some ''/dev/ttyUSB1''\<rparr>) [])
     \<lparr>chan := fresh_chan\<lparr>s_fd := 0, s_unsolHandler := False, s_onTimeout := False, s_onReaderClosed := False\<rparr>,
      os_rets := [RInt (-1),
        RInt (-1), RInt 0, RInt 2, RStr ''No such file or directory'', RInt 0,
        RInt 5, RInt 0, RInt 0, RInt 3, RStr ''OK'']\<rparr>"

theorem modem_loss_recovered_witness:
  "\<exists>w' w1. run driver_exec boot_world [EvStart, EvReopen 0, EvReopen 0] w' \<and> run driver_exec w' [EvLines [ReaderEOF]] w1 \<and>
     s_closed (ctx w1) = 1 \<and> sState (ctx w1) = RADIO_STATE_UNAVAILABLE \<and> watch_round w1 \<noteq> Inl Blocked \<and>
     (\<nexists>w2. watch_round w1 = Inr (False, w2))"
proof -
  have "map_option (\<lambda>w. s_fd (chan w)) (execs driver_exec [EvStart, EvReopen 0, EvReopen 0] boot_world) = Some 5"
    by code_simp
  from run_view [OF this] obtain w' where
    r: "run driver_exec boot_world [EvStart, EvReopen 0, EvReopen 0] w'" by auto
  have "map_option (\<lambda>w. s_readerClosed (chan w)) (execs driver_exec [EvStart, EvReopen 0, EvReopen 0] boot_world) = Some 0"
    by code_simp
  from run_view [OF this] run_deterministic [OF r] have c: "s_readerClosed (chan w') = 0" by blast
  have "chan_ok (chan boot_world)"
    by (simp add: boot_world_def fresh_chan_def chan_ok_def idle_def)
  from modem_loss_recovered [OF r this c] r show ?thesis by blast
qed

end
