(* ===== verification/GpsNmea.thy ===== *)
theory GpsNmea
  imports CString "HOL-Library.Signed_Division"
begin

text \<open>
  \<^verbatim>\<open>gps/freerunner/gps_freerunner.c\<close>, first part: the tokenizer for NMEA sentences, the
  conversions of fields, and the calendar. A token is the pair of pointers of the source: the
  bytes that can be read from its start to the end of the array it lies in, and its length.

  Arithmetic on \<^verbatim>\<open>double\<close> is a parameter of the model, \<open>fpu\<close>: the operations of the
  C library and the processor that the code applies to parsed numbers.
\<close>

section \<open>Tokenizer\<close>

definition NMEA_MAX_SIZE :: nat where "NMEA_MAX_SIZE = 83"
definition MAX_NMEA_TOKENS :: nat where "MAX_NMEA_TOKENS = 32"

record Token =
  tk_p :: "char list"
  tk_len :: nat

definition tk_text :: "Token \<Rightarrow> string" where
  "tk_text tok = take (tk_len tok) (tk_p tok)"

text \<open>\<^verbatim>\<open>tok.p[0]\<close>\<close>

definition tk_first :: "Token \<Rightarrow> char c_result" where
  "tk_first tok = (case tk_p tok of [] \<Rightarrow> Inl OutOfBounds | c # _ \<Rightarrow> Inr c)"

text \<open>
  The three adjustments in front of the loop, on the pointer \<open>p\<close> and \<open>n = end - p\<close>: the
  dollar sign, the end of the line, the checksum.
\<close>

definition skip_dollar :: "char list \<Rightarrow> nat \<Rightarrow> char list \<times> nat" where
  "skip_dollar p n = (if n > 0 \<and> p ! 0 = CHR ''$'' then (tl p, n - 1) else (p, n))"

definition cut_newline :: "char list \<Rightarrow> nat \<Rightarrow> nat" where
  "cut_newline p n =
     (if n > 0 \<and> p ! (n - 1) = CHR 0x0A
      then (if n - 1 > 0 \<and> p ! (n - 2) = CHR 0x0D then n - 2 else n - 1)
      else n)"

definition cut_checksum :: "char list \<Rightarrow> nat \<Rightarrow> nat" where
  "cut_checksum p n = (if n \<ge> 3 \<and> p ! (n - 3) = CHR ''*'' then n - 3 else n)"

text \<open>
  The write of a token at an index of the array \<^verbatim>\<open>Token tokens[MAX_NMEA_TOKENS]\<close>, followed by the
  rest of the tokens.
\<close>

definition store_token :: "nat \<Rightarrow> Token \<Rightarrow> Token list c_result \<Rightarrow> Token list c_result" where
  "store_token i tok rest =
     (if i < MAX_NMEA_TOKENS then and_then rest (\<lambda>ts. Inr (tok # ts)) else Inl OutOfBounds)"

text \<open>The loop; \<open>memchr\<close> finds the next comma in front of \<^verbatim>\<open>end\<close>.\<close>

function nmea_tokens :: "nat \<Rightarrow> char list \<Rightarrow> nat \<Rightarrow> Token list c_result" where
  "nmea_tokens count p n =
     (if n = 0 then Inr []
      else
        let k = length (takeWhile (\<lambda>c. c \<noteq> CHR '','') (take n p));
            rest = (if k < n then nmea_tokens (if count < MAX_NMEA_TOKENS then Suc count else count)
                                    (drop (Suc k) p) (n - Suc k) else Inr [])
        in if count < MAX_NMEA_TOKENS then store_token count \<lparr>tk_p = p, tk_len = k\<rparr> rest else rest)"
  by pat_completeness auto
termination
  by (relation "measure (\<lambda>(count, p, n). n)") auto

declare nmea_tokens.simps [simp del]

definition nmea_tokenizer_init :: "char list \<Rightarrow> nat \<Rightarrow> Token list c_result" where
  "nmea_tokenizer_init p n =
     (case skip_dollar p n of (p, n) \<Rightarrow>
        let n = cut_newline p n; n = cut_checksum p n in nmea_tokens 0 p n)"

definition nmea_tokenizer_get :: "Token list \<Rightarrow> nat \<Rightarrow> Token" where
  "nmea_tokenizer_get ts index =
     (if index \<ge> length ts then \<lparr>tk_p = [NUL], tk_len = 0\<rparr> else ts ! index)"

section \<open>Numbers\<close>

text \<open>\<^verbatim>\<open>str2int\<close> on the bytes between its two pointers.\<close>

fun str2int_loop :: "string \<Rightarrow> int \<Rightarrow> int" where
  "str2int_loop [] result = result"
| "str2int_loop (x # xs) result =
     (if isdigit x then str2int_loop xs (cint (result * 10 + (int (chr_code x) - 48))) else -1)"

definition str2int :: "string \<Rightarrow> int" where
  "str2int s = (if s = [] then -1 else str2int_loop s 0)"

text \<open>
  The operations on \<^verbatim>\<open>double\<close>: \<^verbatim>\<open>strtod\<close>, literals of the source, an integer as a
  double and back, \<^verbatim>\<open>floor\<close>, arithmetic, equality, and storing in a field of type
  \<^verbatim>\<open>float\<close>.
\<close>

record 'd fpu =
  fp_strtod :: "string \<Rightarrow> 'd"
  fp_lit :: "string \<Rightarrow> 'd"
  fp_of_int :: "int \<Rightarrow> 'd"
  fp_to_int :: "'d \<Rightarrow> int"
  fp_floor :: "'d \<Rightarrow> 'd"
  fp_neg :: "'d \<Rightarrow> 'd"
  fp_add :: "'d \<Rightarrow> 'd \<Rightarrow> 'd"
  fp_sub :: "'d \<Rightarrow> 'd \<Rightarrow> 'd"
  fp_mul :: "'d \<Rightarrow> 'd \<Rightarrow> 'd"
  fp_div :: "'d \<Rightarrow> 'd \<Rightarrow> 'd"
  fp_eq :: "'d \<Rightarrow> 'd \<Rightarrow> bool"
  fp_single :: "'d \<Rightarrow> 'd"

definition str2float :: "'d fpu \<Rightarrow> string \<Rightarrow> 'd" where
  "str2float fp s =
     (if s = [] then fp_lit fp ''-1.0''
      else if length s \<ge> 16 then fp_lit fp ''0.''
      else fp_strtod fp s)"

definition convert_from_hhmm :: "'d fpu \<Rightarrow> Token \<Rightarrow> 'd" where
  "convert_from_hhmm fp tok =
     (let val = str2float fp (tk_text tok);
          degrees = fp_to_int fp (fp_div fp (fp_floor fp val) (fp_of_int fp 100));
          minutes = fp_sub fp val (fp_mul fp (fp_of_int fp degrees) (fp_lit fp ''100.''))
      in fp_add fp (fp_of_int fp degrees) (fp_div fp minutes (fp_lit fp ''60.0'')))"

section \<open>Calendar\<close>

record tm =
  tm_year :: int
  tm_mon :: int
  tm_mday :: int
  tm_hour :: int
  tm_min :: int
  tm_sec :: int

text \<open>A 16-bit \<^verbatim>\<open>short\<close>.\<close>

definition cshort :: "int \<Rightarrow> int" where
  "cshort x = (x + 32768) mod 65536 - 32768"

definition m_to_d :: "int list" where
  "m_to_d = [0, 31, 59, 90, 120, 151, 181, 212, 243, 273, 304, 334]"

text \<open>\<^verbatim>\<open>time_t\<close> has 32 bits on the target.\<close>

definition mkgmtime :: "tm \<Rightarrow> int" where
  "mkgmtime t =
     (let month = cshort (tm_mon t);
          year = cshort (tm_year t + month sdiv 12 + 1900);
          month = cshort (month smod 12);
          (month, year) = (if month < 0 then (cshort (month + 12), cshort (year - 1)) else (month, year));
          result = cint ((year - 1970) * 365 + m_to_d ! nat month);
          year = (if month \<le> 1 then cshort (year - 1) else year);
          result = cint (result + (year - 1968) sdiv 4);
          result = cint (result - (year - 1900) sdiv 100);
          result = cint (result + (year - 1600) sdiv 400);
          result = cint (result + tm_mday t);
          result = cint (result - 1);
          result = cint (result * 24);
          result = cint (result + tm_hour t);
          result = cint (result * 60);
          result = cint (result + tm_min t);
          result = cint (result * 60)
      in cint (result + tm_sec t))"

section \<open>The calendar is right\<close>

text \<open>The Gregorian calendar: seconds since the beginning of 1970.\<close>

definition leap :: "int \<Rightarrow> bool" where
  "leap y \<longleftrightarrow> y mod 4 = 0 \<and> (y mod 100 \<noteq> 0 \<or> y mod 400 = 0)"

fun days_before_year :: "nat \<Rightarrow> int" where
  "days_before_year 0 = 0"
| "days_before_year (Suc k) = days_before_year k + (if leap (1970 + int k) then 366 else 365)"

definition month_lengths :: "bool \<Rightarrow> int list" where
  "month_lengths lp = [31, if lp then 29 else 28, 31, 30, 31, 30, 31, 31, 30, 31, 30, 31]"

definition epoch_seconds :: "nat \<Rightarrow> nat \<Rightarrow> int \<Rightarrow> int \<Rightarrow> int \<Rightarrow> int \<Rightarrow> int" where
  "epoch_seconds k m d h mi s =
     (((days_before_year k + sum_list (take m (month_lengths (leap (1970 + int k)))) + d - 1) * 24 + h) * 60
        + mi) * 60 + s"

definition leaps :: "int \<Rightarrow> int" where
  "leaps y = (y - 1968) div 4 - (y - 1900) div 100 + (y - 1600) div 400"

lemma div_succ:
  fixes a n :: int
  assumes "0 < n"
  shows "(a + 1) div n = a div n + (if n dvd a + 1 then 1 else 0)"
proof -
  have a: "n * (a div n) + a mod n = a" and r: "0 \<le> a mod n" "a mod n < n" using assms by auto
  show ?thesis
  proof (cases "a mod n = n - 1")
    case True
    with a have e: "a + 1 = n * (a div n + 1)" by (simp add: algebra_simps)
    then have "n dvd a + 1" by (rule dvdI)
    moreover have "(a + 1) div n = a div n + 1" unfolding e using assms by simp
    ultimately show ?thesis by simp
  next
    case False
    with r have s: "0 \<le> a mod n + 1" "a mod n + 1 < n" by auto
    have e: "a + 1 = n * (a div n) + (a mod n + 1)" using a by simp
    have "(a + 1) div n = a div n" "(a + 1) mod n = a mod n + 1"
      using int_div_pos_eq [OF e s] int_mod_pos_eq [OF e s] by auto
    with r show ?thesis by (simp add: dvd_eq_mod_eq_0)
  qed
qed

lemma leap_dvd: "leap y \<longleftrightarrow> 4 dvd y \<and> (\<not> 100 dvd y \<or> 400 dvd y)"
  by (simp add: leap_def dvd_eq_mod_eq_0)

lemma div_succ_from:
  fixes y c n :: int
  assumes "0 < n" "n dvd c"
  shows "(y + 1 - c) div n = (y - c) div n + (if n dvd y + 1 then 1 else 0)"
proof -
  have e: "y + 1 - c = y - c + 1" by simp
  have d: "n dvd y - c + 1 \<longleftrightarrow> n dvd y + 1"
    using dvd_diff_left_iff [OF assms(2), of "y + 1"] by (simp add: algebra_simps)
  show ?thesis unfolding e using div_succ [OF assms(1), of "y - c"] unfolding d .
qed

lemma leaps_step: "leaps (y + 1) = leaps y + (if leap (y + 1) then 1 else 0)"
proof -
  have "leaps (y + 1) = leaps y + (if 4 dvd y + 1 then 1 else 0) - (if 100 dvd y + 1 then 1 else 0) +
      (if 400 dvd y + 1 then 1 else 0)"
    unfolding leaps_def
    using div_succ_from [of 4 1968 y] div_succ_from [of 100 1900 y] div_succ_from [of 400 1600 y] by simp
  moreover have i: "100 dvd y + 1 \<Longrightarrow> 4 dvd y + 1" "400 dvd y + 1 \<Longrightarrow> 100 dvd y + 1"
    by (erule dvd_trans [rotated], simp)+
  ultimately show ?thesis unfolding leap_dvd
    by (cases "4 dvd y + 1"; cases "100 dvd y + 1"; cases "400 dvd y + 1")
      (simp_all only: simp_thms if_True if_False)
qed

lemma days_before_year_leaps: "days_before_year k = 365 * int k + leaps (1969 + int k)"
proof (induction k)
  case 0
  show ?case by (simp add: leaps_def)
next
  case (Suc k)
  have "leaps (1970 + int k) = leaps (1969 + int k) + (if leap (1970 + int k) then 1 else 0)"
    using leaps_step [of "1969 + int k"] by (simp add: algebra_simps)
  with Suc show ?case by (simp add: algebra_simps)
qed

lemma month_days:
  assumes "m < 12"
  shows "sum_list (take m (month_lengths lp)) = m_to_d ! m + (if lp \<and> 1 < m then 1 else 0)"
proof -
  from assms have "m \<in> {0,1,2,3,4,5,6,7,8,9,10,11}" by (simp add: eval_nat_numeral less_Suc_eq)
  then show ?thesis by (auto simp: month_lengths_def m_to_d_def)
qed

lemma cint_mod: "cint x = cint y \<longleftrightarrow> x mod 4294967296 = y mod 4294967296"
  by (simp add: cint_def mod_eq_dvd_iff)

lemma cint_mod_self: "cint a mod 4294967296 = a mod 4294967296"
  by (simp add: cint_def mod_diff_left_eq)

lemma cint_ring:
  "cint (cint a + b) = cint (a + b)" "cint (cint a - b) = cint (a - b)" "cint (cint a * b) = cint (a * b)"
  unfolding cint_mod
  by (rule mod_add_cong mod_diff_cong mod_mult_cong; simp add: cint_mod_self)+

lemma sdiv_pos: "0 \<le> a \<Longrightarrow> 0 < b \<Longrightarrow> a sdiv b = a div b" for a b :: int
  by (cases "a = 0") (simp_all add: signed_divide_int_def)

lemma cshort_id: "-32768 \<le> x \<Longrightarrow> x \<le> 32767 \<Longrightarrow> cshort x = x"
  by (simp add: cshort_def)

text \<open>
  C21 (equivalence). The conversion of a date to a time stamp agrees with the Gregorian calendar, for
  every year from 1970 on that a 16-bit number can hold and every month; the number of seconds is
  taken modulo the width of the target's \<^verbatim>\<open>time_t\<close>.
\<close>

theorem mkgmtime_calendar:
  assumes "k \<le> 30000" "m < 12"
  shows "mkgmtime \<lparr>tm_year = int k + 70, tm_mon = int m, tm_mday = d, tm_hour = h, tm_min = mi, tm_sec = s\<rparr> =
    cint (epoch_seconds k m d h mi s)"
proof -
  let ?Y = "1970 + int k"
  let ?y = "if m \<le> 1 then ?Y - 1 else ?Y"
  have mon: "cshort (int m) = int m" "int m sdiv 12 = 0" "int m smod 12 = int m"
    using assms(2) by (auto simp: cshort_def signed_divide_int_def signed_modulo_int_def)
  have yr: "cshort (int k + 70 + 0 + 1900) = ?Y" "cshort (?Y - 1) = ?Y - 1"
    using assms(1) by (simp_all add: cshort_id)
  have l: "leaps ?y = leaps (1969 + int k) + (if leap ?Y \<and> 1 < m then 1 else 0)"
    using leaps_step [of "1969 + int k"] by (auto simp: algebra_simps)
  let ?days = "int k * 365 + m_to_d ! m + leaps ?y + d - 1"
  have "mkgmtime \<lparr>tm_year = int k + 70, tm_mon = int m, tm_mday = d, tm_hour = h, tm_min = mi, tm_sec = s\<rparr> =
      cint (((?days * 24 + h) * 60 + mi) * 60 + s)"
    using yr assms(2) unfolding mkgmtime_def tm.simps mon Let_def
    by (simp add: cint_ring mon sdiv_pos leaps_def) (simp add: algebra_simps)
  moreover have "?days = days_before_year k + sum_list (take m (month_lengths (leap ?Y))) + d - 1"
    unfolding days_before_year_leaps month_days [OF assms(2)] l by simp
  ultimately show ?thesis by (simp only: epoch_seconds_def)
qed

theorem mkgmtime_calendar_witness:
  "mkgmtime \<lparr>tm_year = int 42 + 70, tm_mon = int 1, tm_mday = 29, tm_hour = 12, tm_min = 0, tm_sec = 0\<rparr> =
     cint (epoch_seconds 42 1 29 12 0 0)"
  by (rule mkgmtime_calendar) simp_all

section \<open>The tokenizer is right\<close>

text \<open>The tokens, and that no write of them leaves the array: the guard on \<open>count\<close> is the bound.\<close>

function token_list :: "nat \<Rightarrow> char list \<Rightarrow> nat \<Rightarrow> Token list" where
  "token_list c p n =
     (if n = 0 then []
      else
        let k = length (takeWhile (\<lambda>c. c \<noteq> CHR '','') (take n p));
            rest = (if k < n then token_list (if c < MAX_NMEA_TOKENS then Suc c else c) (drop (Suc k) p) (n - Suc k)
                    else [])
        in if c < MAX_NMEA_TOKENS then \<lparr>tk_p = p, tk_len = k\<rparr> # rest else rest)"
  by pat_completeness auto
termination
  by (relation "measure (\<lambda>(c, p, n). n)") auto

declare token_list.simps [simp del]

lemma nmea_tokens_stored: "nmea_tokens c p n = Inr (token_list c p n)"
proof (induction c p n rule: token_list.induct)
  case (1 c p n)
  show ?case
  proof (cases "n = 0")
    case False
    with 1 [OF False refl] show ?thesis
      by (subst nmea_tokens.simps, subst token_list.simps) (auto simp: store_token_def Let_def)
  qed (simp add: nmea_tokens.simps token_list.simps)
qed

definition sentence_tokens :: "char list \<Rightarrow> nat \<Rightarrow> Token list" where
  "sentence_tokens p n =
     (case skip_dollar p n of (p, n) \<Rightarrow> token_list 0 p (cut_checksum p (cut_newline p n)))"

lemma nmea_tokenizer_init_stored: "nmea_tokenizer_init p n = Inr (sentence_tokens p n)"
  by (simp add: nmea_tokenizer_init_def sentence_tokens_def nmea_tokens_stored Let_def split: prod.split)

lemma token_list_0 [simp]: "token_list c p 0 = []"
  by (simp add: token_list.simps)

text \<open>Every token can be read, and lies inside the sentence.\<close>

lemma token_list_readable:
  "n \<le> length p \<Longrightarrow> t \<in> set (token_list c p n) \<Longrightarrow> tk_p t \<noteq> [] \<and> tk_len t \<le> length (tk_p t)"
proof (induction c p n rule: token_list.induct)
  case (1 count p n)
  let ?k = "length (takeWhile (\<lambda>c. c \<noteq> CHR '','') (take n p))"
  have k: "?k \<le> n" "?k \<le> length p"
    using length_takeWhile_le [of "\<lambda>c. c \<noteq> CHR '',''" "take n p"] 1(2) by auto
  show ?case
  proof (cases "n = 0")
    case False
    then have p: "p \<noteq> []" using 1(2) by auto
    from 1(3) False consider "t = \<lparr>tk_p = p, tk_len = ?k\<rparr>"
      | "?k < n" "t \<in> set (token_list (if count < MAX_NMEA_TOKENS then Suc count else count)
            (drop (Suc ?k) p) (n - Suc ?k))"
      by (subst (asm) token_list.simps) (auto simp: Let_def split: if_splits)
    then show ?thesis
    proof cases
      case 1
      with k p show ?thesis by simp
    next
      case 2
      with 1(1) [OF False refl 2(1)] 1(2) show ?thesis by auto
    qed
  qed (use 1 in simp)
qed

lemma token_list_count: "length (token_list c p n) \<le> MAX_NMEA_TOKENS - c"
proof (induction c p n rule: token_list.induct)
  case (1 count p n)
  show ?case
  proof (cases "n = 0")
    case False
    with 1 [OF False refl] show ?thesis
      by (subst token_list.simps) (auto simp: Let_def Suc_diff_Suc split: if_splits)
  qed simp
qed

fun join_fields :: "string list \<Rightarrow> string" where
  "join_fields [] = []"
| "join_fields [f] = f"
| "join_fields (f # fs) = f @ CHR '','' # join_fields fs"

lemma token_list_fields:
  "fs \<noteq> [] \<Longrightarrow> last fs \<noteq> [] \<Longrightarrow> \<forall>f \<in> set fs. CHR '','' \<notin> set f \<Longrightarrow> c + length fs \<le> MAX_NMEA_TOKENS \<Longrightarrow>
   n \<le> length p \<Longrightarrow> take n p = join_fields fs \<Longrightarrow> map tk_text (token_list c p n) = fs"
proof (induction fs arbitrary: c p n rule: join_fields.induct)
  case (2 f)
  have tw: "takeWhile (\<lambda>c. c \<noteq> CHR '','') f = f" using 2(3) unfolding takeWhile_eq_all_conv by auto
  have "length f = n" using arg_cong [OF 2(6), of length] 2(5) by simp
  moreover from this 2(2) have "n \<noteq> 0" by auto
  moreover have "take n p = f" using 2(6) by simp
  ultimately show ?case using 2(4) by (subst token_list.simps) (simp add: tk_text_def Let_def tw)
next
  case (3 f g fs)
  let ?r = "join_fields (g # fs)"
  have t: "take n p = f @ CHR '','' # ?r" using 3(7) by simp
  have tw: "takeWhile (\<lambda>c. c \<noteq> CHR '','') (take n p) = f"
    unfolding t using 3(4) by (intro takeWhile_append_stop) auto
  have n: "n = Suc (length f + length ?r)" using arg_cong [OF t, of length] 3(6) by simp
  have r: "take (n - Suc (length f)) (drop (Suc (length f)) p) = ?r"
    using drop_take [of "Suc (length f)" n p] unfolding t by simp
  have "map tk_text (token_list (Suc c) (drop (Suc (length f)) p) (n - Suc (length f))) = g # fs"
    by (rule 3(1)) (use 3 r n in auto)
  moreover have "take (length f) p = f"
    using take_take [of "length f" n p] n unfolding t by simp
  ultimately show ?case using tw n 3(5)
    by (subst token_list.simps) (simp add: Let_def tk_text_def)
qed simp

lemma join_fields_nonempty: "fs \<noteq> [] \<Longrightarrow> last fs \<noteq> [] \<Longrightarrow> join_fields fs \<noteq> []"
  by (induction fs rule: join_fields.induct) auto

text \<open>
  C24 (roundtrip). A sentence as the receiver sends it, with its checksum and with or without a carriage
  return, is taken apart into exactly the fields it was put together from, for up to 32 fields of
  which the last is not empty, whatever lies behind it in the array.
\<close>

theorem nmea_sentence_roundtrip:
  assumes "fs \<noteq> []" "last fs \<noteq> []" "\<forall>f \<in> set fs. CHR '','' \<notin> set f" "length fs \<le> MAX_NMEA_TOKENS"
    and "eol = [CHR 0x0A] \<or> eol = [CHR 0x0D, CHR 0x0A]" "b \<noteq> CHR 0x0D"
  shows "\<exists>ts. nmea_tokenizer_init
      (CHR ''$'' # join_fields fs @ [CHR ''*'', a, b] @ eol @ junk)
      (length (CHR ''$'' # join_fields fs @ [CHR ''*'', a, b] @ eol)) = Inr ts \<and> map tk_text ts = fs"
proof -
  let ?body = "join_fields fs" and ?sum = "[CHR ''*'', a, b]"
  let ?p = "?body @ ?sum @ eol @ junk"
  have sd: "skip_dollar (CHR ''$'' # ?p) (length (CHR ''$'' # ?body @ ?sum @ eol)) =
      (?p, length (?body @ ?sum @ eol))"
    by (simp add: skip_dollar_def)
  have nl: "cut_newline ?p (length (?body @ ?sum @ eol)) = length (?body @ ?sum)"
    using assms(5,6) by (auto simp: cut_newline_def nth_append)
  have cs: "cut_checksum ?p (length (?body @ ?sum)) = length ?body"
    by (simp add: cut_checksum_def nth_append)
  have "map tk_text (token_list 0 ?p (length ?body)) = fs"
    by (rule token_list_fields [OF assms(1-3)]) (use assms(4) in auto)
  with sd nl cs show ?thesis by (simp add: nmea_tokenizer_init_stored sentence_tokens_def)
qed

theorem nmea_sentence_roundtrip_witness:
  "\<exists>ts. nmea_tokenizer_init
      (CHR ''$'' # join_fields [''GPGLL'', ''3307.05'', ''N'', [], ''A''] @ [CHR ''*'', CHR ''4'', CHR ''5''] @
        [CHR 0x0D, CHR 0x0A] @ replicate 9 NUL)
      (length (CHR ''$'' # join_fields [''GPGLL'', ''3307.05'', ''N'', [], ''A''] @
        [CHR ''*'', CHR ''4'', CHR ''5''] @ [CHR 0x0D, CHR 0x0A])) = Inr ts \<and>
    map tk_text ts = [''GPGLL'', ''3307.05'', ''N'', [], ''A'']"
  by (rule nmea_sentence_roundtrip) (simp_all add: MAX_NMEA_TOKENS_def)

section \<open>Numbers of fixed width\<close>

text \<open>Two decimal digits.\<close>

definition two_digits :: "nat \<Rightarrow> string" where
  "two_digits n = [char_of (48 + n div 10), char_of (48 + n mod 10)]"

lemma digit_char: "n < 10 \<Longrightarrow> isdigit (char_of (48 + n)) \<and> int (chr_code (char_of (48 + n))) = 48 + int n"
  by (simp add: isdigit_def chr_code_def)

lemma str2int_two_digits:
  assumes "n < 100"
  shows "str2int (two_digits n) = int n"
proof -
  have d: "n div 10 < 10" "n mod 10 < 10" using assms by auto
  have e: "int (n div 10) * 10 + int (n mod 10) = int n" by presburger
  have "cint (int (n div 10)) = int (n div 10)" "cint (int (n div 10) * 10 + int (n mod 10)) = int n"
    unfolding e using assms by (auto simp: cint_def)
  with digit_char [OF d(1)] digit_char [OF d(2)] show ?thesis
    by (simp add: str2int_def two_digits_def)
qed

end
