(* ===== verification/GpsReader.thy ===== *)
theory GpsReader
  imports GpsNmea "HOL-Library.Word"
begin

text \<open>
  \<^verbatim>\<open>gps/freerunner/gps_freerunner.c\<close>, second part: the reader that collects the bytes of
  the receiver into sentences and turns them into a position fix and the list of satellites. The
  structures \<^verbatim>\<open>GpsLocation\<close> and \<^verbatim>\<open>GpsSvStatus\<close> come from Android's \<^verbatim>\<open>gps.h\<close>: the
  flags of a fix are the set of the values it has, and the size of the array of satellites is
  the length of the list \<open>sv_list\<close> (\<^verbatim>\<open>GPS_MAX_SVS\<close>). A callback that is called is an
  element of the output.
\<close>

unbundle bit_operations_syntax

section \<open>State\<close>

datatype loc_flag = HAS_LAT_LONG | HAS_ALTITUDE | HAS_SPEED | HAS_BEARING | HAS_ACCURACY

record 'd GpsLocation =
  loc_flags :: "loc_flag set"
  latitude :: 'd
  longitude :: 'd
  altitude :: 'd
  speed :: 'd
  bearing :: 'd
  accuracy :: 'd
  timestamp :: int

record 'd GpsSvInfo =
  prn :: int
  snr :: 'd
  elevation :: 'd
  azimuth :: 'd

record 'd GpsSvStatus =
  num_svs :: int
  sv_list :: "'d GpsSvInfo list"
  used_in_fix_mask :: "32 word"

record 'd NmeaReader =
  rd_pos :: nat
  rd_overflow :: bool
  utc_year :: int
  utc_mon :: int
  utc_day :: int
  utc_diff :: int
  fix_loc :: "'d GpsLocation"
  sv_status :: "'d GpsSvStatus"
  sv_status_changed :: bool
  rd_in :: "char list"   \<comment> \<open>\<^verbatim>\<open>char in[ NMEA_MAX_SIZE+1 ]\<close>\<close>

datatype run_state = STATE_QUIT | STATE_INIT | STATE_START

text \<open>The state of the library; of the callbacks only counts whether they are set.\<close>

record 'd GpsState =
  gs_init :: run_state
  gs_fd :: int
  location_cb :: bool
  sv_status_cb :: bool
  status_cb :: bool
  control0 :: int
  control1 :: int
  fix_freq :: int
  first_fix :: bool
  gs_reader :: "'d NmeaReader"

datatype gps_status =
    GPS_STATUS_ENGINE_ON | GPS_STATUS_ENGINE_OFF | GPS_STATUS_SESSION_BEGIN | GPS_STATUS_SESSION_END

datatype 'd gps_out = LocationCb "'d GpsLocation" | SvStatusCb "'d GpsSvStatus" | StatusCb gps_status

section \<open>Initialisation\<close>

text \<open>
  \<^verbatim>\<open>memset\<close> and the assignments; \<open>diff\<close> is what the C library's time functions say about
  the zone, which nothing reads later.
\<close>

definition zero_location :: "'d fpu \<Rightarrow> 'd GpsLocation" where
  "zero_location fp = (let z = fp_of_int fp 0 in
     \<lparr>loc_flags = {}, latitude = z, longitude = z, altitude = z, speed = z, bearing = z, accuracy = z,
      timestamp = 0\<rparr>)"

definition zero_svs :: "'d fpu \<Rightarrow> nat \<Rightarrow> 'd GpsSvStatus" where
  "zero_svs fp max_svs = (let z = fp_of_int fp 0 in
     \<lparr>num_svs = 0, sv_list = replicate max_svs \<lparr>prn = 0, snr = z, elevation = z, azimuth = z\<rparr>,
      used_in_fix_mask = 0\<rparr>)"

definition nmea_reader_init :: "'d fpu \<Rightarrow> nat \<Rightarrow> int \<Rightarrow> 'd NmeaReader" where
  "nmea_reader_init fp max_svs diff =
     \<lparr>rd_pos = 0, rd_overflow = False, utc_year = -1, utc_mon = -1, utc_day = -1, utc_diff = diff,
      fix_loc = zero_location fp, sv_status = zero_svs fp max_svs, sv_status_changed = False,
      rd_in = replicate (NMEA_MAX_SIZE + 1) NUL\<rparr>"

section \<open>Date and time\<close>

text \<open>The bytes from \<open>i\<close> to \<open>j\<close> of a token, for positions inside it.\<close>

definition tk_sub :: "Token \<Rightarrow> nat \<Rightarrow> nat \<Rightarrow> string" where
  "tk_sub tok i j = drop i (take j (tk_p tok))"

definition milliseconds :: "Token \<Rightarrow> int" where
  "milliseconds tok =
     (if tk_len tok = 9 then str2int (tk_sub tok 7 9) * 10
      else if tk_len tok = 8 then str2int (tk_sub tok 7 8) * 100
      else if tk_len tok \<ge> 10 then str2int (tk_sub tok 7 10)
      else 0)"

definition nmea_reader_update_time :: "Token \<Rightarrow> 'd NmeaReader \<Rightarrow> int \<times> 'd NmeaReader" where
  "nmea_reader_update_time tok r =
     (if tk_len tok < 6 then (-1, r)
      else if utc_year r < 0 then (-1, r)
      else
        let fix_time = mkgmtime \<lparr>tm_year = utc_year r - 1900, tm_mon = utc_mon r - 1, tm_mday = utc_day r,
              tm_hour = str2int (tk_sub tok 0 2), tm_min = str2int (tk_sub tok 2 4),
              tm_sec = str2int (tk_sub tok 4 6)\<rparr>
        in (0, r\<lparr>fix_loc := (fix_loc r)\<lparr>timestamp := fix_time * 1000 + milliseconds tok\<rparr>\<rparr>))"

definition nmea_reader_update_cdate ::
  "Token \<Rightarrow> Token \<Rightarrow> Token \<Rightarrow> 'd NmeaReader \<Rightarrow> int \<times> 'd NmeaReader" where
  "nmea_reader_update_cdate tok_d tok_m tok_y r =
     (if tk_len tok_d < 2 \<or> tk_len tok_m < 2 \<or> tk_len tok_y < 4 then (-1, r)
      else (0, r\<lparr>utc_day := str2int (tk_sub tok_d 0 2), utc_mon := str2int (tk_sub tok_m 0 2),
                 utc_year := str2int (tk_sub tok_y 0 4)\<rparr>))"

text \<open>\<^verbatim>\<open>(day|mon|year) < 0\<close>: one of the three is negative.\<close>

definition nmea_reader_update_date :: "Token \<Rightarrow> Token \<Rightarrow> 'd NmeaReader \<Rightarrow> int \<times> 'd NmeaReader" where
  "nmea_reader_update_date tok time r =
     (if tk_len tok \<noteq> 6 then (-1, r)
      else
        let day = str2int (tk_sub tok 0 2); mon = str2int (tk_sub tok 2 4);
            year = str2int (tk_sub tok 4 6) + 2000
        in if day < 0 \<or> mon < 0 \<or> year < 0 then (-1, r)
           else nmea_reader_update_time time (r\<lparr>utc_year := year, utc_mon := mon, utc_day := day\<rparr>))"

section \<open>Position\<close>

definition nmea_reader_update_latlong ::
  "'d fpu \<Rightarrow> Token \<Rightarrow> char \<Rightarrow> Token \<Rightarrow> char \<Rightarrow> 'd NmeaReader \<Rightarrow> int \<times> 'd NmeaReader" where
  "nmea_reader_update_latlong fp lat_tok latHemi lon_tok lonHemi r =
     (if tk_len lat_tok < 6 then (-1, r)
      else let lat = convert_from_hhmm fp lat_tok;
               lat = (if latHemi = CHR ''S'' then fp_neg fp lat else lat)
      in if tk_len lon_tok < 6 then (-1, r)
      else let lon = convert_from_hhmm fp lon_tok;
               lon = (if lonHemi = CHR ''W'' then fp_neg fp lon else lon)
      in (0, r\<lparr>fix_loc := (fix_loc r)\<lparr>loc_flags := insert HAS_LAT_LONG (loc_flags (fix_loc r)),
                latitude := lat, longitude := lon\<rparr>\<rparr>))"

definition nmea_reader_update_altitude :: "'d fpu \<Rightarrow> Token \<Rightarrow> 'd NmeaReader \<Rightarrow> int \<times> 'd NmeaReader" where
  "nmea_reader_update_altitude fp tok r =
     (if tk_len tok = 0 then (-1, r)
      else (0, r\<lparr>fix_loc := (fix_loc r)\<lparr>loc_flags := insert HAS_ALTITUDE (loc_flags (fix_loc r)),
                  altitude := str2float fp (tk_text tok)\<rparr>\<rparr>))"

definition nmea_reader_update_accuracy :: "'d fpu \<Rightarrow> Token \<Rightarrow> 'd NmeaReader \<Rightarrow> int \<times> 'd NmeaReader" where
  "nmea_reader_update_accuracy fp tok r =
     (if tk_len tok = 0 then (-1, r)
      else let a = fp_single fp (str2float fp (tk_text tok));
               r = r\<lparr>fix_loc := (fix_loc r)\<lparr>accuracy := a\<rparr>\<rparr>
      in if fp_eq fp a (fp_lit fp ''99.99'') then (0, r)
      else (0, r\<lparr>fix_loc := (fix_loc r)\<lparr>loc_flags := insert HAS_ACCURACY (loc_flags (fix_loc r))\<rparr>\<rparr>))"

definition nmea_reader_update_bearing :: "'d fpu \<Rightarrow> Token \<Rightarrow> 'd NmeaReader \<Rightarrow> int \<times> 'd NmeaReader" where
  "nmea_reader_update_bearing fp tok r =
     (if tk_len tok = 0 then (-1, r)
      else (0, r\<lparr>fix_loc := (fix_loc r)\<lparr>loc_flags := insert HAS_BEARING (loc_flags (fix_loc r)),
                  bearing := fp_single fp (str2float fp (tk_text tok))\<rparr>\<rparr>))"

definition nmea_reader_update_speed :: "'d fpu \<Rightarrow> Token \<Rightarrow> 'd NmeaReader \<Rightarrow> int \<times> 'd NmeaReader" where
  "nmea_reader_update_speed fp tok r =
     (if tk_len tok = 0 then (-1, r)
      else (0, r\<lparr>fix_loc := (fix_loc r)\<lparr>loc_flags := insert HAS_SPEED (loc_flags (fix_loc r)),
                  speed := fp_single fp (fp_div fp (fp_mul fp (str2float fp (tk_text tok))
                    (fp_lit fp ''1.852'')) (fp_lit fp ''3.6''))\<rparr>\<rparr>))"

section \<open>Satellites\<close>

text \<open>\<^verbatim>\<open>used_in_fix_mask |= (1ul << (32 - prn))\<close> with a 32-bit \<^verbatim>\<open>unsigned long\<close>\<close>

definition mark_used :: "int \<Rightarrow> 32 word \<Rightarrow> 32 word c_result" where
  "mark_used p m = (if 32 < p then Inl BadShift else Inr (m OR push_bit (nat (32 - p)) 1))"

text \<open>The loop over the twelve satellite fields of a GSA sentence.\<close>

fun gsa_loop :: "Token list \<Rightarrow> nat list \<Rightarrow> 'd NmeaReader \<Rightarrow> 'd NmeaReader c_result" where
  "gsa_loop ts [] r = Inr r"
| "gsa_loop ts (i # is) r =
     (let p = str2int (tk_text (nmea_tokenizer_get ts i)) in
      if p > 0
      then and_then (mark_used p (used_in_fix_mask (sv_status r))) (\<lambda>m.
             gsa_loop ts is (r\<lparr>sv_status := (sv_status r)\<lparr>used_in_fix_mask := m\<rparr>,
                              sv_status_changed := True\<rparr>))
      else gsa_loop ts is r)"

definition parse_gsa :: "'d fpu \<Rightarrow> Token list \<Rightarrow> 'd NmeaReader \<Rightarrow> 'd NmeaReader c_result" where
  "parse_gsa fp ts r =
     and_then (tk_first (nmea_tokenizer_get ts 2)) (\<lambda>st.
       if st \<noteq> NUL \<and> st \<noteq> CHR ''1''
       then let r = snd (nmea_reader_update_accuracy fp (nmea_tokenizer_get ts 15) r)
            in gsa_loop ts [3..<15] (r\<lparr>sv_status := (sv_status r)\<lparr>used_in_fix_mask := 0\<rparr>\<rparr>)
       else Inr r)"

text \<open>
  The loop of a GSV sentence, with \<open>n\<close> of its four groups left; \<open>curr\<close> always equals the
  number of satellites so far.
\<close>

fun gsv_loop :: "'d fpu \<Rightarrow> Token list \<Rightarrow> int \<Rightarrow> nat \<Rightarrow> 'd NmeaReader \<Rightarrow> 'd NmeaReader c_result" where
  "gsv_loop fp ts noSatellites 0 r = Inr r"
| "gsv_loop fp ts noSatellites (Suc n) r =
     (let sv = sv_status r; curr = num_svs sv; i = 3 - n in
      if curr < noSatellites
      then if 0 \<le> curr \<and> nat curr < length (sv_list sv)
        then
          let num = (\<lambda>j. str2float fp (tk_text (nmea_tokenizer_get ts (i * 4 + j))));
              info = \<lparr>prn = str2int (tk_text (nmea_tokenizer_get ts (i * 4 + 4))),
                      snr = fp_single fp (num 7), elevation = fp_single fp (num 5),
                      azimuth = fp_single fp (num 6)\<rparr>
          in gsv_loop fp ts noSatellites n (r\<lparr>sv_status :=
               sv\<lparr>sv_list := (sv_list sv)[nat curr := info], num_svs := cint (curr + 1)\<rparr>\<rparr>)
        else Inl OutOfBounds
      else Inr r)"

definition parse_gsv :: "'d fpu \<Rightarrow> Token list \<Rightarrow> 'd NmeaReader \<Rightarrow> 'd NmeaReader c_result" where
  "parse_gsv fp ts r =
     (let noSatellites = str2int (tk_text (nmea_tokenizer_get ts 3)) in
      if noSatellites > 0
      then
        let sentence = str2int (tk_text (nmea_tokenizer_get ts 2));
            totalSentences = str2int (tk_text (nmea_tokenizer_get ts 1));
            r = (if sentence = 1
                 then r\<lparr>sv_status_changed := False, sv_status := (sv_status r)\<lparr>num_svs := 0\<rparr>\<rparr> else r)
        in and_then (gsv_loop fp ts noSatellites 4 r) (\<lambda>r.
             Inr (if sentence = totalSentences then r\<lparr>sv_status_changed := True\<rparr> else r))
      else Inr r)"

section \<open>Sentences\<close>

definition parse_gga :: "'d fpu \<Rightarrow> Token list \<Rightarrow> 'd NmeaReader \<Rightarrow> 'd NmeaReader c_result" where
  "parse_gga fp ts r =
     and_then (tk_first (nmea_tokenizer_get ts 6)) (\<lambda>st.
       if chr_code st > 48 \<and> utc_year r \<ge> 0
       then and_then (tk_first (nmea_tokenizer_get ts 3)) (\<lambda>latHemi.
            and_then (tk_first (nmea_tokenizer_get ts 5)) (\<lambda>lonHemi.
              let r = snd (nmea_reader_update_latlong fp (nmea_tokenizer_get ts 2) latHemi
                             (nmea_tokenizer_get ts 4) lonHemi r)
              in Inr (snd (nmea_reader_update_altitude fp (nmea_tokenizer_get ts 9) r))))
       else Inr r)"

definition parse_gll :: "'d fpu \<Rightarrow> Token list \<Rightarrow> 'd NmeaReader \<Rightarrow> 'd NmeaReader c_result" where
  "parse_gll fp ts r =
     and_then (tk_first (nmea_tokenizer_get ts 6)) (\<lambda>st.
       if st = CHR ''A'' \<and> utc_year r \<ge> 0
       then and_then (tk_first (nmea_tokenizer_get ts 2)) (\<lambda>latHemi.
            and_then (tk_first (nmea_tokenizer_get ts 4)) (\<lambda>lonHemi.
              Inr (snd (nmea_reader_update_latlong fp (nmea_tokenizer_get ts 1) latHemi
                     (nmea_tokenizer_get ts 3) lonHemi r))))
       else Inr r)"

definition parse_rmc :: "'d fpu \<Rightarrow> Token list \<Rightarrow> 'd NmeaReader \<Rightarrow> 'd NmeaReader c_result" where
  "parse_rmc fp ts r =
     and_then (tk_first (nmea_tokenizer_get ts 2)) (\<lambda>st.
       if st = CHR ''A''
       then and_then (tk_first (nmea_tokenizer_get ts 4)) (\<lambda>latHemi.
            and_then (tk_first (nmea_tokenizer_get ts 6)) (\<lambda>lonHemi.
              let r = snd (nmea_reader_update_date (nmea_tokenizer_get ts 9) (nmea_tokenizer_get ts 1) r);
                  r = snd (nmea_reader_update_latlong fp (nmea_tokenizer_get ts 3) latHemi
                             (nmea_tokenizer_get ts 5) lonHemi r);
                  r = snd (nmea_reader_update_bearing fp (nmea_tokenizer_get ts 8) r)
              in Inr (snd (nmea_reader_update_speed fp (nmea_tokenizer_get ts 7) r))))
       else Inr r)"

definition parse_vtg :: "'d fpu \<Rightarrow> Token list \<Rightarrow> 'd NmeaReader \<Rightarrow> 'd NmeaReader c_result" where
  "parse_vtg fp ts r =
     and_then (tk_first (nmea_tokenizer_get ts 9)) (\<lambda>st.
       if st \<noteq> NUL \<and> st \<noteq> CHR ''N''
       then let r = snd (nmea_reader_update_bearing fp (nmea_tokenizer_get ts 1) r)
            in Inr (snd (nmea_reader_update_speed fp (nmea_tokenizer_get ts 5) r))
       else Inr r)"

definition parse_zda :: "Token list \<Rightarrow> 'd NmeaReader \<Rightarrow> 'd NmeaReader c_result" where
  "parse_zda ts r =
     and_then (tk_first (nmea_tokenizer_get ts 4)) (\<lambda>y.
     and_then (tk_first (nmea_tokenizer_get ts 1)) (\<lambda>t.
       if y \<noteq> NUL \<and> t \<noteq> NUL
       then let r = snd (nmea_reader_update_cdate (nmea_tokenizer_get ts 2) (nmea_tokenizer_get ts 3)
                           (nmea_tokenizer_get ts 4) r)
            in Inr (snd (nmea_reader_update_time (nmea_tokenizer_get ts 1) r))
       else Inr r))"

text \<open>The sentence behind the two characters of the talker.\<close>

definition parse_sentence :: "'d fpu \<Rightarrow> Token list \<Rightarrow> 'd NmeaReader \<Rightarrow> 'd NmeaReader c_result" where
  "parse_sentence fp ts r =
     (let sid = tk_sub (nmea_tokenizer_get ts 0) 2 5 in
      if sid = ''GGA'' then parse_gga fp ts r
      else if sid = ''GLL'' then parse_gll fp ts r
      else if sid = ''GSA'' then parse_gsa fp ts r
      else if sid = ''GSV'' then parse_gsv fp ts r
      else if sid = ''RMC'' then parse_rmc fp ts r
      else if sid = ''VTG'' then parse_vtg fp ts r
      else if sid = ''ZDA'' then parse_zda ts r
      else Inr r)"

text \<open>The report of the first fix, as long as no session is started.\<close>

definition report_first_fix :: "'d GpsState \<Rightarrow> 'd GpsState \<times> 'd gps_out list" where
  "report_first_fix s =
     (if \<not> first_fix s \<and> gs_init s = STATE_INIT \<and> HAS_LAT_LONG \<in> loc_flags (fix_loc (gs_reader s))
      then let s' = s\<lparr>first_fix := True\<rparr>; r = gs_reader s in
        if location_cb s
        then (s'\<lparr>gs_reader := r\<lparr>fix_loc := (fix_loc r)\<lparr>loc_flags := {}\<rparr>\<rparr>\<rparr>, [LocationCb (fix_loc r)])
        else (s', [])
      else (s, []))"

definition nmea_reader_parse :: "'d fpu \<Rightarrow> 'd GpsState \<Rightarrow> ('d GpsState \<times> 'd gps_out list) c_result" where
  "nmea_reader_parse fp s =
     (let r = gs_reader s in
      if rd_pos r < 9 then Inr (s, [])
      else
        and_then (nmea_tokenizer_init (rd_in r) (rd_pos r)) (\<lambda>ts.
        if tk_len (nmea_tokenizer_get ts 0) < 5 then Inr (s, [])
        else and_then (parse_sentence fp ts r) (\<lambda>r. Inr (report_first_fix (s\<lparr>gs_reader := r\<rparr>)))))"

text \<open>
  One byte of the receiver. The parser runs under the semaphore that the timer thread takes for
  its reports, so that each of the two sees the reader between the steps of the other.
\<close>

definition nmea_reader_addc ::
  "'d fpu \<Rightarrow> char \<Rightarrow> 'd GpsState \<Rightarrow> ('d GpsState \<times> 'd gps_out list) c_result" where
  "nmea_reader_addc fp c s =
     (let r = gs_reader s in
      if rd_overflow r then Inr (s\<lparr>gs_reader := r\<lparr>rd_overflow := (c \<noteq> CHR 0x0A)\<rparr>\<rparr>, [])
      else if rd_pos r \<ge> length (rd_in r) - 1
      then Inr (s\<lparr>gs_reader := r\<lparr>rd_overflow := True, rd_pos := 0\<rparr>\<rparr>, [])
      else
        let s = s\<lparr>gs_reader := r\<lparr>rd_in := (rd_in r)[rd_pos r := c], rd_pos := rd_pos r + 1\<rparr>\<rparr> in
        if c = CHR 0x0A
        then and_then (nmea_reader_parse fp s) (\<lambda>(s, outs).
               Inr (s\<lparr>gs_reader := (gs_reader s)\<lparr>rd_pos := 0\<rparr>\<rparr>, outs))
        else Inr (s, []))"

text \<open>The bytes one \<^verbatim>\<open>read\<close> returned.\<close>

fun nmea_reader_add :: "'d fpu \<Rightarrow> string \<Rightarrow> 'd GpsState \<Rightarrow> ('d GpsState \<times> 'd gps_out list) c_result" where
  "nmea_reader_add fp [] s = Inr (s, [])"
| "nmea_reader_add fp (c # cs) s =
     and_then (nmea_reader_addc fp c s) (\<lambda>(s, outs).
     and_then (nmea_reader_add fp cs s) (\<lambda>(s, outs'). Inr (s, outs @ outs')))"

section \<open>The reader stays inside its arrays\<close>

definition reader_ok :: "'d NmeaReader \<Rightarrow> bool" where
  "reader_ok r \<longleftrightarrow> length (rd_in r) = NMEA_MAX_SIZE + 1 \<and> rd_pos r \<le> NMEA_MAX_SIZE \<and>
     0 \<le> num_svs (sv_status r) \<and> num_svs (sv_status r) \<le> int (length (sv_list (sv_status r))) \<and>
     int (length (sv_list (sv_status r))) < INT_MAX"

text \<open>Which parts of the reader an update leaves alone.\<close>

definition same_buffers :: "'d NmeaReader \<Rightarrow> 'd NmeaReader \<Rightarrow> bool" where
  "same_buffers r r' \<longleftrightarrow> rd_in r' = rd_in r \<and> rd_pos r' = rd_pos r \<and> rd_overflow r' = rd_overflow r \<and>
     sv_list (sv_status r') = sv_list (sv_status r) \<and> num_svs (sv_status r') = num_svs (sv_status r)"

lemma same_buffers_refl [simp]: "same_buffers r r"
  by (simp add: same_buffers_def)

lemma same_buffers_trans: "same_buffers r r' \<Longrightarrow> same_buffers r' r'' \<Longrightarrow> same_buffers r r''"
  by (simp add: same_buffers_def)

lemma same_buffers_ok: "same_buffers r r' \<Longrightarrow> reader_ok r \<Longrightarrow> reader_ok r'"
  by (simp add: same_buffers_def reader_ok_def)

lemma updates_keep_buffers [intro]:
  "same_buffers r (snd (nmea_reader_update_time t r))"
  "same_buffers r (snd (nmea_reader_update_cdate t u v r))"
  "same_buffers r (snd (nmea_reader_update_date t u r))"
  "same_buffers r (snd (nmea_reader_update_latlong fp t a u b r))"
  "same_buffers r (snd (nmea_reader_update_altitude fp t r))"
  "same_buffers r (snd (nmea_reader_update_accuracy fp t r))"
  "same_buffers r (snd (nmea_reader_update_bearing fp t r))"
  "same_buffers r (snd (nmea_reader_update_speed fp t r))"
  by (simp_all add: same_buffers_def nmea_reader_update_time_def nmea_reader_update_cdate_def
      nmea_reader_update_date_def nmea_reader_update_latlong_def nmea_reader_update_altitude_def
      nmea_reader_update_accuracy_def nmea_reader_update_bearing_def nmea_reader_update_speed_def Let_def)

lemmas updates_after = updates_keep_buffers [THEN same_buffers_trans [rotated]]

text \<open>Tokens of a sentence can be read.\<close>

definition tokens_ok :: "Token list \<Rightarrow> bool" where
  "tokens_ok ts \<longleftrightarrow> (\<forall>t \<in> set ts. tk_p t \<noteq> [])"

lemma tk_first_ok: "tokens_ok ts \<Longrightarrow> \<exists>c. tk_first (nmea_tokenizer_get ts i) = Inr c"
proof -
  assume "tokens_ok ts"
  then have "tk_p (nmea_tokenizer_get ts i) \<noteq> []"
    by (auto simp: tokens_ok_def nmea_tokenizer_get_def)
  then show ?thesis by (auto simp: tk_first_def split: list.splits)
qed

lemma tokenizer_ok:
  assumes "n \<le> length p"
  shows "tokens_ok (sentence_tokens p n)"
proof -
  obtain q m where q: "skip_dollar p n = (q, m)" by fastforce
  with assms have m: "m \<le> length q" by (auto simp: skip_dollar_def split: if_splits)
  have "cut_checksum q (cut_newline q m) \<le> m" by (auto simp: cut_checksum_def cut_newline_def)
  with m have "cut_checksum q (cut_newline q m) \<le> length q" by simp
  from token_list_readable [OF this] q show ?thesis
    by (auto simp: tokens_ok_def sentence_tokens_def)
qed

lemma simple_sentences_keep:
  assumes "tokens_ok ts"
  shows "\<exists>r'. parse_gga fp ts r = Inr r' \<and> same_buffers r r'"
    "\<exists>r'. parse_gll fp ts r = Inr r' \<and> same_buffers r r'"
    "\<exists>r'. parse_rmc fp ts r = Inr r' \<and> same_buffers r r'"
    "\<exists>r'. parse_vtg fp ts r = Inr r' \<and> same_buffers r r'"
    "\<exists>r'. parse_zda ts r = Inr r' \<and> same_buffers r r'"
proof -
  note f = tk_first_ok [OF assms]
  from f [of 6] f [of 3] f [of 5] show "\<exists>r'. parse_gga fp ts r = Inr r' \<and> same_buffers r r'"
    by (auto simp: parse_gga_def Let_def intro!: updates_after)
  from f [of 6] f [of 2] f [of 4] show "\<exists>r'. parse_gll fp ts r = Inr r' \<and> same_buffers r r'"
    by (auto simp: parse_gll_def Let_def)
  from f [of 2] f [of 4] f [of 6] show "\<exists>r'. parse_rmc fp ts r = Inr r' \<and> same_buffers r r'"
    by (auto simp: parse_rmc_def Let_def intro!: updates_after)
  from f [of 9] show "\<exists>r'. parse_vtg fp ts r = Inr r' \<and> same_buffers r r'"
    by (auto simp: parse_vtg_def Let_def intro!: updates_after)
  from f [of 4] f [of 1] show "\<exists>r'. parse_zda ts r = Inr r' \<and> same_buffers r r'"
    by (auto simp: parse_zda_def Let_def intro!: updates_after)
qed

lemma gsa_loop_cases:
  "(\<exists>r'. gsa_loop ts is r = Inr r' \<and> same_buffers r r') \<or>
   gsa_loop ts is r = Inl BadShift \<and> (\<exists>i \<in> set is. 32 < str2int (tk_text (nmea_tokenizer_get ts i)))"
proof (induction ts "is" r rule: gsa_loop.induct)
  case (2 ts i "is" r)
  let ?p = "str2int (tk_text (nmea_tokenizer_get ts i))"
  show ?case
  proof (cases "?p > 0")
    case False
    with 2(2) [OF refl] show ?thesis by auto
  next
    case True
    let ?m = "used_in_fix_mask (sv_status r) OR push_bit (nat (32 - ?p)) 1"
    let ?r = "r\<lparr>sv_status := (sv_status r)\<lparr>used_in_fix_mask := ?m\<rparr>, sv_status_changed := True\<rparr>"
    show ?thesis
    proof (cases "32 < ?p")
      case False
      have "same_buffers r ?r" by (simp add: same_buffers_def)
      with 2(1) [OF refl True, of ?m] True False show ?thesis
        by (auto simp: mark_used_def Let_def intro: same_buffers_trans)
    qed (use True in \<open>auto simp: mark_used_def Let_def\<close>)
  qed
qed simp

lemma gsv_loop_cases:
  "reader_ok r \<Longrightarrow>
   (\<exists>r'. gsv_loop fp ts no n r = Inr r' \<and> reader_ok r' \<and> rd_in r' = rd_in r \<and> rd_pos r' = rd_pos r) \<or>
   gsv_loop fp ts no n r = Inl OutOfBounds \<and> int (length (sv_list (sv_status r))) < no"
proof (induction fp ts no n r rule: gsv_loop.induct)
  case (2 fp ts no n r)
  let ?sv = "sv_status r"
  let ?curr = "num_svs ?sv"
  let ?num = "\<lambda>j. str2float fp (tk_text (nmea_tokenizer_get ts ((3 - n) * 4 + j)))"
  let ?info = "\<lparr>prn = str2int (tk_text (nmea_tokenizer_get ts ((3 - n) * 4 + 4))),
    snr = fp_single fp (?num 7), elevation = fp_single fp (?num 5), azimuth = fp_single fp (?num 6)\<rparr>"
  let ?r = "r\<lparr>sv_status := ?sv\<lparr>sv_list := (sv_list ?sv)[nat ?curr := ?info], num_svs := cint (?curr + 1)\<rparr>\<rparr>"
  from 2(2) have c: "0 \<le> ?curr" "?curr \<le> int (length (sv_list ?sv))" "int (length (sv_list ?sv)) < INT_MAX"
    by (auto simp: reader_ok_def)
  show ?case
  proof (cases "?curr < no \<and> nat ?curr < length (sv_list ?sv)")
    case True
    have "in_int (?curr + 1)" using c by (simp add: in_int_def INT_MIN_def INT_MAX_def)
    then have "cint (?curr + 1) = ?curr + 1" by (rule cint_id)
    with 2(2) True have ok: "reader_ok ?r" by (auto simp: reader_ok_def)
    have e: "gsv_loop fp ts no (Suc n) r = gsv_loop fp ts no n ?r" using True c by (simp add: Let_def)
    from 2(1) [OF refl refl refl _ _ refl refl ok] True c show ?thesis unfolding e by auto
  next
    case False
    with c 2(2) show ?thesis by (auto simp: Let_def)
  qed
qed simp

lemma gsa_loop_after:
  assumes "same_buffers r q"
  shows "(\<exists>r'. gsa_loop ts is q = Inr r' \<and> same_buffers r r') \<or>
   gsa_loop ts is q = Inl BadShift \<and> (\<exists>i \<in> set is. 32 < str2int (tk_text (nmea_tokenizer_get ts i)))"
  using gsa_loop_cases [of ts "is" q] same_buffers_trans [OF assms] by blast

lemma parse_gsa_cases:
  assumes "tokens_ok ts"
  shows "(\<exists>r'. parse_gsa fp ts r = Inr r' \<and> same_buffers r r') \<or> parse_gsa fp ts r = Inl BadShift \<and>
      (\<exists>i \<in> {3..<15}. 32 < str2int (tk_text (nmea_tokenizer_get ts i)))"
proof -
  from tk_first_ok [OF assms, of 2] obtain st where st: "tk_first (nmea_tokenizer_get ts 2) = Inr st" by blast
  let ?r = "snd (nmea_reader_update_accuracy fp (nmea_tokenizer_get ts 15) r)"
  let ?r' = "?r\<lparr>sv_status := (sv_status ?r)\<lparr>used_in_fix_mask := 0\<rparr>\<rparr>"
  have "same_buffers ?r ?r'" by (simp add: same_buffers_def)
  with updates_keep_buffers(6) have b: "same_buffers r ?r'" by (rule same_buffers_trans)
  have e: "parse_gsa fp ts r = (if st \<noteq> NUL \<and> st \<noteq> CHR ''1'' then gsa_loop ts [3..<15] ?r' else Inr r)"
    unfolding parse_gsa_def st and_then.simps Let_def ..
  show ?thesis
  proof (cases "st \<noteq> NUL \<and> st \<noteq> CHR ''1''")
    case True
    then have g: "parse_gsa fp ts r = gsa_loop ts [3..<15] ?r'" unfolding e by (rule if_P)
    show ?thesis unfolding g set_upt [symmetric] by (rule gsa_loop_after [OF b])
  next
    case False
    then have "parse_gsa fp ts r = Inr r" unfolding e by (rule if_not_P)
    then show ?thesis by simp
  qed
qed

lemma parse_gsv_cases:
  assumes "reader_ok r"
  shows "(\<exists>r'. parse_gsv fp ts r = Inr r' \<and> reader_ok r' \<and> rd_in r' = rd_in r \<and> rd_pos r' = rd_pos r) \<or>
    parse_gsv fp ts r = Inl OutOfBounds \<and>
    int (length (sv_list (sv_status r))) < str2int (tk_text (nmea_tokenizer_get ts 3))"
proof -
  let ?no = "str2int (tk_text (nmea_tokenizer_get ts 3))"
  let ?r = "if str2int (tk_text (nmea_tokenizer_get ts 2)) = 1
    then r\<lparr>sv_status_changed := False, sv_status := (sv_status r)\<lparr>num_svs := 0\<rparr>\<rparr> else r"
  have ok: "reader_ok ?r" using assms by (auto simp: reader_ok_def)
  have fr: "rd_in ?r = rd_in r" "rd_pos ?r = rd_pos r"
    "sv_list (sv_status ?r) = sv_list (sv_status r)" by auto
  have changed: "reader_ok (x\<lparr>sv_status_changed := b\<rparr>) = reader_ok x" for x :: "'a NmeaReader" and b
    by (simp add: reader_ok_def)
  have e: "parse_gsv fp ts r = (if ?no > 0 then and_then (gsv_loop fp ts ?no 4 ?r) (\<lambda>r.
      Inr (if str2int (tk_text (nmea_tokenizer_get ts 2)) = str2int (tk_text (nmea_tokenizer_get ts 1))
           then r\<lparr>sv_status_changed := True\<rparr> else r)) else Inr r)"
    unfolding parse_gsv_def Let_def ..
  from gsv_loop_cases [OF ok, of fp ts ?no 4] show ?thesis
  proof (elim disjE exE conjE)
    fix r'
    assume g: "gsv_loop fp ts ?no 4 ?r = Inr r'" "reader_ok r'" "rd_in r' = rd_in ?r" "rd_pos r' = rd_pos ?r"
    show ?thesis unfolding e g(1) using g(2-4) assms unfolding fr by (simp add: changed)
  next
    assume g: "gsv_loop fp ts ?no 4 ?r = Inl OutOfBounds" "int (length (sv_list (sv_status ?r))) < ?no"
    show ?thesis unfolding e g(1) using g(2) assms unfolding fr by simp
  qed
qed

lemma parse_sentence_cases:
  assumes "tokens_ok ts" "reader_ok r"
  shows "(\<exists>r'. parse_sentence fp ts r = Inr r' \<and> reader_ok r' \<and> rd_in r' = rd_in r \<and> rd_pos r' = rd_pos r) \<or>
    parse_sentence fp ts r = Inl BadShift \<and> tk_sub (nmea_tokenizer_get ts 0) 2 5 = ''GSA'' \<and>
      (\<exists>i \<in> {3..<15}. 32 < str2int (tk_text (nmea_tokenizer_get ts i))) \<or>
    parse_sentence fp ts r = Inl OutOfBounds \<and> tk_sub (nmea_tokenizer_get ts 0) 2 5 = ''GSV'' \<and>
      int (length (sv_list (sv_status r))) < str2int (tk_text (nmea_tokenizer_get ts 3))"
proof -
  let ?sid = "tk_sub (nmea_tokenizer_get ts 0) 2 5"
  have keep: "\<exists>r'. m = Inr r' \<and> same_buffers r r' \<Longrightarrow>
      \<exists>r'. m = Inr r' \<and> reader_ok r' \<and> rd_in r' = rd_in r \<and> rd_pos r' = rd_pos r" for m :: "'a NmeaReader c_result"
    using same_buffers_ok assms(2) unfolding same_buffers_def by blast
  note simple = simple_sentences_keep [OF assms(1), THEN keep]
  consider "?sid = ''GSA''" | "?sid = ''GSV''" | "?sid \<noteq> ''GSA''" "?sid \<noteq> ''GSV''" by blast
  then show ?thesis
  proof cases
    case 1
    then have e: "parse_sentence fp ts r = parse_gsa fp ts r" by (simp add: parse_sentence_def)
    from parse_gsa_cases [OF assms(1), of fp r] show ?thesis
      unfolding e 1 using keep [of "parse_gsa fp ts r"] by blast
  next
    case 2
    then have e: "parse_sentence fp ts r = parse_gsv fp ts r" by (simp add: parse_sentence_def)
    from parse_gsv_cases [OF assms(2), of fp ts] show ?thesis unfolding e 2 by blast
  next
    case 3
    have "\<exists>r'. parse_sentence fp ts r = Inr r' \<and> reader_ok r' \<and> rd_in r' = rd_in r \<and> rd_pos r' = rd_pos r"
      unfolding parse_sentence_def Let_def using simple 3 assms(2) by simp
    then show ?thesis by blast
  qed
qed

lemma report_first_fix_buffers:
  "gs_reader (fst (report_first_fix s)) = gs_reader s \<or>
   gs_reader (fst (report_first_fix s)) =
     (gs_reader s)\<lparr>fix_loc := (fix_loc (gs_reader s))\<lparr>loc_flags := {}\<rparr>\<rparr>"
  by (simp add: report_first_fix_def Let_def)

lemma report_first_fix_ok:
  "reader_ok (gs_reader s) \<Longrightarrow> reader_ok (gs_reader (fst (report_first_fix s)))"
  using report_first_fix_buffers [of s] by (auto simp: reader_ok_def)

definition unsafe_sentence :: "c_fault \<Rightarrow> 'd NmeaReader \<Rightarrow> bool" where
  "unsafe_sentence f r \<longleftrightarrow>
     (let ts = sentence_tokens (rd_in r) (rd_pos r); sid = tk_sub (nmea_tokenizer_get ts 0) 2 5 in
      f = BadShift \<and> sid = ''GSA'' \<and> (\<exists>i \<in> {3..<15}. 32 < str2int (tk_text (nmea_tokenizer_get ts i))) \<or>
      f = OutOfBounds \<and> sid = ''GSV'' \<and>
        int (length (sv_list (sv_status r))) < str2int (tk_text (nmea_tokenizer_get ts 3)))"

lemma nmea_reader_parse_cases:
  assumes "length (rd_in (gs_reader s)) = NMEA_MAX_SIZE + 1" "rd_pos (gs_reader s) \<le> NMEA_MAX_SIZE"
    "reader_ok (gs_reader s)"
  shows "case nmea_reader_parse fp s of
      Inl f \<Rightarrow> unsafe_sentence f (gs_reader s)
    | Inr (s', _) \<Rightarrow> reader_ok (gs_reader s')"
proof -
  let ?r = "gs_reader s"
  let ?ts = "sentence_tokens (rd_in ?r) (rd_pos ?r)"
  have ok: "tokens_ok ?ts" using assms(1,2) by (intro tokenizer_ok) simp
  show ?thesis
  proof (cases "rd_pos ?r < 9 \<or> tk_len (nmea_tokenizer_get ?ts 0) < 5")
    case True
    with assms(3) show ?thesis by (auto simp: nmea_reader_parse_def nmea_tokenizer_init_stored Let_def)
  next
    case False
    have e: "nmea_reader_parse fp s = and_then (parse_sentence fp ?ts ?r)
        (\<lambda>r. Inr (report_first_fix (s\<lparr>gs_reader := r\<rparr>)))"
      using False by (simp add: nmea_reader_parse_def nmea_tokenizer_init_stored Let_def)
    from parse_sentence_cases [OF ok assms(3), of fp] show ?thesis
    proof (elim disjE exE conjE)
      fix r'
      assume "parse_sentence fp ?ts ?r = Inr r'" "reader_ok r'"
      with report_first_fix_ok [of "s\<lparr>gs_reader := r'\<rparr>"] show ?thesis by (simp add: e split_beta)
    qed (simp_all add: e unsafe_sentence_def Let_def)
  qed
qed

text \<open>The reader after a byte has been stored.\<close>

definition stored :: "char \<Rightarrow> 'd NmeaReader \<Rightarrow> 'd NmeaReader" where
  "stored c r = r\<lparr>rd_in := (rd_in r)[rd_pos r := c], rd_pos := rd_pos r + 1\<rparr>"

lemma addc_store:
  "\<not> rd_overflow (gs_reader s) \<Longrightarrow> reader_ok (gs_reader s) \<Longrightarrow> rd_pos (gs_reader s) < NMEA_MAX_SIZE \<Longrightarrow>
   nmea_reader_addc fp c s =
     (if c = CHR 0x0A
      then and_then (nmea_reader_parse fp (s\<lparr>gs_reader := stored c (gs_reader s)\<rparr>)) (\<lambda>(s, outs).
             Inr (s\<lparr>gs_reader := (gs_reader s)\<lparr>rd_pos := 0\<rparr>\<rparr>, outs))
      else Inr (s\<lparr>gs_reader := stored c (gs_reader s)\<rparr>, []))"
  by (simp add: nmea_reader_addc_def reader_ok_def stored_def Let_def)

text \<open>
  C17 (safety). Whatever byte comes from the receiver, the reader keeps its place in its buffer and in the
  array of satellites; it fails only at the end of a sentence, and only in two cases: a list of
  used satellites with a number above 32, which is shifted by a negative amount, and a list of
  visible satellites that announces more of them than the array holds.
\<close>

theorem nmea_byte_safe:
  assumes "reader_ok (gs_reader s)"
  shows "case nmea_reader_addc fp c s of
      Inl f \<Rightarrow> c = CHR 0x0A \<and> unsafe_sentence f (stored c (gs_reader s))
    | Inr (s', _) \<Rightarrow> reader_ok (gs_reader s')"
proof (cases "rd_overflow (gs_reader s) \<or> rd_pos (gs_reader s) \<ge> NMEA_MAX_SIZE")
  case True
  with assms show ?thesis by (auto simp: nmea_reader_addc_def Let_def reader_ok_def)
next
  case False
  let ?s = "s\<lparr>gs_reader := stored c (gs_reader s)\<rparr>"
  from False assms have ok: "reader_ok (gs_reader ?s)" by (simp add: reader_ok_def stored_def)
  then have b: "length (rd_in (gs_reader ?s)) = NMEA_MAX_SIZE + 1" "rd_pos (gs_reader ?s) \<le> NMEA_MAX_SIZE"
    by (simp_all add: reader_ok_def)
  from nmea_reader_parse_cases [OF b ok, of fp] False assms ok show ?thesis
    by (auto simp: addc_store reader_ok_def split: sum.splits)
qed

text \<open>For the witness: numbers are texts, and the operations keep the first argument.\<close>

definition text_fpu :: "string fpu" where
  "text_fpu = \<lparr>fp_strtod = (\<lambda>s. s), fp_lit = (\<lambda>s. s), fp_of_int = (\<lambda>i. ''int''), fp_to_int = (\<lambda>d. 0),
     fp_floor = (\<lambda>d. d), fp_neg = (\<lambda>d. CHR ''-'' # d), fp_add = (\<lambda>a b. a), fp_sub = (\<lambda>a b. a),
     fp_mul = (\<lambda>a b. a), fp_div = (\<lambda>a b. a), fp_eq = (\<lambda>a b. a = b), fp_single = (\<lambda>d. d)\<rparr>"

definition fresh_gps :: "run_state \<Rightarrow> string GpsState" where
  "fresh_gps st = \<lparr>gs_init = st, gs_fd = 3, location_cb = True, sv_status_cb = True, status_cb = True,
     control0 = 4, control1 = 5, fix_freq = 1, first_fix = False,
     gs_reader = nmea_reader_init text_fpu 32 0\<rparr>"

lemma reader_init_ok: "int m < INT_MAX \<Longrightarrow> reader_ok (nmea_reader_init fp m d)"
  by (simp add: reader_ok_def nmea_reader_init_def zero_svs_def Let_def)

lemma fresh_gps_reader:
  "gs_reader (fresh_gps st) = nmea_reader_init text_fpu 32 0" "reader_ok (gs_reader (fresh_gps st))"
  using reader_init_ok [of 32] by (simp_all add: fresh_gps_def INT_MAX_def)

theorem nmea_byte_safe_witness:
  "reader_ok (gs_reader (fresh_gps STATE_INIT)) \<and>
   (case nmea_reader_addc text_fpu (CHR ''$'') (fresh_gps STATE_INIT) of
      Inl f \<Rightarrow> CHR ''$'' = CHR 0x0A \<and> unsafe_sentence f (stored (CHR ''$'') (gs_reader (fresh_gps STATE_INIT)))
    | Inr (s', _) \<Rightarrow> reader_ok (gs_reader s'))"
  using nmea_byte_safe [OF fresh_gps_reader(2) [of STATE_INIT], where fp = text_fpu and c = "CHR ''$''"]
    fresh_gps_reader(2) by blast

section \<open>Sentences\<close>

lemma add_append:
  "nmea_reader_add fp (xs @ ys) s =
     and_then (nmea_reader_add fp xs s) (\<lambda>(s, outs).
     and_then (nmea_reader_add fp ys s) (\<lambda>(s, outs'). Inr (s, outs @ outs')))"
proof (induction xs arbitrary: s)
  case Nil
  then show ?case by (cases "nmea_reader_add fp ys s") auto
next
  case (Cons x xs)
  show ?case
  proof (cases "nmea_reader_addc fp x s")
    case (Inr p)
    then show ?thesis
      by (cases p) (simp add: Cons and_then_assoc split_beta)
  qed simp
qed

lemma add_text:
  "\<not> rd_overflow (gs_reader s) \<Longrightarrow> reader_ok (gs_reader s) \<Longrightarrow>
   rd_pos (gs_reader s) + length body \<le> NMEA_MAX_SIZE \<Longrightarrow> CHR 0x0A \<notin> set body \<Longrightarrow>
   nmea_reader_add fp body s = Inr (s\<lparr>gs_reader := (gs_reader s)
     \<lparr>rd_in := take (rd_pos (gs_reader s)) (rd_in (gs_reader s)) @ body @
        drop (rd_pos (gs_reader s) + length body) (rd_in (gs_reader s)),
      rd_pos := rd_pos (gs_reader s) + length body\<rparr>\<rparr>, [])"
proof (induction body arbitrary: s)
  case (Cons c body)
  let ?s = "s\<lparr>gs_reader := stored c (gs_reader s)\<rparr>"
  have a: "nmea_reader_addc fp c s = Inr (?s, [])" using Cons.prems by (auto simp: addc_store)
  have ok: "reader_ok (gs_reader ?s)" "\<not> rd_overflow (gs_reader ?s)"
    using Cons.prems by (simp_all add: reader_ok_def stored_def)
  have l: "rd_pos (gs_reader s) < length (rd_in (gs_reader s))" using Cons.prems by (simp add: reader_ok_def)
  have "nmea_reader_add fp body ?s = Inr (?s\<lparr>gs_reader := (gs_reader ?s)
     \<lparr>rd_in := take (rd_pos (gs_reader ?s)) (rd_in (gs_reader ?s)) @ body @
        drop (rd_pos (gs_reader ?s) + length body) (rd_in (gs_reader ?s)),
      rd_pos := rd_pos (gs_reader ?s) + length body\<rparr>\<rparr>, [])"
    using Cons.prems by (intro Cons.IH ok) (auto simp: stored_def)
  with a l show ?case by (simp add: stored_def take_Suc_conv_app_nth)
qed (simp add: reader_ok_def)

text \<open>
  C18 (refinement). A line of up to 82 characters, sent byte by byte to a reader between two sentences, is
  parsed exactly once, as a whole: the effect is that of the parser on a buffer with the line, and
  the reader is between two sentences again.
\<close>

theorem nmea_line_parsed_once:
  assumes "reader_ok (gs_reader s)" "\<not> rd_overflow (gs_reader s)" "rd_pos (gs_reader s) = 0"
    and "length line < NMEA_MAX_SIZE" "CHR 0x0A \<notin> set line"
  shows "nmea_reader_add fp (line @ [CHR 0x0A]) s =
    and_then (nmea_reader_parse fp (s\<lparr>gs_reader := (gs_reader s)
        \<lparr>rd_in := line @ [CHR 0x0A] @ drop (Suc (length line)) (rd_in (gs_reader s)),
         rd_pos := Suc (length line)\<rparr>\<rparr>))
      (\<lambda>(s, outs). Inr (s\<lparr>gs_reader := (gs_reader s)\<lparr>rd_pos := 0\<rparr>\<rparr>, outs))"
proof -
  let ?r = "(gs_reader s)\<lparr>rd_in := line @ drop (length line) (rd_in (gs_reader s)), rd_pos := length line\<rparr>"
  let ?s = "s\<lparr>gs_reader := ?r\<rparr>"
  have t: "nmea_reader_add fp line s = Inr (?s, [])"
    using add_text [OF assms(2,1) _ assms(5)] assms(3,4) by simp
  have len: "length (rd_in (gs_reader s)) = NMEA_MAX_SIZE + 1" using assms(1) by (simp add: reader_ok_def)
  have ok: "reader_ok ?r" using assms(1,4) by (simp add: reader_ok_def)
  have "drop (length line) (rd_in (gs_reader s)) =
      rd_in (gs_reader s) ! length line # drop (Suc (length line)) (rd_in (gs_reader s))"
    using assms(4) len by (simp add: Cons_nth_drop_Suc)
  then have st: "stored (CHR 0x0A) ?r = (gs_reader s)
      \<lparr>rd_in := line @ [CHR 0x0A] @ drop (Suc (length line)) (rd_in (gs_reader s)), rd_pos := Suc (length line)\<rparr>"
    by (simp add: stored_def)
  have c: "nmea_reader_addc fp (CHR 0x0A) ?s = and_then (nmea_reader_parse fp (?s\<lparr>gs_reader := stored (CHR 0x0A) ?r\<rparr>))
      (\<lambda>(s, outs). Inr (s\<lparr>gs_reader := (gs_reader s)\<lparr>rd_pos := 0\<rparr>\<rparr>, outs))"
    using addc_store [of ?s fp "CHR 0x0A"] ok assms(2,4) by simp
  have one: "and_then m (\<lambda>(s, outs). and_then (and_then (Inr (s, outs)) f) g) = and_then (and_then m f) g"
    for m :: "('a GpsState \<times> 'a gps_out list) c_result" and f :: "_ \<Rightarrow> ('a GpsState \<times> 'a gps_out list) c_result"
      and g :: "_ \<Rightarrow> ('a GpsState \<times> 'a gps_out list) c_result"
    by (cases m) auto
  have "nmea_reader_add fp (line @ [CHR 0x0A]) s = nmea_reader_addc fp (CHR 0x0A) ?s"
    unfolding add_append t by (cases "nmea_reader_addc fp (CHR 0x0A) ?s") auto
  then show ?thesis unfolding c st by simp
qed

theorem nmea_line_parsed_once_witness:
  "nmea_reader_add text_fpu (''$GPXXX,1'' @ [CHR 0x0A]) (fresh_gps STATE_INIT) =
    and_then (nmea_reader_parse text_fpu ((fresh_gps STATE_INIT)\<lparr>gs_reader := (gs_reader (fresh_gps STATE_INIT))
        \<lparr>rd_in := ''$GPXXX,1'' @ [CHR 0x0A] @
           drop (Suc (length ''$GPXXX,1'')) (rd_in (gs_reader (fresh_gps STATE_INIT))),
         rd_pos := Suc (length ''$GPXXX,1'')\<rparr>\<rparr>))
      (\<lambda>(s, outs). Inr (s\<lparr>gs_reader := (gs_reader s)\<lparr>rd_pos := 0\<rparr>\<rparr>, outs))"
proof -
  have f: "\<not> rd_overflow (gs_reader (fresh_gps STATE_INIT))" "rd_pos (gs_reader (fresh_gps STATE_INIT)) = 0"
    unfolding fresh_gps_reader by (simp_all add: nmea_reader_init_def)
  show ?thesis
    by (rule nmea_line_parsed_once [OF fresh_gps_reader(2) f]) (simp_all add: NMEA_MAX_SIZE_def)
qed

text \<open>A line that does not fit: the overflow flag swallows it up to its end.\<close>

lemma add_overflow:
  "rd_overflow (gs_reader s) \<Longrightarrow> CHR 0x0A \<notin> set body \<Longrightarrow> nmea_reader_add fp body s = Inr (s, [])"
proof (induction body arbitrary: s)
  case (Cons c body)
  have "nmea_reader_addc fp c s = Inr (s, [])"
    using Cons.prems by (cases s; cases "gs_reader s") (auto simp: nmea_reader_addc_def Let_def)
  with Cons show ?case by simp
qed simp

text \<open>
  A line of 83 characters or more before its end is dropped without being parsed. With more
  than 83 the reader is ready for the next line; with exactly 83 the character that finds the
  buffer full is the line feed itself, and the reader goes on skipping, so that the next line is
  lost as well.
\<close>

theorem nmea_long_line_dropped:
  assumes "reader_ok (gs_reader s)" "\<not> rd_overflow (gs_reader s)" "rd_pos (gs_reader s) = 0"
    and "NMEA_MAX_SIZE \<le> length line" "CHR 0x0A \<notin> set line"
  shows "\<exists>s'. nmea_reader_add fp (line @ [CHR 0x0A]) s = Inr (s', []) \<and>
    rd_overflow (gs_reader s') = (length line = NMEA_MAX_SIZE) \<and> rd_pos (gs_reader s') = 0 \<and>
    fix_loc (gs_reader s') = fix_loc (gs_reader s) \<and> sv_status (gs_reader s') = sv_status (gs_reader s)"
proof -
  let ?a = "take NMEA_MAX_SIZE line" and ?b = "drop NMEA_MAX_SIZE line"
  let ?r = "(gs_reader s)\<lparr>rd_in := ?a @ drop (length ?a) (rd_in (gs_reader s)), rd_pos := NMEA_MAX_SIZE\<rparr>"
  let ?s = "s\<lparr>gs_reader := ?r\<rparr>"
  let ?o = "s\<lparr>gs_reader := ?r\<lparr>rd_overflow := True, rd_pos := 0\<rparr>\<rparr>"
  have la: "length ?a = NMEA_MAX_SIZE" using assms(4) by simp
  have "CHR 0x0A \<notin> set ?a" "CHR 0x0A \<notin> set ?b"
    using assms(5) in_set_takeD [of _ NMEA_MAX_SIZE line] in_set_dropD [of _ NMEA_MAX_SIZE line] by blast+
  note nl = this
  have t: "nmea_reader_add fp ?a s = Inr (?s, [])"
    using add_text [OF assms(2,1) _ nl(1)] assms(3) la by simp
  have len: "length (rd_in ?r) = NMEA_MAX_SIZE + 1" using assms(1) la by (simp add: reader_ok_def)
  have full: "nmea_reader_addc fp c ?s = Inr (?o, [])" for c
    using assms(2) len by (simp add: nmea_reader_addc_def Let_def)
  have split: "line @ [CHR 0x0A] = ?a @ (?b @ [CHR 0x0A])" by simp
  show ?thesis
  proof (cases ?b)
    case Nil
    then have "length line = NMEA_MAX_SIZE" using assms(4) by simp
    with Nil t full show ?thesis unfolding split add_append by simp
  next
    case (Cons c b)
    then have "length line \<noteq> NMEA_MAX_SIZE" by auto
    moreover have "nmea_reader_add fp b ?o = Inr (?o, [])"
      using nl(2) Cons by (intro add_overflow) auto
    moreover have "nmea_reader_addc fp (CHR 0x0A) ?o = Inr (s\<lparr>gs_reader := ?r\<lparr>rd_overflow := False, rd_pos := 0\<rparr>\<rparr>, [])"
      by (simp add: nmea_reader_addc_def Let_def)
    ultimately show ?thesis
      unfolding split add_append t using Cons full [of c] by (simp add: add_append)
  qed
qed

theorem nmea_long_line_dropped_witness:
  "\<exists>s'. nmea_reader_add text_fpu (replicate 83 (CHR ''x'') @ [CHR 0x0A]) (fresh_gps STATE_INIT) = Inr (s', []) \<and>
    rd_overflow (gs_reader s')"
proof -
  have f: "\<not> rd_overflow (gs_reader (fresh_gps STATE_INIT))" "rd_pos (gs_reader (fresh_gps STATE_INIT)) = 0"
    unfolding fresh_gps_reader by (simp_all add: nmea_reader_init_def)
  from nmea_long_line_dropped [OF fresh_gps_reader(2) f, of "replicate 83 (CHR ''x'')" text_fpu]
  show ?thesis by (auto simp: NMEA_MAX_SIZE_def)
qed

section \<open>What the sentences mean\<close>

text \<open>The time stamp of a fix.\<close>

lemma two_digits_length [simp]: "length (two_digits n) = 2"
  by (simp add: two_digits_def)

lemma tk_sub_digits:
  assumes "tk_p t = two_digits a @ two_digits b @ two_digits c @ rest"
  shows "tk_sub t 0 2 = two_digits a" "tk_sub t 2 4 = two_digits b" "tk_sub t 4 6 = two_digits c"
  using assms by (simp_all add: tk_sub_def two_digits_def)

lemma update_time_digits:
  assumes "tk_p t = two_digits h @ two_digits mi @ two_digits sc @ rest" "6 \<le> tk_len t"
    and "h < 100" "mi < 100" "sc < 100" "k \<le> 30000" "m < 12"
    and "utc_year r = int k + 1970" "utc_mon r = int m + 1" "utc_day r = d"
  shows "nmea_reader_update_time t r = (0, r\<lparr>fix_loc := (fix_loc r)\<lparr>timestamp :=
    cint (epoch_seconds k m d (int h) (int mi) (int sc)) * 1000 + milliseconds t\<rparr>\<rparr>)"
proof -
  have y: "int k + 1970 - 1900 = int k + 70" "int m + 1 - 1 = int m" by simp_all
  show ?thesis
    unfolding nmea_reader_update_time_def Let_def tk_sub_digits [OF assms(1)] assms(8-10) y
    using assms(2-7) by (simp add: str2int_two_digits mkgmtime_calendar)
qed

lemma updates_keep_timestamp [simp]:
  "timestamp (fix_loc (snd (nmea_reader_update_latlong fp t a u b r))) = timestamp (fix_loc r)"
  "timestamp (fix_loc (snd (nmea_reader_update_bearing fp t r))) = timestamp (fix_loc r)"
  "timestamp (fix_loc (snd (nmea_reader_update_speed fp t r))) = timestamp (fix_loc r)"
  by (simp_all add: nmea_reader_update_latlong_def nmea_reader_update_bearing_def
      nmea_reader_update_speed_def Let_def)

text \<open>
  C25 (functional). A valid RMC sentence dated ddmmyy hhmmss gives the fix the time stamp of that moment in
  the Gregorian calendar, in milliseconds since 1970, the year counted from 2000 and the seconds
  taken modulo the width of \<^verbatim>\<open>time_t\<close>.
\<close>

theorem rmc_timestamp:
  assumes "tokens_ok ts" "tk_first (nmea_tokenizer_get ts 2) = Inr (CHR ''A'')"
    and "nmea_tokenizer_get ts 9 = \<lparr>tk_p = two_digits d @ two_digits m @ two_digits y @ after, tk_len = 6\<rparr>"
    and "nmea_tokenizer_get ts 1 = \<lparr>tk_p = two_digits h @ two_digits mi @ two_digits sc @ rest, tk_len = 6 + n\<rparr>"
    and "d < 100" "1 \<le> m" "m \<le> 12" "y < 100" "h < 100" "mi < 100" "sc < 100"
  shows "\<exists>r'. parse_rmc fp ts r = Inr r' \<and> timestamp (fix_loc r') =
    cint (epoch_seconds (30 + y) (m - 1) (int d) (int h) (int mi) (int sc)) * 1000 +
    milliseconds (nmea_tokenizer_get ts 1)"
proof -
  let ?d = "nmea_tokenizer_get ts 9" and ?t = "nmea_tokenizer_get ts 1"
  let ?r = "r\<lparr>utc_year := int y + 2000, utc_mon := int m, utc_day := int d\<rparr>"
  have dp: "tk_p ?d = two_digits d @ two_digits m @ two_digits y @ after" "tk_len ?d = 6" using assms(3) by simp_all
  have tp: "tk_p ?t = two_digits h @ two_digits mi @ two_digits sc @ rest" "6 \<le> tk_len ?t" using assms(4) by simp_all
  have "nmea_reader_update_date ?d ?t r = nmea_reader_update_time ?t ?r"
    unfolding nmea_reader_update_date_def Let_def tk_sub_digits [OF dp(1)] dp(2)
    using assms(5-8) by (simp add: str2int_two_digits)
  also have "\<dots> = (0, ?r\<lparr>fix_loc := (fix_loc ?r)\<lparr>timestamp :=
      cint (epoch_seconds (30 + y) (m - 1) (int d) (int h) (int mi) (int sc)) * 1000 + milliseconds ?t\<rparr>\<rparr>)"
    by (rule update_time_digits [OF tp]) (use assms in auto)
  finally have u: "timestamp (fix_loc (snd (nmea_reader_update_date ?d ?t r))) =
      cint (epoch_seconds (30 + y) (m - 1) (int d) (int h) (int mi) (int sc)) * 1000 + milliseconds ?t" by simp
  obtain a b where "tk_first (nmea_tokenizer_get ts 4) = Inr a" "tk_first (nmea_tokenizer_get ts 6) = Inr b"
    using tk_first_ok [OF assms(1)] by blast
  with assms(2) u show ?thesis by (simp add: parse_rmc_def Let_def)
qed

definition rmc_example :: "Token list" where
  "rmc_example = map (\<lambda>s. \<lparr>tk_p = s @ '','', tk_len = length s\<rparr>)
     [''GPRMC'', two_digits 12 @ two_digits 35 @ two_digits 19, ''A'', ''4807.038'', ''N'', ''01131.000'', ''E'',
      ''022.4'', ''084.4'', two_digits 23 @ two_digits 3 @ two_digits 11]"

theorem rmc_timestamp_witness:
  "\<exists>r'. parse_rmc text_fpu rmc_example (gs_reader (fresh_gps STATE_INIT)) = Inr r' \<and> timestamp (fix_loc r') =
    cint (epoch_seconds (30 + 11) (3 - 1) (int 23) (int 12) (int 35) (int 19)) * 1000 +
    milliseconds (nmea_tokenizer_get rmc_example 1)"
  by (rule rmc_timestamp [where after = "'',''" and rest = "'',''" and n = 0])
    (simp_all add: rmc_example_def nmea_tokenizer_get_def tokens_ok_def tk_first_def)

text \<open>The satellites in use.\<close>

lemma gsa_loop_mask:
  assumes "\<forall>i \<in> set is. str2int (tk_text (nmea_tokenizer_get ts i)) \<le> 32"
  shows "\<exists>r'. gsa_loop ts is r = Inr r' \<and> (\<forall>b < 32. bit (used_in_fix_mask (sv_status r')) b \<longleftrightarrow>
    bit (used_in_fix_mask (sv_status r)) b \<or>
    (\<exists>i \<in> set is. str2int (tk_text (nmea_tokenizer_get ts i)) = 32 - int b))"
  using assms
proof (induction "is" arbitrary: r)
  case (Cons i "is")
  let ?p = "str2int (tk_text (nmea_tokenizer_get ts i))"
  show ?case
  proof (cases "?p > 0")
    case False
    with Cons.IH [of r] Cons.prems show ?thesis by (fastforce simp: Let_def)
  next
    case True
    let ?m = "used_in_fix_mask (sv_status r) OR push_bit (nat (32 - ?p)) 1"
    let ?r = "r\<lparr>sv_status := (sv_status r)\<lparr>used_in_fix_mask := ?m\<rparr>, sv_status_changed := True\<rparr>"
    have bit: "bit ?m b \<longleftrightarrow> bit (used_in_fix_mask (sv_status r)) b \<or> ?p = 32 - int b" if "b < 32" for b
      using that True Cons.prems by (auto simp: bit_simps)
    have "gsa_loop ts (i # is) r = gsa_loop ts is ?r"
      using True Cons.prems by (simp add: mark_used_def Let_def)
    with Cons.IH [of ?r] Cons.prems bit show ?thesis by fastforce
  qed
qed simp

text \<open>
  A GSA sentence of a fix sets the mask of used satellites to exactly the satellites it
  lists: number p as bit 32 - p, whatever the mask was before.
\<close>

theorem gsa_used_mask:
  assumes "tk_first (nmea_tokenizer_get ts 2) = Inr st" "st \<noteq> NUL" "st \<noteq> CHR ''1''"
    and "\<forall>i \<in> {3..<15}. str2int (tk_text (nmea_tokenizer_get ts i)) \<le> 32"
  shows "\<exists>r'. parse_gsa fp ts r = Inr r' \<and> (\<forall>b < 32. bit (used_in_fix_mask (sv_status r')) b \<longleftrightarrow>
    (\<exists>i \<in> {3..<15}. str2int (tk_text (nmea_tokenizer_get ts i)) = 32 - int b))"
proof -
  let ?r = "snd (nmea_reader_update_accuracy fp (nmea_tokenizer_get ts 15) r)"
  let ?r' = "?r\<lparr>sv_status := (sv_status ?r)\<lparr>used_in_fix_mask := 0\<rparr>\<rparr>"
  have e: "parse_gsa fp ts r = gsa_loop ts [3..<15] ?r'"
    unfolding parse_gsa_def assms(1) and_then.simps Let_def using assms(2,3) by (simp del: upt_rec_numeral)
  have "used_in_fix_mask (sv_status ?r') = 0" by simp
  with gsa_loop_mask [of "[3..<15]" ts ?r'] assms(4) show ?thesis
    unfolding e set_upt by simp
qed

definition gsa_example :: "Token list" where
  "gsa_example = map (\<lambda>s. \<lparr>tk_p = s @ '','', tk_len = length s\<rparr>) [''GPGSA'', ''A'', ''3'', ''04'', ''32'']"

theorem gsa_used_mask_witness:
  "\<exists>r'. parse_gsa text_fpu gsa_example (gs_reader (fresh_gps STATE_INIT)) = Inr r' \<and>
    bit (used_in_fix_mask (sv_status r')) 28"
proof -
  have f: "str2int (tk_text (nmea_tokenizer_get gsa_example i)) \<le> 32" if "i \<in> {3..<15}" for i
  proof -
    have "i = 3 \<or> i = 4 \<or> 5 \<le> i" using that by auto
    then show ?thesis
      by (auto simp: gsa_example_def nmea_tokenizer_get_def tk_text_def str2int_def isdigit_def chr_code_def cint_def)
  qed
  have p: "str2int (tk_text (nmea_tokenizer_get gsa_example 3)) = 4"
    by (simp add: gsa_example_def nmea_tokenizer_get_def tk_text_def str2int_def isdigit_def chr_code_def cint_def)
  have "tk_first (nmea_tokenizer_get gsa_example 2) = Inr (CHR ''3'')"
    by (simp add: gsa_example_def nmea_tokenizer_get_def tk_first_def)
  from gsa_used_mask [OF this, of text_fpu "gs_reader (fresh_gps STATE_INIT)"] f p show ?thesis
    by (fastforce simp: NUL_def)
qed

text \<open>The visible satellites: group \<open>i\<close> of a sentence, and how many of the four groups it uses.\<close>

definition gsv_entry :: "'d fpu \<Rightarrow> Token list \<Rightarrow> nat \<Rightarrow> 'd GpsSvInfo" where
  "gsv_entry fp ts i = (let num = (\<lambda>j. str2float fp (tk_text (nmea_tokenizer_get ts (i * 4 + j)))) in
     \<lparr>prn = str2int (tk_text (nmea_tokenizer_get ts (i * 4 + 4))), snr = fp_single fp (num 7),
      elevation = fp_single fp (num 5), azimuth = fp_single fp (num 6)\<rparr>)"

definition gsv_start :: "Token list \<Rightarrow> 'd NmeaReader \<Rightarrow> nat" where
  "gsv_start ts r = (if str2int (tk_text (nmea_tokenizer_get ts 2)) = 1 then 0 else nat (num_svs (sv_status r)))"

definition gsv_count :: "Token list \<Rightarrow> 'd NmeaReader \<Rightarrow> nat" where
  "gsv_count ts r = min 4 (nat (str2int (tk_text (nmea_tokenizer_get ts 3)) - int (gsv_start ts r)))"

lemma gsv_loop_step:
  assumes "num_svs (sv_status r) = int c" "c < length (sv_list (sv_status r))" "int c < no"
    "int (length (sv_list (sv_status r))) < INT_MAX"
  shows "gsv_loop fp ts no (Suc n) r = gsv_loop fp ts no n (r\<lparr>sv_status := (sv_status r)
    \<lparr>sv_list := (sv_list (sv_status r))[c := gsv_entry fp ts (3 - n)], num_svs := int (Suc c)\<rparr>\<rparr>)"
proof -
  have "in_int (int c + 1)" using assms(2,4) by (simp add: in_int_def INT_MIN_def INT_MAX_def)
  then have "cint (int c + 1) = int (Suc c)" by (simp add: cint_id)
  with assms show ?thesis by (simp add: Let_def gsv_entry_def)
qed

lemma gsv_loop_records:
  "n \<le> 4 \<Longrightarrow> num_svs (sv_status r) = int c \<Longrightarrow> int (length (sv_list (sv_status r))) < INT_MAX \<Longrightarrow>
   m = min n (nat (no - int c)) \<Longrightarrow> c + m \<le> length (sv_list (sv_status r)) \<Longrightarrow>
   gsv_loop fp ts no n r = Inr (r\<lparr>sv_status := (sv_status r)
     \<lparr>sv_list := take c (sv_list (sv_status r)) @ map (gsv_entry fp ts) [4 - n..<4 - n + m] @
        drop (c + m) (sv_list (sv_status r)), num_svs := int (c + m)\<rparr>\<rparr>)"
proof (induction n arbitrary: r c m)
  case (Suc n)
  let ?l = "sv_list (sv_status r)"
  show ?case
  proof (cases "int c < no")
    case False
    with Suc.prems show ?thesis by (simp add: Let_def)
  next
    case True
    define k where "k = min n (nat (no - int (Suc c)))"
    have "nat (no - int c) = Suc (nat (no - int (Suc c)))" using True by simp
    then have "m = Suc k" using Suc.prems(4) by (simp add: k_def)
    with Suc.prems(5) k_def have k: "m = Suc k" "k = min n (nat (no - int (Suc c)))" "c < length ?l" by auto
    let ?r = "r\<lparr>sv_status := (sv_status r)\<lparr>sv_list := ?l[c := gsv_entry fp ts (3 - n)], num_svs := int (Suc c)\<rparr>\<rparr>"
    have IH: "gsv_loop fp ts no n ?r = Inr (?r\<lparr>sv_status := (sv_status ?r)
     \<lparr>sv_list := take (Suc c) (sv_list (sv_status ?r)) @ map (gsv_entry fp ts) [4 - n..<4 - n + k] @
        drop (Suc c + k) (sv_list (sv_status ?r)), num_svs := int (Suc c + k)\<rparr>\<rparr>)"
      by (rule Suc.IH) (use Suc.prems k in auto)
    have n: "4 - n = Suc (3 - n)" "4 - Suc n = 3 - n" using Suc.prems(1) by auto
    have u: "[3 - n..<3 - n + Suc k] = (3 - n) # [Suc (3 - n)..<Suc (3 - n) + k]" by (simp add: upt_rec)
    show ?thesis unfolding gsv_loop_step [OF Suc.prems(2) k(3) True Suc.prems(3)] IH k(1) n u
      using k(3) by (simp add: take_Suc_conv_app_nth)
  qed
qed simp

lemma gsv_loop_overflows:
  "num_svs (sv_status r) = int c \<Longrightarrow> int (length (sv_list (sv_status r))) < INT_MAX \<Longrightarrow>
   c \<le> length (sv_list (sv_status r)) \<Longrightarrow> length (sv_list (sv_status r)) < c + min n (nat (no - int c)) \<Longrightarrow>
   gsv_loop fp ts no n r = Inl OutOfBounds"
proof (induction n arbitrary: r c)
  case (Suc n)
  then have "int c < no" by auto
  then have step: "nat (no - int c) = Suc (nat (no - int (Suc c)))" by simp
  show ?case
  proof (cases "c < length (sv_list (sv_status r))")
    case True
    show ?thesis unfolding gsv_loop_step [OF Suc.prems(1) True \<open>int c < no\<close> Suc.prems(2)]
      by (rule Suc.IH [of _ "Suc c"]) (use Suc.prems True step in auto)
  next
    case False
    with Suc.prems(1) \<open>int c < no\<close> show ?thesis by (simp add: Let_def)
  qed
qed simp

text \<open>
  C26 (functional). A GSV sentence writes one entry for each of its satellites behind those of the earlier
  sentences of its group (the first sentence of a group starts over) and counts them; it leaves
  the other entries alone. When the array is too short for them the write runs past its end.
\<close>

theorem gsv_satellites:
  assumes "reader_ok r" "0 < str2int (tk_text (nmea_tokenizer_get ts 3))"
  shows "if gsv_start ts r + gsv_count ts r \<le> length (sv_list (sv_status r))
    then \<exists>r'. parse_gsv fp ts r = Inr r' \<and>
      num_svs (sv_status r') = int (gsv_start ts r + gsv_count ts r) \<and>
      sv_list (sv_status r') = take (gsv_start ts r) (sv_list (sv_status r)) @
        map (gsv_entry fp ts) [0..<gsv_count ts r] @
        drop (gsv_start ts r + gsv_count ts r) (sv_list (sv_status r))
    else parse_gsv fp ts r = Inl OutOfBounds"
proof -
  let ?no = "str2int (tk_text (nmea_tokenizer_get ts 3))" and ?l = "sv_list (sv_status r)"
  let ?r = "if str2int (tk_text (nmea_tokenizer_get ts 2)) = 1
    then r\<lparr>sv_status_changed := False, sv_status := (sv_status r)\<lparr>num_svs := 0\<rparr>\<rparr> else r"
  have e: "parse_gsv fp ts r = and_then (gsv_loop fp ts ?no 4 ?r) (\<lambda>r.
      Inr (if str2int (tk_text (nmea_tokenizer_get ts 2)) = str2int (tk_text (nmea_tokenizer_get ts 1))
           then r\<lparr>sv_status_changed := True\<rparr> else r))"
    using assms(2) by (simp add: parse_gsv_def Let_def)
  have c: "num_svs (sv_status ?r) = int (gsv_start ts r)" and l: "sv_list (sv_status ?r) = ?l"
    and b: "gsv_start ts r \<le> length ?l" "int (length ?l) < INT_MAX"
    using assms(1) by (auto simp: gsv_start_def reader_ok_def)
  show ?thesis
  proof (cases "gsv_start ts r + gsv_count ts r \<le> length ?l")
    case True
    with gsv_loop_records [OF order_refl c, of "gsv_count ts r" ?no fp ts] b(2) show ?thesis
      unfolding e l gsv_count_def by simp
  next
    case False
    with gsv_loop_overflows [OF c, of 4 ?no fp ts] b show ?thesis
      unfolding e l gsv_count_def by simp
  qed
qed

definition gsv_example :: "Token list" where
  "gsv_example = map (\<lambda>s. \<lparr>tk_p = s @ '','', tk_len = length s\<rparr>)
     [''GPGSV'', ''1'', ''1'', ''2'', ''07'', ''79'', ''048'', ''42'', ''02'', ''51'', ''062'', ''43'']"

theorem gsv_satellites_witness:
  "\<exists>r'. parse_gsv text_fpu gsv_example (nmea_reader_init text_fpu 4 0) = Inr r' \<and> num_svs (sv_status r') = 2"
proof -
  have n: "str2int (tk_text (nmea_tokenizer_get gsv_example 3)) = 2" "str2int (tk_text (nmea_tokenizer_get gsv_example 2)) = 1"
    by (simp_all add: gsv_example_def nmea_tokenizer_get_def tk_text_def str2int_def isdigit_def chr_code_def cint_def)
  then have c: "gsv_start gsv_example (nmea_reader_init text_fpu 4 0) = 0"
    "gsv_count gsv_example (nmea_reader_init text_fpu 4 0) = 2"
    by (simp_all add: gsv_start_def gsv_count_def)
  have l: "length (sv_list (sv_status (nmea_reader_init text_fpu 4 0))) = 4"
    by (simp add: nmea_reader_init_def zero_svs_def Let_def)
  have "reader_ok (nmea_reader_init text_fpu 4 0)" by (rule reader_init_ok) (simp add: INT_MAX_def)
  from gsv_satellites [OF this, of gsv_example text_fpu] n(1) show ?thesis unfolding c l by auto
qed

end
