(* ===== verification/GpsDevice.thy ===== *)
theory GpsDevice
  imports GpsReader AtChannel
begin

text \<open>
  \<^verbatim>\<open>gps/freerunner/gps_freerunner.c\<close>, last part: the control of the receiver. The power
  switch is a file of the kernel; the configuration goes over the same port the sentences come
  from. What the operating system answers to \<^verbatim>\<open>open\<close> and \<^verbatim>\<open>write\<close> is a script, as in
  the model of the AT channel; an exhausted script accepts everything.
\<close>

section \<open>Power\<close>

datatype op_event = OpFd | OpEINTR | OpError

text \<open>\<^verbatim>\<open>do open while interrupted\<close>\<close>

fun open_fd :: "op_event list \<Rightarrow> bool \<times> op_event list" where
  "open_fd [] = (True, [])"
| "open_fd (OpEINTR # os) = open_fd os"
| "open_fd (OpError # os) = (False, os)"
| "open_fd (OpFd # os) = (True, os)"

record gps_dev =
  dv_power_if :: string          \<comment> \<open>what \<^verbatim>\<open>property_get\<close> stores for gps.power_on\<close>
  dv_open :: "op_event list"
  dv_power_wr :: "wr_event list"
  dv_power :: string             \<comment> \<open>the bytes the power switch has accepted\<close>
  dv_wr :: "wr_event list"
  dv_wire :: string              \<comment> \<open>the bytes the port has accepted\<close>

definition gps_dev_power :: "bool \<Rightarrow> gps_dev \<Rightarrow> gps_dev" where
  "gps_dev_power state d =
     (if dv_power_if d = [] then d
      else case open_fd (dv_open d) of (ok, os) \<Rightarrow>
        if \<not> ok then d\<lparr>dv_open := os\<rparr>
        else case write_fd 1 (dv_power_wr d) of (ret, ws) \<Rightarrow>
          d\<lparr>dv_open := os, dv_power_wr := ws,
            dv_power := dv_power d @ take (nat ret) [if state then CHR ''1'' else CHR ''0'']\<rparr>)"

section \<open>Messages to the receiver\<close>

text \<open>
  The loop of \<^verbatim>\<open>gps_dev_send\<close>, with \<open>n\<close> bytes sent so far. The result of a failed
  \<^verbatim>\<open>write\<close> is added to \<open>n\<close> like any other, and a negative \<open>n\<close> makes the next one
  read in front of the message.
\<close>

fun send_loop :: "string \<Rightarrow> int \<Rightarrow> wr_event list \<Rightarrow> (string \<times> wr_event list) c_result" where
  "send_loop msg n [] = (if n < 0 then Inl OutOfBounds else Inr (drop (nat n) msg, []))"
| "send_loop msg n (w # ws) =
     (if n < 0 then Inl OutOfBounds
      else
        let i = int (length msg);
            (ret, sent) = (case w of
                WrEINTR \<Rightarrow> (0, [])
              | WrError \<Rightarrow> (-1, [])
              | WrCount k \<Rightarrow> (let m = min k (nat (i - n)) in (int m, take m (drop (nat n) msg))));
            n' = n + ret
        in if n' < i
           then and_then (send_loop msg n' ws) (\<lambda>(rest, ws). Inr (sent @ rest, ws))
           else Inr (sent, ws))"

definition gps_dev_send :: "string \<Rightarrow> gps_dev \<Rightarrow> gps_dev c_result" where
  "gps_dev_send msg d =
     and_then (send_loop msg 0 (dv_wr d)) (\<lambda>(sent, ws). Inr (d\<lparr>dv_wire := dv_wire d @ sent, dv_wr := ws\<rparr>))"

text \<open>The checksum; the array is read up to the first asterisk.\<close>

fun csum_loop :: "char list \<Rightarrow> 8 word \<Rightarrow> 8 word c_result" where
  "csum_loop [] csum = Inl OutOfBounds"
| "csum_loop (c # cs) csum = (if c = CHR ''*'' then Inr csum else csum_loop cs (csum XOR of_char c))"

definition gps_dev_calc_nmea_csum :: "char list \<Rightarrow> 8 word c_result" where
  "gps_dev_calc_nmea_csum msg = csum_loop (tl msg) 0"

text \<open>\<^verbatim>\<open>sprintf\<close> to an array with \<open>room\<close> bytes left, and the conversion \<^verbatim>\<open>%02x\<close>.\<close>

definition sprintf_to :: "nat \<Rightarrow> string \<Rightarrow> string c_result" where
  "sprintf_to room s = (if length s < room then Inr s else Inl OutOfBounds)"

definition hex2 :: "8 word \<Rightarrow> string" where
  "hex2 w = [digit_char (unat w div 16), digit_char (unat w mod 16)]"

text \<open>The common end of both messages: checksum, line end, sending.\<close>

definition BUFF_SIZE :: nat where "BUFF_SIZE = 50"

definition send_frame :: "string \<Rightarrow> gps_dev \<Rightarrow> gps_dev c_result" where
  "send_frame body d =
     and_then (sprintf_to BUFF_SIZE body) (\<lambda>buff.
     and_then (gps_dev_calc_nmea_csum (buff @ replicate (BUFF_SIZE - length buff) NUL)) (\<lambda>csum.
     and_then (sprintf_to (BUFF_SIZE - length buff) (hex2 csum @ [CHR 0x0D, CHR 0x0A])) (\<lambda>tail.
       gps_dev_send (buff @ tail) d)))"

definition gps_dev_set_nmea_message_rate :: "string \<Rightarrow> int \<Rightarrow> gps_dev \<Rightarrow> gps_dev c_result" where
  "gps_dev_set_nmea_message_rate msg rate d =
     send_frame (''$PUBX,40,'' @ msg @ '','' @ show_d rate @ '','' @ show_d rate @ '','' @ show_d rate @ '',0*'') d"

fun baud_loop :: "int list \<Rightarrow> int \<Rightarrow> gps_dev \<Rightarrow> gps_dev c_result" where
  "baud_loop [] baud d = Inr d"
| "baud_loop (u # us) baud d =
     and_then (send_frame (''$PUBX,41,'' @ show_d u @ '',0003,0003,'' @ show_d baud @ '',0*'') d) (baud_loop us baud)"

definition gps_dev_set_baud_rate :: "int \<Rightarrow> gps_dev \<Rightarrow> gps_dev c_result" where
  "gps_dev_set_baud_rate baud d = baud_loop [0, 1, 2] baud d"

definition nmea_messages :: "string list" where
  "nmea_messages = [''GGA'', ''GLL'', ''ZDA'', ''VTG'', ''GSA'', ''GSV'', ''RMC'']"

fun rate_loop :: "string list \<Rightarrow> int \<Rightarrow> gps_dev \<Rightarrow> gps_dev c_result" where
  "rate_loop [] rate d = Inr d"
| "rate_loop (m # ms) rate d = and_then (gps_dev_set_nmea_message_rate m rate d) (rate_loop ms rate)"

definition gps_dev_set_message_rate :: "int \<Rightarrow> gps_dev \<Rightarrow> gps_dev c_result" where
  "gps_dev_set_message_rate rate d = rate_loop nmea_messages rate d"

section \<open>Start and stop\<close>

definition GPS_DEV_SLOW_UPDATE_RATE :: int where "GPS_DEV_SLOW_UPDATE_RATE = 10"
definition GPS_DEV_HIGH_UPDATE_RATE :: int where "GPS_DEV_HIGH_UPDATE_RATE = 1"

definition gps_dev_start :: "gps_dev \<Rightarrow> gps_dev c_result" where
  "gps_dev_start d = gps_dev_set_message_rate GPS_DEV_HIGH_UPDATE_RATE d"

definition gps_dev_stop :: "gps_dev \<Rightarrow> gps_dev c_result" where
  "gps_dev_stop d = gps_dev_set_message_rate GPS_DEV_SLOW_UPDATE_RATE d"

text \<open>Between the two steps the thread sleeps for a second.\<close>

definition gps_dev_init :: "gps_dev \<Rightarrow> gps_dev c_result" where
  "gps_dev_init d = gps_dev_stop (gps_dev_power True d)"

definition gps_dev_deinit :: "gps_dev \<Rightarrow> gps_dev" where
  "gps_dev_deinit d = gps_dev_power False d"

section \<open>The messages are complete and carry their checksum\<close>

text \<open>One \<^verbatim>\<open>write\<close> that does not fail.\<close>

lemma send_loop_step:
  assumes "0 \<le> n" "n \<le> int (length msg)" "w \<noteq> WrError"
  shows "\<exists>m. n + int m \<le> int (length msg) \<and> send_loop msg n (w # ws) =
    (if n + int m < int (length msg)
     then and_then (send_loop msg (n + int m) ws) (\<lambda>(rest, ws). Inr (take m (drop (nat n) msg) @ rest, ws))
     else Inr (take m (drop (nat n) msg), ws))"
proof (cases w)
  case WrEINTR
  then show ?thesis using assms by (intro exI [of _ 0]) (simp add: Let_def)
next
  case (WrCount k)
  then show ?thesis using assms
    by (intro exI [of _ "min k (nat (int (length msg) - n))"]) (simp add: Let_def)
qed (use assms in simp)

lemma send_loop_complete:
  "WrError \<notin> set ws \<Longrightarrow> 0 \<le> n \<Longrightarrow> n \<le> int (length msg) \<Longrightarrow>
   \<exists>ws'. send_loop msg n ws = Inr (drop (nat n) msg, ws') \<and> set ws' \<subseteq> set ws"
proof (induction ws arbitrary: n)
  case (Cons w ws)
  then obtain m where m: "n + int m \<le> int (length msg)" and e: "send_loop msg n (w # ws) =
    (if n + int m < int (length msg)
     then and_then (send_loop msg (n + int m) ws) (\<lambda>(rest, ws). Inr (take m (drop (nat n) msg) @ rest, ws))
     else Inr (take m (drop (nat n) msg), ws))"
    using send_loop_step [of n msg w ws] by auto
  show ?case
  proof (cases "n + int m < int (length msg)")
    case True
    from Cons.IH [of "n + int m"] Cons.prems m obtain ws' where
      w: "send_loop msg (n + int m) ws = Inr (drop (nat (n + int m)) msg, ws')" "set ws' \<subseteq> set ws" by auto
    have "take m (drop (nat n) msg) @ drop (nat (n + int m)) msg = drop (nat n) msg"
      using Cons.prems(2) append_take_drop_id [of m "drop (nat n) msg"] by (simp add: nat_add_distrib add.commute)
    with True w show ?thesis unfolding e by auto
  next
    case False
    then have "take m (drop (nat n) msg) = drop (nat n) msg" using Cons.prems(2,3) by auto
    with False show ?thesis unfolding e by auto
  qed
qed simp

lemma gps_dev_send_complete:
  assumes "WrError \<notin> set (dv_wr d)"
  shows "\<exists>d'. gps_dev_send msg d = Inr d' \<and> dv_wire d' = dv_wire d @ msg \<and> WrError \<notin> set (dv_wr d')"
proof -
  from send_loop_complete [OF assms, of 0 msg] obtain ws' where
    "send_loop msg 0 (dv_wr d) = Inr (msg, ws')" "set ws' \<subseteq> set (dv_wr d)" by auto
  with assms show ?thesis by (auto simp: gps_dev_send_def)
qed

text \<open>The checksum as the protocol defines it: the exclusive or of the bytes between the marks.\<close>

definition nmea_xor :: "string \<Rightarrow> 8 word" where
  "nmea_xor s = fold (\<lambda>c x. x XOR of_char c) s 0"

definition nmea_frame :: "string \<Rightarrow> string" where
  "nmea_frame body = CHR ''$'' # body @ CHR ''*'' # hex2 (nmea_xor body) @ [CHR 0x0D, CHR 0x0A]"

lemma csum_loop_xor: "CHR ''*'' \<notin> set s \<Longrightarrow> csum_loop (s @ CHR ''*'' # r) w = Inr (fold (\<lambda>c x. x XOR of_char c) s w)"
  by (induction s arbitrary: w) auto

lemma send_frame_complete:
  assumes "CHR ''*'' \<notin> set body" "length body \<le> 43" "WrError \<notin> set (dv_wr d)"
  shows "\<exists>d'. send_frame (CHR ''$'' # body @ ''*'') d = Inr d' \<and> dv_wire d' = dv_wire d @ nmea_frame body \<and>
    WrError \<notin> set (dv_wr d')"
proof -
  let ?b = "CHR ''$'' # body @ ''*''"
  have c: "gps_dev_calc_nmea_csum (?b @ r) = Inr (nmea_xor body)" for r
    using csum_loop_xor [OF assms(1)] by (simp add: gps_dev_calc_nmea_csum_def nmea_xor_def)
  have s: "sprintf_to BUFF_SIZE ?b = Inr ?b"
    "sprintf_to (BUFF_SIZE - length ?b) (hex2 (nmea_xor body) @ [CHR 0x0D, CHR 0x0A]) =
       Inr (hex2 (nmea_xor body) @ [CHR 0x0D, CHR 0x0A])"
    using assms(2) by (simp_all add: sprintf_to_def BUFF_SIZE_def hex2_def)
  have f: "?b @ hex2 (nmea_xor body) @ [CHR 0x0D, CHR 0x0A] = nmea_frame body" by (simp add: nmea_frame_def)
  show ?thesis unfolding send_frame_def s(1) and_then.simps c s(2) f
    by (rule gps_dev_send_complete [OF assms(3)])
qed

definition rate_body :: "string \<Rightarrow> int \<Rightarrow> string" where
  "rate_body m rate = ''PUBX,40,'' @ m @ '','' @ show_d rate @ '','' @ show_d rate @ '','' @ show_d rate @ '',0''"

lemma digit_char_no_star: "n < 16 \<Longrightarrow> digit_char n \<noteq> CHR ''*''"
  using digit_val_digit_char [of n 16] by (auto simp: digit_val_def chr_code_def)

lemma show_base_no_star: "b \<le> 16 \<Longrightarrow> 2 \<le> b \<Longrightarrow> CHR ''*'' \<notin> set (show_base b n)"
proof (induction b n rule: show_base.induct)
  case (1 b n)
  have "0 < b" using 1(3) by simp
  then have "n mod b < b" by (rule mod_less_divisor)
  then have "n mod b < 16" using 1(2) by simp
  with 1 digit_char_no_star [of n] digit_char_no_star [of "n mod b"] show ?case
    by (subst show_base.simps) auto
qed

lemma show_d_no_star: "CHR ''*'' \<notin> set (show_d x)"
  using show_base_no_star [of 10] by (auto simp: show_d_def)

lemma rate_frame_complete:
  assumes "CHR ''*'' \<notin> set m" "length m \<le> 3" "length (show_d rate) \<le> 9" "WrError \<notin> set (dv_wr d)"
  shows "\<exists>d'. gps_dev_set_nmea_message_rate m rate d = Inr d' \<and>
    dv_wire d' = dv_wire d @ nmea_frame (rate_body m rate) \<and> WrError \<notin> set (dv_wr d')"
proof -
  have b: "CHR ''*'' \<notin> set (rate_body m rate)" "length (rate_body m rate) \<le> 43"
    using assms(1-3) show_d_no_star by (auto simp: rate_body_def)
  have "gps_dev_set_nmea_message_rate m rate d = send_frame (CHR ''$'' # rate_body m rate @ ''*'') d"
    by (simp add: gps_dev_set_nmea_message_rate_def rate_body_def)
  with send_frame_complete [OF b assms(4)] show ?thesis by simp
qed

lemma rate_loop_complete:
  "\<forall>m \<in> set ms. CHR ''*'' \<notin> set m \<and> length m \<le> 3 \<Longrightarrow> length (show_d rate) \<le> 9 \<Longrightarrow> WrError \<notin> set (dv_wr d) \<Longrightarrow>
   \<exists>d'. rate_loop ms rate d = Inr d' \<and>
     dv_wire d' = dv_wire d @ concat (map (\<lambda>m. nmea_frame (rate_body m rate)) ms) \<and> WrError \<notin> set (dv_wr d')"
proof (induction ms arbitrary: d)
  case (Cons m ms)
  then obtain d1 where d1: "gps_dev_set_nmea_message_rate m rate d = Inr d1"
    "dv_wire d1 = dv_wire d @ nmea_frame (rate_body m rate)" "WrError \<notin> set (dv_wr d1)"
    using rate_frame_complete [of m rate d] by auto
  with Cons.IH [of d1] Cons.prems show ?case by auto
qed simp

text \<open>
  C30 (functional). As long as no write fails, setting the message rate sends the receiver one complete frame
  for each of the seven sentences, in order, however the port splits or interrupts the writes:
  every frame carries the checksum of the protocol, and fits into the array of 50 bytes for a rate
  of up to nine characters.
\<close>

theorem message_rate_frames:
  assumes "length (show_d rate) \<le> 9" "WrError \<notin> set (dv_wr d)"
  shows "\<exists>d'. gps_dev_set_message_rate rate d = Inr d' \<and>
    dv_wire d' = dv_wire d @ concat (map (\<lambda>m. nmea_frame (rate_body m rate)) nmea_messages)"
  using rate_loop_complete [of nmea_messages, OF _ assms]
  by (auto simp: gps_dev_set_message_rate_def nmea_messages_def)

definition quiet_dev :: "wr_event list \<Rightarrow> gps_dev" where
  "quiet_dev ws = \<lparr>dv_power_if = ''power_on'', dv_open = [], dv_power_wr = [], dv_power = [], dv_wr = ws, dv_wire = []\<rparr>"

theorem message_rate_frames_witness:
  "\<exists>d'. gps_dev_set_message_rate 10 (quiet_dev [WrCount 3, WrEINTR]) = Inr d' \<and>
    dv_wire d' = dv_wire (quiet_dev [WrCount 3, WrEINTR]) @
      concat (map (\<lambda>m. nmea_frame (rate_body m 10)) nmea_messages)"
  by (rule message_rate_frames) (simp_all add: show_d_def show_base.simps quiet_dev_def)

text \<open>Start and stop use rates that fit, so they succeed.\<close>

lemma dev_rates_short: "length (show_d GPS_DEV_HIGH_UPDATE_RATE) \<le> 9" "length (show_d GPS_DEV_SLOW_UPDATE_RATE) \<le> 9"
  by (simp_all add: GPS_DEV_HIGH_UPDATE_RATE_def GPS_DEV_SLOW_UPDATE_RATE_def show_d_def show_base.simps)

lemma dev_messages_plain: "\<forall>m \<in> set nmea_messages. CHR ''*'' \<notin> set m \<and> length m \<le> 3"
  by (simp add: nmea_messages_def)

lemma gps_dev_power_wr [simp]: "dv_wr (gps_dev_power b d) = dv_wr d" "dv_wire (gps_dev_power b d) = dv_wire d"
  by (simp_all add: gps_dev_power_def split: prod.splits)

lemma dev_operations_succeed:
  assumes "WrError \<notin> set (dv_wr d)"
  shows "\<exists>d'. gps_dev_start d = Inr d' \<and> WrError \<notin> set (dv_wr d')"
    "\<exists>d'. gps_dev_stop d = Inr d' \<and> WrError \<notin> set (dv_wr d')"
    "\<exists>d'. gps_dev_init d = Inr d' \<and> WrError \<notin> set (dv_wr d')"
  using rate_loop_complete [OF dev_messages_plain dev_rates_short(1) assms]
    rate_loop_complete [OF dev_messages_plain dev_rates_short(2), of d]
    rate_loop_complete [OF dev_messages_plain dev_rates_short(2), of "gps_dev_power True d"] assms
  by (auto simp: gps_dev_start_def gps_dev_stop_def gps_dev_init_def gps_dev_set_message_rate_def)

text \<open>
  A write that fails with an error, which a full port in non-blocking mode does, is counted as
  minus one byte: at the start of a message the next write reads in front of it, and after a part
  of it the last byte sent is sent again.
\<close>

theorem failed_write_miscounted:
  assumes "0 < k" "k < length msg"
  shows "gps_dev_send msg (d\<lparr>dv_wr := WrError # ws\<rparr>) = Inl OutOfBounds \<and>
    gps_dev_send msg (d\<lparr>dv_wr := [WrCount k, WrError]\<rparr>) =
      Inr (d\<lparr>dv_wire := dv_wire d @ take k msg @ drop (k - 1) msg, dv_wr := []\<rparr>)"
proof
  show "gps_dev_send msg (d\<lparr>dv_wr := WrError # ws\<rparr>) = Inl OutOfBounds"
    using assms by (cases ws) (auto simp: gps_dev_send_def Let_def)
  have "nat (int k - 1) = k - 1" using assms(1) by simp
  then show "gps_dev_send msg (d\<lparr>dv_wr := [WrCount k, WrError]\<rparr>) =
      Inr (d\<lparr>dv_wire := dv_wire d @ take k msg @ drop (k - 1) msg, dv_wr := []\<rparr>)"
    using assms by (simp add: gps_dev_send_def Let_def min_absorb1)
qed

theorem failed_write_miscounted_witness:
  "gps_dev_send ''$PUBX'' ((quiet_dev [])\<lparr>dv_wr := WrError # []\<rparr>) = Inl OutOfBounds \<and>
   gps_dev_send ''$PUBX'' ((quiet_dev [])\<lparr>dv_wr := [WrCount 2, WrError]\<rparr>) =
      Inr ((quiet_dev [])\<lparr>dv_wire := dv_wire (quiet_dev []) @ take 2 ''$PUBX'' @ drop (2 - 1) ''$PUBX'', dv_wr := []\<rparr>)"
  by (rule failed_write_miscounted) simp_all

end
