(* ===== verification/GpsSession.thy ===== *)
theory GpsSession
  imports GpsDevice Runs
begin

text \<open>
  \<^verbatim>\<open>gps/freerunner/gps_freerunner.c\<close>, third part: the connection state and the interface
  of the library. Three kinds of threads share the state: the caller of the interface, the GPS
  thread that waits for commands and sentences, and the timer thread of a session that reports
  fixes. Each atomic piece of their code is a definition; \<open>gps_exec\<close> gives the pieces that
  can run in a state, and a run is any interleaving of them.

  Where a thread waits for another (\<^verbatim>\<open>pthread_join\<close>) its code is cut in two. The parser
  and the timer's report run under one semaphore, so each of them is one piece; a \<^verbatim>\<open>read\<close>
  that returns many bytes with reports in between is a sequence of shorter ones. A
  \<^verbatim>\<open>Tick\<close> is a second that passes.
\<close>

section \<open>State\<close>

datatype gps_cmd = CMD_QUIT | CMD_START | CMD_STOP

record gps_callbacks =
  cb_location :: bool
  cb_sv_status :: bool
  cb_status :: bool

text \<open>The GPS thread, with its variable \<^verbatim>\<open>started\<close>; \<open>ThreadJoining\<close> waits for the timer.\<close>

datatype gps_thread = ThreadNone | ThreadStarting | ThreadRunning bool | ThreadJoining | ThreadExited

text \<open>A timer thread: before its report, before it sleeps, asleep for some seconds, ended.\<close>

datatype gps_timer = TimerReady | TimerUnlocked | TimerAsleep nat | TimerDone

text \<open>The caller: between two calls, inside \<^verbatim>\<open>init\<close>, or waiting in \<^verbatim>\<open>cleanup\<close>.\<close>

datatype gps_caller = CallerIdle | CallerInit gps_callbacks | CallerJoin

datatype 'd gps_event = Callback "'d gps_out" | Returned int

record 'd gps_world =
  gw_state :: "'d GpsState"
  gw_sem :: bool                  \<comment> \<open>the semaphore is initialised\<close>
  gw_ctl :: "gps_cmd list"        \<comment> \<open>bytes in the control socket\<close>
  gw_dev :: gps_dev
  gw_caller :: gps_caller
  gw_thread :: gps_thread
  gw_timers :: "gps_timer list"   \<comment> \<open>all timer threads ever created\<close>
  gw_tmr :: nat                   \<comment> \<open>\<^verbatim>\<open>tmr_thread\<close>\<close>
  gw_trace :: "'d gps_event list"

text \<open>
  The platform: arithmetic, the size of the array of satellites, the zone, and whether
  \<^verbatim>\<open>pthread_join\<close> returns (with an error) for a thread that was never created.
\<close>

record 'd gps_os =
  os_fpu :: "'d fpu"
  os_max_svs :: nat
  os_diff :: int
  os_join_none :: bool

text \<open>\<^verbatim>\<open>GPS_STATUS_CB\<close>\<close>

definition status_out :: "gps_status \<Rightarrow> 'd gps_world \<Rightarrow> 'd gps_world" where
  "status_out st w =
     (if status_cb (gw_state w) then w\<lparr>gw_trace := gw_trace w @ [Callback (StatusCb st)]\<rparr> else w)"

text \<open>\<^verbatim>\<open>memset(s, 0, sizeof(*s))\<close>, and the state of a library that is just loaded\<close>

definition zero_gps :: "'d gps_os \<Rightarrow> 'd GpsState" where
  "zero_gps os = \<lparr>gs_init = STATE_QUIT, gs_fd = 0, location_cb = False, sv_status_cb = False, status_cb = False,
     control0 = 0, control1 = 0, fix_freq = 0, first_fix = False,
     gs_reader = (nmea_reader_init (os_fpu os) (os_max_svs os) 0)\<lparr>utc_year := 0, utc_mon := 0, utc_day := 0\<rparr>\<rparr>"

definition gps_boot :: "'d gps_os \<Rightarrow> gps_dev \<Rightarrow> 'd gps_world" where
  "gps_boot os d = \<lparr>gw_state = zero_gps os, gw_sem = False, gw_ctl = [], gw_dev = d, gw_caller = CallerIdle,
     gw_thread = ThreadNone, gw_timers = [], gw_tmr = 0, gw_trace = []\<rparr>"

section \<open>Commands to the GPS thread\<close>

definition gps_state_update_fix_freq :: "int \<Rightarrow> 'd GpsState \<Rightarrow> 'd GpsState" where
  "gps_state_update_fix_freq freq s = s\<lparr>fix_freq := freq\<rparr>"

text \<open>The write to \<^verbatim>\<open>control[0]\<close>; it fails without a trace when there is no socket.\<close>

definition send_cmd :: "gps_cmd \<Rightarrow> 'd gps_world \<Rightarrow> 'd gps_world" where
  "send_cmd cmd w = (if control0 (gw_state w) < 0 then w else w\<lparr>gw_ctl := gw_ctl w @ [cmd]\<rparr>)"

definition gps_state_start :: "'d gps_world \<Rightarrow> 'd gps_world" where
  "gps_state_start w = send_cmd CMD_START w"

definition gps_state_stop :: "'d gps_world \<Rightarrow> 'd gps_world" where
  "gps_state_stop w = send_cmd CMD_STOP w"

text \<open>\<^verbatim>\<open>gps_state_done\<close>, behind the join and as a whole\<close>

definition gps_state_closed :: "'d gps_os \<Rightarrow> 'd gps_world \<Rightarrow> 'd gps_world" where
  "gps_state_closed os w =
     w\<lparr>gw_state := zero_gps os, gw_sem := False, gw_ctl := [], gw_thread := ThreadNone, gw_caller := CallerIdle\<rparr>"

definition gps_state_done :: "'d gps_os \<Rightarrow> 'd gps_world \<Rightarrow> 'd gps_world c_result" where
  "gps_state_done os w =
     (let w = send_cmd CMD_QUIT w in
      if gw_thread w = ThreadNone
      then (if os_join_none os then Inr (gps_state_closed os w) else Inl Dangling)
      else Inr (w\<lparr>gw_caller := CallerJoin\<rparr>))"

section \<open>Initialisation\<close>

text \<open>What the operating system answers during \<^verbatim>\<open>gps_state_init\<close>.\<close>

record init_env =
  ie_sem :: bool
  ie_prop :: string               \<comment> \<open>the property ro.kernel.android.gps\<close>
  ie_open :: "op_event list"
  ie_fd :: nat
  ie_pair :: "(nat \<times> nat) option"
  ie_thread :: bool

definition gps_state_init :: "'d gps_os \<Rightarrow> init_env \<Rightarrow> 'd gps_world \<Rightarrow> 'd gps_world c_result" where
  "gps_state_init os env w =
     (let s = (gw_state w)\<lparr>gs_init := STATE_INIT, control0 := -1, control1 := -1, gs_fd := -1,
                fix_freq := -1, first_fix := False\<rparr>;
          w = w\<lparr>gw_state := s\<rparr>
      in if \<not> ie_sem env then Inr w
      else let w = w\<lparr>gw_sem := True\<rparr>
      in if ie_prop env = [] then Inr w
      else if length (''/dev/'' @ ie_prop env) \<ge> 256 then Inr w
      else if \<not> fst (open_fd (ie_open env)) then Inr w
      else let w = w\<lparr>gw_state := s\<lparr>gs_fd := int (ie_fd env)\<rparr>\<rparr>
      in case ie_pair env of
           None \<Rightarrow> gps_state_done os w
         | Some (c0, c1) \<Rightarrow>
             let w = w\<lparr>gw_state := (gw_state w)\<lparr>control0 := int c0, control1 := int c1\<rparr>, gw_ctl := []\<rparr>
             in if \<not> ie_thread env then gps_state_done os w
                else Inr (w\<lparr>gw_thread := ThreadStarting\<rparr>))"

section \<open>Interface\<close>

definition freerunner_gps_init :: "'d gps_os \<Rightarrow> init_env \<Rightarrow> gps_callbacks \<Rightarrow> 'd gps_world \<Rightarrow> 'd gps_world c_result" where
  "freerunner_gps_init os env callbacks w =
     and_then (if gs_init (gw_state w) = STATE_QUIT then gps_state_init os env w else Inr w)
       (\<lambda>w. Inr (w\<lparr>gw_caller := CallerInit callbacks\<rparr>))"

definition gps_returns :: "int \<Rightarrow> 'd gps_world \<Rightarrow> 'd gps_world" where
  "gps_returns ret w = w\<lparr>gw_trace := gw_trace w @ [Returned ret], gw_caller := CallerIdle\<rparr>"

text \<open>The end of \<^verbatim>\<open>freerunner_gps_init\<close>; the GPS thread may already run when it is reached.\<close>

definition freerunner_gps_init_end :: "gps_callbacks \<Rightarrow> 'd gps_world \<Rightarrow> 'd gps_world" where
  "freerunner_gps_init_end callbacks w =
     (if gs_fd (gw_state w) < 0 then gps_returns (-1) w
      else gps_returns 0 (w\<lparr>gw_state := (gw_state w)\<lparr>location_cb := cb_location callbacks,
             sv_status_cb := cb_sv_status callbacks, status_cb := cb_status callbacks\<rparr>\<rparr>))"

definition freerunner_gps_cleanup :: "'d gps_os \<Rightarrow> 'd gps_world \<Rightarrow> 'd gps_world c_result" where
  "freerunner_gps_cleanup os w =
     (if gs_init (gw_state w) = STATE_QUIT then Inr w else gps_state_done os w)"

definition freerunner_gps_start :: "'d gps_world \<Rightarrow> 'd gps_world" where
  "freerunner_gps_start w =
     (if gs_init (gw_state w) = STATE_QUIT then gps_returns (-1) w else gps_returns 0 (gps_state_start w))"

definition freerunner_gps_stop :: "'d gps_world \<Rightarrow> 'd gps_world" where
  "freerunner_gps_stop w =
     (if gs_init (gw_state w) = STATE_QUIT then gps_returns (-1) w else gps_returns 0 (gps_state_stop w))"

definition freerunner_gps_set_fix_frequency :: "int \<Rightarrow> 'd gps_world \<Rightarrow> 'd gps_world" where
  "freerunner_gps_set_fix_frequency freq w =
     (if gs_init (gw_state w) = STATE_QUIT then w
      else w\<lparr>gw_state := (gw_state w)\<lparr>fix_freq := (if freq \<le> 0 then 1 else freq)\<rparr>\<rparr>)"

definition freerunner_gps_inject_time :: "'d gps_world \<Rightarrow> 'd gps_world" where
  "freerunner_gps_inject_time w = gps_returns 0 w"

definition freerunner_gps_delete_aiding_data :: "'d gps_world \<Rightarrow> 'd gps_world" where
  "freerunner_gps_delete_aiding_data w = w"

definition freerunner_gps_set_position_mode :: "bool \<Rightarrow> int \<Rightarrow> 'd gps_world \<Rightarrow> 'd gps_world" where
  "freerunner_gps_set_position_mode standalone fix_frequency w =
     (if \<not> standalone then gps_returns (-1) w
      else if gs_init (gw_state w) = STATE_QUIT \<or> fix_frequency < 0 then gps_returns (-1) w
      else gps_returns 0 (w\<lparr>gw_state := (gw_state w)\<lparr>fix_freq := fix_frequency\<rparr>\<rparr>))"

section \<open>GPS thread\<close>

definition gps_thread_begin :: "'d gps_os \<Rightarrow> 'd gps_world \<Rightarrow> 'd gps_world c_result" where
  "gps_thread_begin os w =
     and_then (gps_dev_init (gw_dev w)) (\<lambda>d. Inr (status_out GPS_STATUS_ENGINE_ON
       (w\<lparr>gw_dev := d, gw_thread := ThreadRunning False,
          gw_state := (gw_state w)\<lparr>gs_reader := nmea_reader_init (os_fpu os) (os_max_svs os) (os_diff os)\<rparr>\<rparr>)))"

definition gps_thread_exit :: "'d gps_world \<Rightarrow> 'd gps_world" where
  "gps_thread_exit w = (let w = status_out GPS_STATUS_ENGINE_OFF w in
     w\<lparr>gw_dev := gps_dev_deinit (gw_dev w), gw_thread := ThreadExited\<rparr>)"

definition set_run_state :: "run_state \<Rightarrow> 'd gps_world \<Rightarrow> 'd gps_world" where
  "set_run_state st w = w\<lparr>gw_state := (gw_state w)\<lparr>gs_init := st\<rparr>\<rparr>"

text \<open>The command \<^verbatim>\<open>CMD_START\<close>; \<open>tmr_ok\<close> is whether the timer thread can be created.\<close>

definition gps_thread_start :: "bool \<Rightarrow> 'd gps_world \<Rightarrow> 'd gps_world c_result" where
  "gps_thread_start tmr_ok w =
     and_then (gps_dev_start (gw_dev w)) (\<lambda>d.
       let w = set_run_state STATE_START (status_out GPS_STATUS_SESSION_BEGIN (w\<lparr>gw_dev := d\<rparr>)) in
       Inr (if tmr_ok
            then w\<lparr>gw_thread := ThreadRunning True, gw_tmr := length (gw_timers w),
                   gw_timers := gw_timers w @ [TimerReady]\<rparr>
            else gps_thread_exit (set_run_state STATE_INIT w)))"

definition gps_thread_stop :: "'d gps_world \<Rightarrow> 'd gps_world c_result" where
  "gps_thread_stop w =
     and_then (gps_dev_stop (gw_dev w)) (\<lambda>d.
       Inr (set_run_state STATE_INIT (w\<lparr>gw_dev := d, gw_thread := ThreadJoining\<rparr>)))"

definition gps_thread_joined :: "'d gps_world \<Rightarrow> 'd gps_world" where
  "gps_thread_joined w = status_out GPS_STATUS_SESSION_END (w\<lparr>gw_thread := ThreadRunning False\<rparr>)"

definition gps_thread_command :: "bool \<Rightarrow> bool \<Rightarrow> gps_cmd \<Rightarrow> 'd gps_world \<Rightarrow> 'd gps_world c_result" where
  "gps_thread_command tmr_ok started cmd w = (case cmd of
       CMD_QUIT \<Rightarrow> Inr (gps_thread_exit w)
     | CMD_START \<Rightarrow> if started then Inr w else gps_thread_start tmr_ok w
     | CMD_STOP \<Rightarrow> if started then gps_thread_stop w else Inr w)"

definition gps_thread_data :: "'d gps_os \<Rightarrow> string \<Rightarrow> 'd gps_world \<Rightarrow> 'd gps_world c_result" where
  "gps_thread_data os buf w =
     and_then (nmea_reader_add (os_fpu os) buf (gw_state w)) (\<lambda>(s, outs).
       Inr (w\<lparr>gw_state := s, gw_trace := gw_trace w @ map Callback outs\<rparr>))"

section \<open>Timer thread\<close>

text \<open>The part under the semaphore.\<close>

definition report_fix :: "'d GpsState \<Rightarrow> 'd GpsState \<times> 'd gps_out list" where
  "report_fix s =
     (if loc_flags (fix_loc (gs_reader s)) \<noteq> {}
      then
        let r = gs_reader s;
            (s, outs) = (if location_cb s
               then (s\<lparr>gs_reader := r\<lparr>fix_loc := (fix_loc r)\<lparr>loc_flags := {}\<rparr>\<rparr>, first_fix := True\<rparr>,
                     [LocationCb (fix_loc r)])
               else (s, []))
        in (if fix_freq s = 0 then s\<lparr>fix_freq := -1\<rparr> else s, outs)
      else (s, []))"

definition report_svs :: "'d GpsState \<Rightarrow> 'd GpsState \<times> 'd gps_out list" where
  "report_svs s =
     (if sv_status_changed (gs_reader s) \<and> sv_status_cb s
      then (s\<lparr>gs_reader := (gs_reader s)\<lparr>sv_status_changed := False\<rparr>\<rparr>, [SvStatusCb (sv_status (gs_reader s))])
      else (s, []))"

definition gps_timer_report :: "nat \<Rightarrow> 'd gps_world \<Rightarrow> 'd gps_world c_result" where
  "gps_timer_report i w =
     (if \<not> gw_sem w then Inl Dangling
      else
        let (s, outs) = report_fix (gw_state w); (s, outs') = report_svs s
        in Inr (w\<lparr>gw_state := s, gw_trace := gw_trace w @ map Callback (outs @ outs'),
                  gw_timers := (gw_timers w)[i := TimerUnlocked]\<rparr>))"

text \<open>\<^verbatim>\<open>sleep(state->fix_freq)\<close>: the argument is unsigned.\<close>

definition gps_timer_sleep :: "nat \<Rightarrow> 'd gps_world \<Rightarrow> 'd gps_world" where
  "gps_timer_sleep i w =
     w\<lparr>gw_timers := (gw_timers w)[i := TimerAsleep (nat (fix_freq (gw_state w) mod 4294967296))]\<rparr>"

definition gps_timer_check :: "nat \<Rightarrow> 'd gps_world \<Rightarrow> 'd gps_world" where
  "gps_timer_check i w =
     w\<lparr>gw_timers := (gw_timers w)[i := if gs_init (gw_state w) = STATE_START then TimerReady else TimerDone]\<rparr>"

fun timer_tick :: "gps_timer \<Rightarrow> gps_timer" where
  "timer_tick (TimerAsleep (Suc n)) = TimerAsleep n"
| "timer_tick t = t"

section \<open>Runs\<close>

datatype session_act =
    CallInit init_env gps_callbacks | InitReturns | CallCleanup | CleanupJoined | CallStart | CallStop
  | CallSetFrequency int | CallSetMode bool int | CallInjectTime | CallDeleteAiding
  | ThreadBegins | ThreadCommand bool | ThreadData string | ThreadHangup | ThreadJoined
  | TimerReports nat | TimerSleeps nat | TimerWakes nat | Tick

definition timer_is :: "gps_timer \<Rightarrow> nat \<Rightarrow> 'd gps_world \<Rightarrow> bool" where
  "timer_is t i w \<longleftrightarrow> i < length (gw_timers w) \<and> gw_timers w ! i = t"

definition thread_running :: "'d gps_world \<Rightarrow> bool" where
  "thread_running w \<longleftrightarrow> (case gw_thread w of ThreadRunning _ \<Rightarrow> True | _ \<Rightarrow> False)"

definition enabled :: "bool \<Rightarrow> 'a c_result \<Rightarrow> 'a c_result option" where
  "enabled b r = (if b then Some r else None)"

text \<open>What a piece does, \<open>None\<close> when its thread is not at it.\<close>

fun gps_exec :: "'d gps_os \<Rightarrow> session_act \<Rightarrow> 'd gps_world \<Rightarrow> 'd gps_world c_result option" where
  "gps_exec os (CallInit env cbs) w = enabled (gw_caller w = CallerIdle) (freerunner_gps_init os env cbs w)"
| "gps_exec os InitReturns w = (case gw_caller w of
      CallerInit cbs \<Rightarrow> Some (Inr (freerunner_gps_init_end cbs w)) | _ \<Rightarrow> None)"
| "gps_exec os CallCleanup w = enabled (gw_caller w = CallerIdle) (freerunner_gps_cleanup os w)"
| "gps_exec os CleanupJoined w =
     enabled (gw_caller w = CallerJoin \<and> gw_thread w = ThreadExited) (Inr (gps_state_closed os w))"
| "gps_exec os CallStart w = enabled (gw_caller w = CallerIdle) (Inr (freerunner_gps_start w))"
| "gps_exec os CallStop w = enabled (gw_caller w = CallerIdle) (Inr (freerunner_gps_stop w))"
| "gps_exec os (CallSetFrequency freq) w =
     enabled (gw_caller w = CallerIdle) (Inr (freerunner_gps_set_fix_frequency freq w))"
| "gps_exec os (CallSetMode standalone freq) w =
     enabled (gw_caller w = CallerIdle) (Inr (freerunner_gps_set_position_mode standalone freq w))"
| "gps_exec os CallInjectTime w = enabled (gw_caller w = CallerIdle) (Inr (freerunner_gps_inject_time w))"
| "gps_exec os CallDeleteAiding w =
     enabled (gw_caller w = CallerIdle) (Inr (freerunner_gps_delete_aiding_data w))"
| "gps_exec os ThreadBegins w = enabled (gw_thread w = ThreadStarting) (gps_thread_begin os w)"
| "gps_exec os (ThreadCommand tmr_ok) w = (case (gw_thread w, gw_ctl w) of
      (ThreadRunning started, cmd # cmds) \<Rightarrow>
        Some (gps_thread_command tmr_ok started cmd (w\<lparr>gw_ctl := cmds\<rparr>))
    | _ \<Rightarrow> None)"
| "gps_exec os (ThreadData buf) w = enabled (thread_running w \<and> length buf \<le> 512) (gps_thread_data os buf w)"
| "gps_exec os ThreadHangup w = enabled (thread_running w) (Inr (gps_thread_exit w))"
| "gps_exec os ThreadJoined w =
     enabled (gw_thread w = ThreadJoining \<and> timer_is TimerDone (gw_tmr w) w) (Inr (gps_thread_joined w))"
| "gps_exec os (TimerReports i) w = enabled (timer_is TimerReady i w) (gps_timer_report i w)"
| "gps_exec os (TimerSleeps i) w = enabled (timer_is TimerUnlocked i w) (Inr (gps_timer_sleep i w))"
| "gps_exec os (TimerWakes i) w = enabled (timer_is (TimerAsleep 0) i w) (Inr (gps_timer_check i w))"
| "gps_exec os Tick w = Some (Inr (w\<lparr>gw_timers := map timer_tick (gw_timers w)\<rparr>))"

text \<open>A run of the library.\<close>

abbreviation gps_run :: "'d gps_os \<Rightarrow> 'd gps_world \<Rightarrow> session_act list \<Rightarrow> 'd gps_world \<Rightarrow> bool" where
  "gps_run os \<equiv> run (gps_exec os)"

end
