(* ===== verification/GpsBehaviour.thy ===== *)
theory GpsBehaviour
  imports GpsSession
begin

text \<open>
  What holds in every interleaving of the caller, the GPS thread and the timer threads of
  \<^verbatim>\<open>gps/freerunner/gps_freerunner.c\<close>: an invariant of the connection state, what is
  reported, the protocol of the status callbacks, and how long a stop takes. An invariant is
  an interpretation of the locale \<open>gps_invariant\<close>.
\<close>

section \<open>Invariants of runs\<close>

definition os_ok :: "'d gps_os \<Rightarrow> bool" where
  "os_ok os \<longleftrightarrow> int (os_max_svs os) < INT_MAX"

locale gps_invariant =
  fixes I :: "'d gps_os \<Rightarrow> 'd gps_world \<Rightarrow> bool"
  assumes boot: "os_ok os \<Longrightarrow> I os (gps_boot os d)"
    and step: "os_ok os \<Longrightarrow> I os w \<Longrightarrow> gps_exec os a w = Some (Inr w') \<Longrightarrow> I os w'"

sublocale gps_invariant \<subseteq> sys: run_invariant "gps_exec os" "\<lambda>w. os_ok os \<and> (\<exists>d. w = gps_boot os d)"
  "\<lambda>w. os_ok os \<and> I os w" for os
  by unfold_locales (auto intro: boot step)

context gps_invariant
begin

lemma run_invariant_from: "gps_run os w acts w' \<Longrightarrow> os_ok os \<Longrightarrow> I os w \<Longrightarrow> I os w'"
  using sys.run_from by blast

lemma reachable: "gps_run os (gps_boot os d) acts w \<Longrightarrow> os_ok os \<Longrightarrow> I os w"
  using sys.reachable by blast

end

lemmas gps_none = run_none [where exec = "gps_exec os" for os]
  and gps_step = run_step [where exec = "gps_exec os" for os]

lemmas gps_call_defs =
  freerunner_gps_init_end_def gps_returns_def freerunner_gps_cleanup_def freerunner_gps_start_def
  freerunner_gps_stop_def freerunner_gps_set_fix_frequency_def freerunner_gps_inject_time_def
  freerunner_gps_delete_aiding_data_def freerunner_gps_set_position_mode_def gps_state_start_def
  gps_state_stop_def send_cmd_def gps_state_done_def gps_state_closed_def

lemmas gps_thread_defs =
  gps_thread_begin_def gps_thread_exit_def set_run_state_def gps_thread_start_def gps_thread_stop_def
  gps_thread_joined_def gps_thread_command_def status_out_def

lemmas gps_timer_defs = gps_timer_report_def gps_timer_sleep_def gps_timer_check_def timer_is_def

lemma status_out_simps [simp]:
  "gw_state (status_out st w) = gw_state w" "gw_thread (status_out st w) = gw_thread w"
  "gw_dev (status_out st w) = gw_dev w" "gw_timers (status_out st w) = gw_timers w" "gw_tmr (status_out st w) = gw_tmr w"
  by (simp_all add: status_out_def)

lemma enabled_Some [simp]: "enabled b r = Some q \<longleftrightarrow> b \<and> r = q"
  by (simp add: enabled_def)

text \<open>The three ways through \<^verbatim>\<open>gps_state_init\<close>.\<close>

definition fresh_state :: "'d GpsState \<Rightarrow> 'd GpsState" where
  "fresh_state s = s\<lparr>gs_init := STATE_INIT, control0 := -1, control1 := -1, gs_fd := -1, fix_freq := -1,
     first_fix := False\<rparr>"

lemma gps_state_init_cases:
  assumes "gps_state_init os env w = Inr w'" "gw_thread w = ThreadNone"
  shows "(\<exists>sem. w' = w\<lparr>gw_state := fresh_state (gw_state w), gw_sem := sem\<rparr>) \<or>
    w' = gps_state_closed os w \<or>
    (\<exists>c0 c1. ie_pair env = Some (c0, c1) \<and> w' = w\<lparr>gw_sem := True, gw_state := (fresh_state (gw_state w))
        \<lparr>gs_fd := int (ie_fd env), control0 := int c0, control1 := int c1\<rparr>, gw_ctl := [], gw_thread := ThreadStarting\<rparr>)"
proof -
  have a: "\<exists>sem. w\<lparr>gw_state := fresh_state (gw_state w)\<rparr> = w\<lparr>gw_state := fresh_state (gw_state w), gw_sem := sem\<rparr>"
    by (intro exI [of _ "gw_sem w"]) simp
  show ?thesis
    using assms a unfolding gps_state_init_def fresh_state_def [symmetric] Let_def
    by (auto simp: gps_call_defs Let_def fresh_state_def split: if_splits option.splits)
qed

section \<open>The connection state\<close>

text \<open>
  While the GPS thread works the semaphore and the descriptors are there; the state says that a
  session runs exactly while the thread has one, or after the thread has left in the middle of it.
\<close>

definition thread_alive :: "'d gps_world \<Rightarrow> bool" where
  "thread_alive w \<longleftrightarrow> gw_thread w \<notin> {ThreadNone, ThreadExited}"

definition session_ok :: "'d gps_os \<Rightarrow> 'd gps_world \<Rightarrow> bool" where
  "session_ok os w \<longleftrightarrow>
     reader_ok (gs_reader (gw_state w)) \<and>
     (gs_init (gw_state w) = STATE_QUIT \<longleftrightarrow> gw_thread w = ThreadNone \<and> \<not> gs_fd (gw_state w) < 0) \<and>
     (thread_alive w \<longrightarrow> gw_sem w \<and> 0 \<le> gs_fd (gw_state w) \<and> 0 \<le> control0 (gw_state w)) \<and>
     (gs_init (gw_state w) = STATE_START \<longrightarrow> gw_thread w \<in> {ThreadRunning True, ThreadExited}) \<and>
     (gw_thread w = ThreadRunning True \<longrightarrow> gs_init (gw_state w) = STATE_START) \<and>
     (gw_thread w \<in> {ThreadRunning True, ThreadJoining} \<longrightarrow> gw_tmr w < length (gw_timers w))"

text \<open>What bytes of the receiver do not touch, and what is reported for them.\<close>

definition same_session :: "'d GpsState \<Rightarrow> 'd GpsState \<Rightarrow> bool" where
  "same_session s s' \<longleftrightarrow> gs_init s' = gs_init s \<and> gs_fd s' = gs_fd s \<and> control0 s' = control0 s \<and>
     status_cb s' = status_cb s \<and> fix_freq s' = fix_freq s"

definition real_report :: "'d gps_out \<Rightarrow> bool" where
  "real_report out \<longleftrightarrow> (case out of LocationCb l \<Rightarrow> loc_flags l \<noteq> {} | SvStatusCb _ \<Rightarrow> True | StatusCb _ \<Rightarrow> False)"

lemma same_session_trans: "same_session s s' \<Longrightarrow> same_session s' s'' \<Longrightarrow> same_session s s''"
  by (simp add: same_session_def)

lemma report_first_fix_frame:
  "report_first_fix s = (s', outs) \<Longrightarrow> same_session s s' \<and> list_all real_report outs"
  by (auto simp: report_first_fix_def same_session_def real_report_def Let_def split: if_splits)

lemma nmea_reader_parse_frame:
  assumes "nmea_reader_parse fp s = Inr (s', outs)"
  shows "same_session s s' \<and> list_all real_report outs"
proof -
  have "same_session s s" "same_session s (s\<lparr>gs_reader := r\<rparr>)" for r by (simp_all add: same_session_def)
  with assms show ?thesis
    by (auto simp: nmea_reader_parse_def Let_def c_simps split: if_splits
        dest!: report_first_fix_frame intro: same_session_trans)
qed

lemma addc_frame:
  assumes "nmea_reader_addc fp c s = Inr (s', outs)" "reader_ok (gs_reader s)"
  shows "reader_ok (gs_reader s') \<and> same_session s s' \<and> list_all real_report outs"
proof (cases "rd_overflow (gs_reader s) \<or> rd_pos (gs_reader s) \<ge> NMEA_MAX_SIZE")
  case True
  have "length (rd_in (gs_reader s)) = NMEA_MAX_SIZE + 1" using assms(2) by (simp add: reader_ok_def)
  with True assms show ?thesis
    by (auto simp: nmea_reader_addc_def Let_def reader_ok_def same_session_def split: if_splits)
next
  case False
  let ?s = "s\<lparr>gs_reader := stored c (gs_reader s)\<rparr>"
  have ok: "reader_ok (gs_reader ?s)" using False assms(2) by (simp add: reader_ok_def stored_def)
  have st: "same_session s ?s" by (simp add: same_session_def)
  show ?thesis
  proof (cases "c = CHR 0x0A")
    case True
    with assms(1) False addc_store [OF _ assms(2), of fp c]
    have "and_then (nmea_reader_parse fp ?s) (\<lambda>(s, outs). Inr (s\<lparr>gs_reader := (gs_reader s)\<lparr>rd_pos := 0\<rparr>\<rparr>, outs)) =
      Inr (s', outs)" by simp
    then obtain u where
      u: "nmea_reader_parse fp ?s = Inr (u, outs)" "s' = u\<lparr>gs_reader := (gs_reader u)\<lparr>rd_pos := 0\<rparr>\<rparr>"
      by (auto simp: c_simps)
    have "length (rd_in (gs_reader ?s)) = NMEA_MAX_SIZE + 1" "rd_pos (gs_reader ?s) \<le> NMEA_MAX_SIZE"
      using ok by (simp_all add: reader_ok_def)
    from nmea_reader_parse_cases [OF this ok, of fp] u(1) have "reader_ok (gs_reader u)" by simp
    with nmea_reader_parse_frame [OF u(1)] st show ?thesis by (simp add: u(2) reader_ok_def same_session_def)
  next
    case c: False
    with assms(1) False addc_store [OF _ assms(2), of fp c] have "s' = ?s" "outs = []" by auto
    with ok st show ?thesis by simp
  qed
qed

lemma reader_add_frame:
  "nmea_reader_add fp cs s = Inr (s', outs) \<Longrightarrow> reader_ok (gs_reader s) \<Longrightarrow>
   reader_ok (gs_reader s') \<and> same_session s s' \<and> list_all real_report outs"
proof (induction cs arbitrary: s outs)
  case (Cons c cs)
  from Cons.prems(1) obtain u o1 o2 where u: "nmea_reader_addc fp c s = Inr (u, o1)"
    "nmea_reader_add fp cs u = Inr (s', o2)" "outs = o1 @ o2" by (auto simp: c_simps)
  from addc_frame [OF u(1) Cons.prems(2)] Cons.IH [OF u(2)] show ?case
    by (auto simp: u(3) intro: same_session_trans)
qed (simp add: same_session_def)

lemma zero_gps_simps [simp]:
  "gs_init (zero_gps os) = STATE_QUIT" "gs_fd (zero_gps os) = 0" "control0 (zero_gps os) = 0"
  "status_cb (zero_gps os) = False"
  by (simp_all add: zero_gps_def)

lemma zero_gps_reader: "os_ok os \<Longrightarrow> reader_ok (gs_reader (zero_gps os))"
  using reader_init_ok [of "os_max_svs os" "os_fpu os" 0] by (simp add: zero_gps_def reader_ok_def os_ok_def)

lemma gps_boot_simps [simp]:
  "gw_state (gps_boot os d) = zero_gps os" "gw_thread (gps_boot os d) = ThreadNone"
  "gw_caller (gps_boot os d) = CallerIdle" "gw_trace (gps_boot os d) = []" "gw_timers (gps_boot os d) = []"
  by (simp_all add: gps_boot_def)

lemma session_ok_boot: "os_ok os \<Longrightarrow> session_ok os (gps_boot os d)"
  by (simp add: session_ok_def thread_alive_def zero_gps_reader)

lemma session_ok_closed: "os_ok os \<Longrightarrow> session_ok os (gps_state_closed os w)"
  by (simp add: session_ok_def thread_alive_def zero_gps_reader gps_state_closed_def)

text \<open>What only the caller and the port know does not matter for it.\<close>

lemma session_ok_frame [simp]:
  "session_ok os (w\<lparr>gw_caller := c\<rparr>) = session_ok os w" "session_ok os (w\<lparr>gw_trace := t\<rparr>) = session_ok os w"
  "session_ok os (w\<lparr>gw_ctl := q\<rparr>) = session_ok os w" "session_ok os (w\<lparr>gw_dev := d\<rparr>) = session_ok os w"
  "session_ok os (status_out st w) = session_ok os w"
  by (simp_all add: session_ok_def thread_alive_def status_out_def)

lemma session_ok_init:
  assumes "os_ok os" "session_ok os w" "freerunner_gps_init os env cbs w = Inr w'"
  shows "session_ok os w'"
proof (cases "gs_init (gw_state w) = STATE_QUIT")
  case True
  then have n: "gw_thread w = ThreadNone" using assms(2) by (simp add: session_ok_def)
  from True assms(3) obtain v where v: "gps_state_init os env w = Inr v" "w' = v\<lparr>gw_caller := CallerInit cbs\<rparr>"
    by (auto simp: freerunner_gps_init_def c_simps)
  have r: "reader_ok (gs_reader (gw_state w))" using assms(2) by (simp add: session_ok_def)
  from gps_state_init_cases [OF v(1) n] session_ok_closed [OF assms(1), of w] n r have "session_ok os v"
    by (elim disjE exE conjE) (simp_all add: session_ok_def thread_alive_def fresh_state_def)
  then show ?thesis by (simp add: v(2))
qed (use assms in \<open>auto simp: freerunner_gps_init_def\<close>)

lemma session_ok_begin:
  assumes "os_ok os" "session_ok os w" "gw_thread w = ThreadStarting" "gps_thread_begin os w = Inr w'"
  shows "session_ok os w'"
proof -
  from assms(4) obtain d where w': "w' = status_out GPS_STATUS_ENGINE_ON
       (w\<lparr>gw_dev := d, gw_thread := ThreadRunning False,
          gw_state := (gw_state w)\<lparr>gs_reader := nmea_reader_init (os_fpu os) (os_max_svs os) (os_diff os)\<rparr>\<rparr>)"
    by (auto simp: gps_thread_begin_def c_simps)
  have "reader_ok (nmea_reader_init (os_fpu os) (os_max_svs os) (os_diff os))"
    using assms(1) by (intro reader_init_ok) (simp add: os_ok_def)
  with assms(2,3) show ?thesis unfolding w' session_ok_frame by (simp add: session_ok_def thread_alive_def)
qed

lemma session_ok_exit: "session_ok os w \<Longrightarrow> thread_alive w \<Longrightarrow> session_ok os (gps_thread_exit w)"
  by (simp add: gps_thread_exit_def Let_def session_ok_def thread_alive_def status_out_def)

lemma session_ok_command:
  assumes "session_ok os w" "gw_thread w = ThreadRunning b" "gps_thread_command t b cmd w = Inr w'"
  shows "session_ok os w'"
proof -
  have alive: "thread_alive v" if "gw_thread v = ThreadRunning b" for v :: "'a gps_world"
    using that by (simp add: thread_alive_def)
  have exit: "session_ok os (gps_thread_exit w)" by (rule session_ok_exit [OF assms(1) alive [OF assms(2)]])
  have start: "session_ok os w'" if "\<not> b" "gps_thread_start t w = Inr w'"
  proof -
    from that obtain d where w': "w' = (let w = set_run_state STATE_START (status_out GPS_STATUS_SESSION_BEGIN (w\<lparr>gw_dev := d\<rparr>))
        in if t then w\<lparr>gw_thread := ThreadRunning True, gw_tmr := length (gw_timers w),
                   gw_timers := gw_timers w @ [TimerReady]\<rparr>
            else gps_thread_exit (set_run_state STATE_INIT w))"
      by (auto simp: gps_thread_start_def c_simps Let_def)
    define v where "v = status_out GPS_STATUS_SESSION_BEGIN (w\<lparr>gw_dev := d\<rparr>)"
    have v: "session_ok os v" "gw_thread v = ThreadRunning False"
      using assms that(1) by (simp_all add: v_def status_out_def)
    then have "session_ok os (gps_thread_exit (set_run_state STATE_INIT (set_run_state STATE_START v)))"
      by (intro session_ok_exit) (simp_all add: session_ok_def thread_alive_def set_run_state_def)
    moreover have "session_ok os ((set_run_state STATE_START v)\<lparr>gw_thread := ThreadRunning True,
        gw_tmr := length (gw_timers v), gw_timers := gw_timers v @ [TimerReady]\<rparr>)"
      using v by (simp add: session_ok_def thread_alive_def set_run_state_def)
    ultimately show ?thesis unfolding w' v_def [symmetric] Let_def by (simp add: set_run_state_def)
  qed
  have stop: "session_ok os w'" if "b" "gps_thread_stop w = Inr w'"
    using that assms by (auto simp: gps_thread_stop_def set_run_state_def session_ok_def thread_alive_def c_simps)
  from assms(1,3) exit start stop show ?thesis
    by (auto simp: gps_thread_command_def split: gps_cmd.splits if_splits)
qed

lemma session_ok_timers:
  "length ts = length (gw_timers w) \<Longrightarrow> session_ok os (w\<lparr>gw_timers := ts\<rparr>) = session_ok os w"
  by (simp add: session_ok_def thread_alive_def)

lemma session_ok_state:
  "session_ok os w \<Longrightarrow> gs_init s = gs_init (gw_state w) \<Longrightarrow> gs_fd s = gs_fd (gw_state w) \<Longrightarrow>
   control0 s = control0 (gw_state w) \<Longrightarrow> reader_ok (gs_reader s) \<Longrightarrow> session_ok os (w\<lparr>gw_state := s\<rparr>)"
  by (simp add: session_ok_def thread_alive_def)

lemma session_ok_reader: "session_ok os w \<Longrightarrow> reader_ok (gs_reader (gw_state w))"
  by (simp add: session_ok_def)

lemma session_ok_calls:
  assumes "session_ok os w"
  shows "session_ok os (freerunner_gps_init_end cbs w)" "session_ok os (freerunner_gps_start w)"
    "session_ok os (freerunner_gps_stop w)" "session_ok os (freerunner_gps_set_fix_frequency f w)"
    "session_ok os (freerunner_gps_inject_time w)" "session_ok os (freerunner_gps_set_position_mode m f w)"
  using assms by (auto simp: gps_call_defs session_ok_def thread_alive_def)

lemma report_frame:
  assumes "report_fix s = (u, o1)" "report_svs u = (v, o2)"
  shows "gs_init v = gs_init s \<and> gs_fd v = gs_fd s \<and> control0 v = control0 s \<and> status_cb v = status_cb s \<and>
    (reader_ok (gs_reader s) \<longrightarrow> reader_ok (gs_reader v)) \<and> list_all real_report (o1 @ o2)"
proof -
  have "gs_init u = gs_init s \<and> gs_fd u = gs_fd s \<and> control0 u = control0 s \<and> status_cb u = status_cb s \<and>
    (reader_ok (gs_reader s) \<longrightarrow> reader_ok (gs_reader u)) \<and> list_all real_report o1"
    using assms(1) by (auto simp: report_fix_def reader_ok_def real_report_def Let_def split: if_splits)
  moreover have "gs_init v = gs_init u \<and> gs_fd v = gs_fd u \<and> control0 v = control0 u \<and> status_cb v = status_cb u \<and>
    (reader_ok (gs_reader u) \<longrightarrow> reader_ok (gs_reader v)) \<and> list_all real_report o2"
    using assms(2) by (auto simp: report_svs_def reader_ok_def real_report_def split: if_splits)
  ultimately show ?thesis by simp
qed

lemma timer_report_effect:
  assumes "gps_timer_report i w = Inr w'"
  shows "\<exists>s outs. gw_sem w \<and> w' = w\<lparr>gw_state := s, gw_trace := gw_trace w @ map Callback outs,
      gw_timers := (gw_timers w)[i := TimerUnlocked]\<rparr> \<and>
    gs_init s = gs_init (gw_state w) \<and> gs_fd s = gs_fd (gw_state w) \<and> control0 s = control0 (gw_state w) \<and>
    status_cb s = status_cb (gw_state w) \<and>
    (reader_ok (gs_reader (gw_state w)) \<longrightarrow> reader_ok (gs_reader s)) \<and> list_all real_report outs"
proof -
  obtain u o1 where u: "report_fix (gw_state w) = (u, o1)" by fastforce
  obtain v o2 where v: "report_svs u = (v, o2)" by fastforce
  from report_frame [OF u v] assms u v show ?thesis
    by (intro exI [of _ v] exI [of _ "o1 @ o2"]) (auto simp: gps_timer_report_def split: if_splits)
qed

lemma thread_data_effect:
  assumes "gps_thread_data os buf w = Inr w'" "reader_ok (gs_reader (gw_state w))"
  shows "\<exists>s outs. w' = w\<lparr>gw_state := s, gw_trace := gw_trace w @ map Callback outs\<rparr> \<and>
    reader_ok (gs_reader s) \<and> same_session (gw_state w) s \<and> list_all real_report outs"
proof -
  from assms(1) obtain s outs where s: "nmea_reader_add (os_fpu os) buf (gw_state w) = Inr (s, outs)"
    "w' = w\<lparr>gw_state := s, gw_trace := gw_trace w @ map Callback outs\<rparr>" by (auto simp: gps_thread_data_def c_simps)
  from reader_add_frame [OF s(1) assms(2)] s(2) show ?thesis by blast
qed

lemma thread_running_alive: "thread_running w \<Longrightarrow> thread_alive w"
  by (auto simp: thread_running_def thread_alive_def split: gps_thread.splits)

lemma session_ok_cleanup:
  "os_ok os \<Longrightarrow> session_ok os w \<Longrightarrow> freerunner_gps_cleanup os w = Inr w' \<Longrightarrow> session_ok os w'"
  using session_ok_closed [of os]
  by (auto simp: freerunner_gps_cleanup_def gps_state_done_def send_cmd_def Let_def split: if_splits)

lemma session_ok_data:
  assumes "session_ok os w" "gps_thread_data os buf w = Inr w'"
  shows "session_ok os w'"
proof -
  from thread_data_effect [OF assms(2) session_ok_reader [OF assms(1)]] obtain s outs where
    s: "w' = w\<lparr>gw_state := s, gw_trace := gw_trace w @ map Callback outs\<rparr>" "reader_ok (gs_reader s)"
    "same_session (gw_state w) s" by blast
  from s(2,3) show ?thesis unfolding s(1) session_ok_frame
    by (intro session_ok_state [OF assms(1)]) (simp_all add: same_session_def)
qed

lemma session_ok_report:
  assumes "session_ok os w" "gps_timer_report i w = Inr w'"
  shows "session_ok os w'"
proof -
  from timer_report_effect [OF assms(2)] session_ok_reader [OF assms(1)] obtain s outs where
    s: "w' = w\<lparr>gw_state := s, gw_trace := gw_trace w @ map Callback outs, gw_timers := (gw_timers w)[i := TimerUnlocked]\<rparr>"
    "gs_init s = gs_init (gw_state w)" "gs_fd s = gs_fd (gw_state w)" "control0 s = control0 (gw_state w)"
    "reader_ok (gs_reader s)" by blast
  from session_ok_state [OF assms(1) s(2-5)] show ?thesis unfolding s(1) by (simp add: session_ok_timers)
qed

lemma session_ok_step:
  assumes "os_ok os" "session_ok os w" "gps_exec os a w = Some (Inr w')"
  shows "session_ok os w'"
proof (cases a)
  case (CallInit env cbs)
  with assms(3) show ?thesis using session_ok_init [OF assms(1,2)] by auto
next
  case InitReturns
  with assms show ?thesis by (auto simp: session_ok_calls split: gps_caller.splits)
next
  case CallCleanup
  with assms(3) show ?thesis using session_ok_cleanup [OF assms(1,2)] by auto
next
  case CleanupJoined
  with assms(1,3) show ?thesis by (auto simp: session_ok_closed)
next
  case ThreadBegins
  with assms(3) show ?thesis using session_ok_begin [OF assms(1,2)] by auto
next
  case (ThreadCommand t)
  with assms(3) obtain b cmd cmds where c: "gw_thread w = ThreadRunning b"
    "gps_thread_command t b cmd (w\<lparr>gw_ctl := cmds\<rparr>) = Inr w'"
    by (auto split: gps_thread.splits list.splits)
  show ?thesis by (rule session_ok_command [OF _ _ c(2)]) (use c(1) assms(2) in simp_all)
next
  case (ThreadData buf)
  with assms(3) show ?thesis using session_ok_data [OF assms(2)] by auto
next
  case ThreadHangup
  with assms(3) show ?thesis using session_ok_exit [OF assms(2) thread_running_alive] by auto
next
  case ThreadJoined
  with assms(3) have w': "w' = status_out GPS_STATUS_SESSION_END (w\<lparr>gw_thread := ThreadRunning False\<rparr>)"
    "gw_thread w = ThreadJoining" by (simp_all add: gps_thread_joined_def)
  with assms(2) show ?thesis unfolding w'(1) session_ok_frame by (auto simp: session_ok_def thread_alive_def)
next
  case (TimerReports i)
  with assms(3) show ?thesis using session_ok_report [OF assms(2)] by auto
next
  case (TimerSleeps i)
  with assms show ?thesis by (auto simp: gps_timer_sleep_def session_ok_timers)
next
  case (TimerWakes i)
  with assms show ?thesis by (auto simp: gps_timer_check_def session_ok_timers)
next
  case Tick
  with assms show ?thesis by (auto simp: session_ok_timers)
qed (use assms(2,3) session_ok_calls [OF assms(2)] in \<open>auto simp: freerunner_gps_delete_aiding_data_def\<close>)

interpretation session: gps_invariant session_ok
  by unfold_locales (rule session_ok_boot session_ok_step; assumption)+

text \<open>
  C19 (invariant). However the calls of the interface, the GPS thread and the timers are interleaved, the
  reader stays inside its arrays; while the GPS thread works, the semaphore of the parser and
  the descriptors exist; and the state says that a session runs only while the thread runs one or
  after the thread has left in the middle of one.
\<close>

theorem gps_session_invariant:
  assumes "os_ok os" "gps_run os (gps_boot os d) acts w"
  shows "session_ok os w"
  using assms by (intro session.reachable)

text \<open>Runs on concrete inputs.\<close>

definition text_os :: "string gps_os" where
  "text_os = \<lparr>os_fpu = text_fpu, os_max_svs = 4, os_diff = 0, os_join_none = True\<rparr>"

definition good_env :: init_env where
  "good_env = \<lparr>ie_sem = True, ie_prop = ''ttySAC1'', ie_open = [], ie_fd = 7, ie_pair = Some (8, 9), ie_thread = True\<rparr>"

definition all_cbs :: gps_callbacks where
  "all_cbs = \<lparr>cb_location = True, cb_sv_status = True, cb_status = True\<rparr>"

text \<open>Initialise the library and start a single-shot session.\<close>

definition start_acts :: "session_act list" where
  "start_acts = [CallInit good_env all_cbs, InitReturns, CallSetMode True 0, ThreadBegins, CallStart, ThreadCommand True]"

definition world_after :: "session_act list \<Rightarrow> string gps_world" where
  "world_after acts = (case execs (gps_exec text_os) acts (gps_boot text_os (quiet_dev [])) of
     Some w \<Rightarrow> w | None \<Rightarrow> gps_boot text_os (quiet_dev []))"

definition run_to :: "session_act list \<Rightarrow> (string gps_world \<Rightarrow> bool) \<Rightarrow> bool" where
  "run_to acts P = (case execs (gps_exec text_os) acts (gps_boot text_os (quiet_dev [])) of Some w \<Rightarrow> P w | None \<Rightarrow> False)"

lemma run_to_world:
  "run_to acts P \<Longrightarrow> gps_run text_os (gps_boot text_os (quiet_dev [])) acts (world_after acts) \<and> P (world_after acts)"
  by (auto simp: run_to_def world_after_def run_execs [symmetric] split: option.splits)

definition is_started :: "string gps_world \<Rightarrow> bool" where
  "is_started w \<longleftrightarrow> gw_caller w = CallerIdle \<and> gw_thread w = ThreadRunning True \<and> gw_ctl w = [] \<and>
     timer_is TimerReady 0 w \<and> status_cb (gw_state w)"

lemma started_to: "run_to start_acts is_started"
  by code_simp

lemmas started_run = run_to_world [OF started_to, THEN conjunct1]
lemmas started_state = run_to_world [OF started_to, THEN conjunct2, unfolded is_started_def]

lemma text_os_ok: "os_ok text_os"
  by (simp add: os_ok_def text_os_def INT_MAX_def)

theorem gps_session_invariant_witness: "session_ok text_os (world_after start_acts)"
  by (rule gps_session_invariant [OF text_os_ok started_run])

section \<open>Reports\<close>

text \<open>
  What a piece adds to the trace: reports of the timer or the parser, or statuses of the GPS
  thread, which follow the automaton of the engine.
\<close>

datatype engine = EngineOff | EngineOn | EngineSession

fun engine_step :: "engine \<Rightarrow> gps_status \<Rightarrow> engine option" where
  "engine_step EngineOff GPS_STATUS_ENGINE_ON = Some EngineOn"
| "engine_step EngineOn GPS_STATUS_SESSION_BEGIN = Some EngineSession"
| "engine_step EngineSession GPS_STATUS_SESSION_END = Some EngineOn"
| "engine_step EngineOn GPS_STATUS_ENGINE_OFF = Some EngineOff"
| "engine_step EngineSession GPS_STATUS_ENGINE_OFF = Some EngineOff"
| "engine_step _ _ = None"

fun engine_path :: "engine \<Rightarrow> gps_status list \<Rightarrow> engine option" where
  "engine_path e [] = Some e"
| "engine_path e (st # sts) = (case engine_step e st of None \<Rightarrow> None | Some e \<Rightarrow> engine_path e sts)"

lemma engine_path_append:
  "engine_path e xs = Some e' \<Longrightarrow> engine_path e (xs @ ys) = engine_path e' ys"
  by (induction e xs rule: engine_path.induct) (auto split: option.splits)

fun engine_of :: "gps_thread \<Rightarrow> engine" where
  "engine_of (ThreadRunning started) = (if started then EngineSession else EngineOn)"
| "engine_of ThreadJoining = EngineSession"
| "engine_of _ = EngineOff"

fun event_status :: "'d gps_event \<Rightarrow> gps_status list" where
  "event_status (Callback (StatusCb st)) = [st]"
| "event_status _ = []"

definition statuses :: "'d gps_event list \<Rightarrow> gps_status list" where
  "statuses t = concat (map event_status t)"

lemma statuses_simps [simp]:
  "statuses [] = []" "statuses (e # t) = event_status e @ statuses t" "statuses (t @ u) = statuses t @ statuses u"
  by (simp_all add: statuses_def)

lemma real_report_no_status: "list_all real_report outs \<Longrightarrow> statuses (map Callback outs) = []"
  by (induction outs) (auto simp: real_report_def split: gps_out.splits)

fun event_ok :: "'d gps_event \<Rightarrow> bool" where
  "event_ok (Callback (LocationCb l)) = (loc_flags l \<noteq> {})"
| "event_ok _ = True"

lemma real_report_event_ok: "list_all real_report outs \<Longrightarrow> list_all event_ok (map Callback outs)"
  by (induction outs) (auto simp: real_report_def split: gps_out.splits)

definition adds :: "gps_status list \<Rightarrow> 'd gps_world \<Rightarrow> 'd gps_world \<Rightarrow> bool" where
  "adds sts w w' \<longleftrightarrow> (\<exists>new. gw_trace w' = gw_trace w @ new \<and> list_all event_ok new \<and>
     statuses new = (if status_cb (gw_state w) then sts else []))"

lemma adds_nothing: "gw_trace w' = gw_trace w \<Longrightarrow> adds [] w w'"
  by (simp add: adds_def)

lemma adds_returned: "gw_trace w' = gw_trace w @ [Returned r] \<Longrightarrow> adds [] w w'"
  by (simp add: adds_def)

lemma adds_reports: "gw_trace w' = gw_trace w @ map Callback outs \<Longrightarrow> list_all real_report outs \<Longrightarrow> adds [] w w'"
  using real_report_no_status real_report_event_ok unfolding adds_def by fastforce

lemma status_out_adds:
  "gw_trace v = gw_trace w \<Longrightarrow> status_cb (gw_state v) = status_cb (gw_state w) \<Longrightarrow>
   gw_trace w' = gw_trace (status_out st v) \<Longrightarrow> adds [st] w w'"
  by (simp add: adds_def status_out_def)

lemma adds_calls:
  "adds [] w (freerunner_gps_init_end cbs w)" "adds [] w (freerunner_gps_start w)" "adds [] w (freerunner_gps_stop w)"
  "adds [] w (freerunner_gps_set_fix_frequency f w)" "adds [] w (freerunner_gps_inject_time w)"
  "adds [] w (freerunner_gps_set_position_mode m f w)" "adds [] w (freerunner_gps_delete_aiding_data w)"
  by (simp_all add: adds_def gps_call_defs)

lemma thread_calls [simp]:
  "gw_thread (freerunner_gps_init_end cbs w) = gw_thread w" "gw_thread (freerunner_gps_start w) = gw_thread w"
  "gw_thread (freerunner_gps_stop w) = gw_thread w" "gw_thread (freerunner_gps_set_fix_frequency f w) = gw_thread w"
  "gw_thread (freerunner_gps_inject_time w) = gw_thread w"
  "gw_thread (freerunner_gps_set_position_mode m f w) = gw_thread w"
  "gw_thread (freerunner_gps_delete_aiding_data w) = gw_thread w"
  by (simp_all add: gps_call_defs)

lemma init_trace:
  assumes "freerunner_gps_init os env cbs w = Inr w'" "session_ok os w"
  shows "gw_trace w' = gw_trace w \<and> engine_of (gw_thread w') = engine_of (gw_thread w)"
proof (cases "gs_init (gw_state w) = STATE_QUIT")
  case True
  then have n: "gw_thread w = ThreadNone" using assms(2) by (simp add: session_ok_def)
  from True assms(1) obtain v where v: "gps_state_init os env w = Inr v" "w' = v\<lparr>gw_caller := CallerInit cbs\<rparr>"
    by (auto simp: freerunner_gps_init_def c_simps)
  from gps_state_init_cases [OF v(1) n] n show ?thesis
    by (elim disjE exE conjE) (simp_all add: v(2) gps_state_closed_def)
qed (use assms in \<open>auto simp: freerunner_gps_init_def\<close>)

lemma cleanup_trace:
  "freerunner_gps_cleanup os w = Inr w' \<Longrightarrow>
   gw_trace w' = gw_trace w \<and> engine_of (gw_thread w') = engine_of (gw_thread w)"
  by (auto simp: freerunner_gps_cleanup_def gps_state_done_def gps_state_closed_def send_cmd_def Let_def split: if_splits)

lemma exit_trace: "adds [GPS_STATUS_ENGINE_OFF] w (gps_thread_exit w)" "gw_thread (gps_thread_exit w) = ThreadExited"
  by (simp_all add: adds_def gps_thread_exit_def status_out_def Let_def)

lemma command_trace:
  assumes "gps_thread_command t b cmd w = Inr w'" "gw_thread w = ThreadRunning b"
  shows "\<exists>sts. adds sts w w' \<and> engine_path (engine_of (gw_thread w)) sts = Some (engine_of (gw_thread w'))"
proof (cases cmd)
  case CMD_QUIT
  with assms have "w' = gps_thread_exit w" by (simp add: gps_thread_command_def)
  with exit_trace [of w] assms(2) show ?thesis by (intro exI [of _ "[GPS_STATUS_ENGINE_OFF]"]) simp
next
  case CMD_START
  show ?thesis
  proof (cases "b")
    case True
    with CMD_START assms show ?thesis by (auto simp: gps_thread_command_def intro!: exI [of _ "[]"] adds_nothing)
  next
    case False
    let ?sts = "if t then [GPS_STATUS_SESSION_BEGIN] else [GPS_STATUS_SESSION_BEGIN, GPS_STATUS_ENGINE_OFF]"
    from CMD_START False assms have "adds ?sts w w' \<and> gw_thread w' = (if t then ThreadRunning True else ThreadExited)"
      by (auto simp: gps_thread_command_def gps_thread_defs c_simps Let_def adds_def)
    with False assms(2) show ?thesis by (intro exI [of _ ?sts]) auto
  qed
next
  case CMD_STOP
  with assms have "adds [] w w' \<and> engine_of (gw_thread w') = engine_of (gw_thread w)"
    by (cases b) (auto simp: gps_thread_command_def gps_thread_stop_def set_run_state_def c_simps intro!: adds_nothing)
  then show ?thesis by (intro exI [of _ "[]"]) simp
qed

lemma data_trace:
  assumes "session_ok os w" "gps_thread_data os buf w = Inr w'"
  shows "adds [] w w' \<and> gw_thread w' = gw_thread w"
proof -
  from thread_data_effect [OF assms(2) session_ok_reader [OF assms(1)]] obtain s outs where
    s: "w' = w\<lparr>gw_state := s, gw_trace := gw_trace w @ map Callback outs\<rparr>" "list_all real_report outs" by blast
  then show ?thesis by (intro conjI adds_reports [OF _ s(2)]) simp_all
qed

lemma report_trace:
  assumes "gps_timer_report i w = Inr w'"
  shows "adds [] w w' \<and> gw_thread w' = gw_thread w"
proof -
  from timer_report_effect [OF assms] obtain s outs where
    s: "w' = w\<lparr>gw_state := s, gw_trace := gw_trace w @ map Callback outs, gw_timers := (gw_timers w)[i := TimerUnlocked]\<rparr>"
    "list_all real_report outs" by blast
  then show ?thesis by (intro conjI adds_reports [OF _ s(2)]) simp_all
qed

lemma step_trace:
  assumes "session_ok os w" "gps_exec os a w = Some (Inr w')"
  shows "\<exists>sts. adds sts w w' \<and> engine_path (engine_of (gw_thread w)) sts = Some (engine_of (gw_thread w'))"
proof -
  have silent: ?thesis if "adds [] w w'" "engine_of (gw_thread w') = engine_of (gw_thread w)"
    using that by (intro exI [of _ "[]"]) simp
  show ?thesis
  proof (cases a)
    case (CallInit env cbs)
    with assms init_trace [of os env cbs w w'] show ?thesis by (intro silent adds_nothing) auto
  next
    case CallCleanup
    with assms(2) cleanup_trace [of os w w'] show ?thesis by (intro silent adds_nothing) auto
  next
    case CleanupJoined
    with assms(2) show ?thesis by (intro silent adds_nothing) (auto simp: gps_state_closed_def)
  next
    case InitReturns
    with assms(2) show ?thesis by (intro silent) (auto simp: adds_calls split: gps_caller.splits)
  next
    case ThreadBegins
    with assms(2) have "adds [GPS_STATUS_ENGINE_ON] w w'" "gw_thread w = ThreadStarting" "gw_thread w' = ThreadRunning False"
      by (auto simp: gps_thread_begin_def c_simps adds_def status_out_def)
    then show ?thesis by (intro exI [of _ "[GPS_STATUS_ENGINE_ON]"]) simp
  next
    case (ThreadCommand t)
    with assms(2) obtain b cmd cmds where c: "gw_thread w = ThreadRunning b"
      "gps_thread_command t b cmd (w\<lparr>gw_ctl := cmds\<rparr>) = Inr w'"
      by (auto split: gps_thread.splits list.splits)
    from command_trace [OF c(2)] c(1) show ?thesis by (simp add: adds_def)
  next
    case (ThreadData buf)
    with assms(2) data_trace [OF assms(1)] show ?thesis by (intro silent) auto
  next
    case ThreadHangup
    with assms(2) have "w' = gps_thread_exit w" "thread_running w" by auto
    with exit_trace [of w] show ?thesis
      by (intro exI [of _ "[GPS_STATUS_ENGINE_OFF]"]) (auto simp: thread_running_def split: gps_thread.splits)
  next
    case ThreadJoined
    with assms(2) have "adds [GPS_STATUS_SESSION_END] w w'" "gw_thread w = ThreadJoining" "gw_thread w' = ThreadRunning False"
      by (auto simp: gps_thread_joined_def adds_def status_out_def)
    then show ?thesis by (intro exI [of _ "[GPS_STATUS_SESSION_END]"]) simp
  next
    case (TimerReports i)
    with assms(2) report_trace show ?thesis by (intro silent) auto
  qed (rule silent; use assms(2) in \<open>auto simp: adds_calls adds_nothing gps_timer_defs\<close>)+
qed

text \<open>Everything reported so far, with the invariant it rests on.\<close>

definition reports_ok :: "'d gps_os \<Rightarrow> 'd gps_world \<Rightarrow> bool" where
  "reports_ok os w \<longleftrightarrow> session_ok os w \<and> list_all event_ok (gw_trace w)"

lemma reports_ok_step:
  assumes "os_ok os" "reports_ok os w" "gps_exec os a w = Some (Inr w')"
  shows "reports_ok os w'"
  using session_ok_step [OF assms(1) _ assms(3)] step_trace [OF _ assms(3)] assms(2)
  by (auto simp: reports_ok_def adds_def)

interpretation reports: gps_invariant reports_ok
proof unfold_locales
  show "reports_ok os (gps_boot os d)" if "os_ok os" for os :: "'a gps_os" and d
    using session_ok_boot [OF that] by (simp add: reports_ok_def)
qed (rule reports_ok_step)

text \<open>
  C22 (safety). In no interleaving is an empty fix handed to the framework: every location the callback has
  received carried at least one value.
\<close>

theorem no_empty_fix_reported:
  assumes "os_ok os" "gps_run os (gps_boot os d) acts w" "Callback (LocationCb l) \<in> set (gw_trace w)"
  shows "loc_flags l \<noteq> {}"
proof -
  have "list_all event_ok (gw_trace w)" using reports.reachable [OF assms(2,1)] by (simp add: reports_ok_def)
  with assms(3) have "event_ok (Callback (LocationCb l))" unfolding list_all_iff by blast
  then show ?thesis by simp
qed

text \<open>A session that has received its first fix.\<close>

definition rmc_line :: string where
  "rmc_line = ''$GPRMC,123519,A,4807.038,N,01131.000,E,022.4,084.4,230311*00'' @ [CHR 0x0A]"

definition fix_acts :: "session_act list" where
  "fix_acts = start_acts @ [ThreadData rmc_line, TimerReports 0]"

definition last_fix :: "'d gps_world \<Rightarrow> 'd GpsLocation option" where
  "last_fix w = (case last (gw_trace w) of Callback (LocationCb l) \<Rightarrow> Some l | _ \<Rightarrow> None)"

lemma last_fix_trace: "gw_trace w \<noteq> [] \<Longrightarrow> last_fix w = Some l \<Longrightarrow> Callback (LocationCb l) \<in> set (gw_trace w)"
proof -
  assume "gw_trace w \<noteq> []" "last_fix w = Some l"
  moreover from this(2) have "last (gw_trace w) = Callback (LocationCb l)"
    by (simp add: last_fix_def split: gps_event.splits gps_out.splits)
  ultimately show ?thesis by (metis last_in_set)
qed

lemma fix_to: "run_to fix_acts (\<lambda>w. gw_trace w \<noteq> [] \<and> last_fix w \<noteq> None)"
  by code_simp

theorem no_empty_fix_reported_witness:
  "\<exists>l. Callback (LocationCb l) \<in> set (gw_trace (world_after fix_acts)) \<and> loc_flags l \<noteq> {}"
proof -
  from run_to_world [OF fix_to] obtain l where l: "gw_trace (world_after fix_acts) \<noteq> []"
    "last_fix (world_after fix_acts) = Some l" by auto
  then have "Callback (LocationCb l) \<in> set (gw_trace (world_after fix_acts))" by (rule last_fix_trace)
  then show ?thesis
    using no_empty_fix_reported [OF text_os_ok run_to_world [OF fix_to, THEN conjunct1]] by blast
qed

section \<open>The status callbacks\<close>

definition keeps_callbacks :: "session_act \<Rightarrow> bool" where
  "keeps_callbacks a \<longleftrightarrow> (case a of CallInit _ _ \<Rightarrow> False | InitReturns \<Rightarrow> False | CallCleanup \<Rightarrow> False | CleanupJoined \<Rightarrow> False
     | _ \<Rightarrow> True)"

lemma status_cb_calls [simp]:
  "status_cb (gw_state (freerunner_gps_start w)) = status_cb (gw_state w)"
  "status_cb (gw_state (freerunner_gps_stop w)) = status_cb (gw_state w)"
  "status_cb (gw_state (freerunner_gps_set_fix_frequency f w)) = status_cb (gw_state w)"
  "status_cb (gw_state (freerunner_gps_inject_time w)) = status_cb (gw_state w)"
  "status_cb (gw_state (freerunner_gps_set_position_mode m f w)) = status_cb (gw_state w)"
  "status_cb (gw_state (freerunner_gps_delete_aiding_data w)) = status_cb (gw_state w)"
  by (simp_all add: gps_call_defs)

lemma status_cb_command:
  "gps_thread_command t b cmd w = Inr w' \<Longrightarrow> status_cb (gw_state w') = status_cb (gw_state w)"
  by (auto simp: gps_thread_command_def gps_thread_defs c_simps Let_def split: gps_cmd.splits if_splits)

lemma status_cb_step:
  assumes "session_ok os w" "gps_exec os a w = Some (Inr w')" "keeps_callbacks a"
  shows "status_cb (gw_state w') = status_cb (gw_state w)"
proof (cases a)
  case (ThreadCommand t)
  with assms(2) obtain b cmd cmds where "gps_thread_command t b cmd (w\<lparr>gw_ctl := cmds\<rparr>) = Inr w'"
    by (auto split: gps_thread.splits list.splits)
  from status_cb_command [OF this] show ?thesis by simp
next
  case (ThreadData buf)
  with assms(2) have "gps_thread_data os buf w = Inr w'" by simp
  from thread_data_effect [OF this session_ok_reader [OF assms(1)]] show ?thesis by (auto simp: same_session_def)
next
  case (TimerReports i)
  with assms(2) timer_report_effect [of i w w'] show ?thesis by auto
qed (use assms(2,3) in \<open>auto simp: keeps_callbacks_def gps_thread_begin_def gps_thread_exit_def
    gps_thread_joined_def gps_timer_defs c_simps Let_def\<close>)

text \<open>
  C20 (refinement). Seen through the status callback the library is an engine that is switched on and off,
  with sessions in between: whatever the threads do between two changes of the callbacks, the
  statuses reported are a path of that automaton, from the state of the GPS thread before to its
  state after.
\<close>

theorem status_protocol:
  assumes "os_ok os" "gps_run os (gps_boot os d) acts w" "status_cb (gw_state w)"
    and "gps_run os w acts' w'" "list_all keeps_callbacks acts'"
  shows "\<exists>sts. statuses (gw_trace w') = statuses (gw_trace w) @ sts \<and>
    engine_path (engine_of (gw_thread w)) sts = Some (engine_of (gw_thread w'))"
proof -
  have "session_ok os w" using session.reachable [OF assms(2,1)] .
  with assms(4) show ?thesis using assms(3,5)
  proof (induction rule: run.induct)
    case (run_step a w v as w')
    obtain sts where s: "adds sts w v" "engine_path (engine_of (gw_thread w)) sts = Some (engine_of (gw_thread v))"
      using step_trace [OF run_step.prems(1) run_step.hyps(1)] by blast
    have "session_ok os v" "status_cb (gw_state v)"
      using session_ok_step [OF assms(1) run_step.prems(1) run_step.hyps(1)]
        status_cb_step [OF run_step.prems(1) run_step.hyps(1)] run_step.prems(2,3) by auto
    from run_step.IH [OF this] run_step.prems(3) obtain sts' where t: "statuses (gw_trace w') = statuses (gw_trace v) @ sts'"
      "engine_path (engine_of (gw_thread v)) sts' = Some (engine_of (gw_thread w'))" by auto
    from s t run_step.prems(2) show ?case
      by (intro exI [of _ "sts @ sts'"]) (auto simp: adds_def engine_path_append)
  qed (simp add: exI [of _ "[]"])
qed

text \<open>From the start of the session: the receiver is unplugged.\<close>

theorem status_protocol_witness:
  "\<exists>w. gps_run text_os (world_after start_acts) [Tick, ThreadHangup] w \<and>
    (\<exists>sts. statuses (gw_trace w) = statuses (gw_trace (world_after start_acts)) @ sts \<and>
      engine_path (engine_of (gw_thread (world_after start_acts))) sts = Some (engine_of (gw_thread w)))"
proof -
  have "execs (gps_exec text_os) [Tick, ThreadHangup] (world_after start_acts) \<noteq> None"
    using started_state by (simp add: enabled_def thread_running_def)
  then obtain w where w: "gps_run text_os (world_after start_acts) [Tick, ThreadHangup] w"
    using run_exists [of "gps_exec text_os"] by blast
  have "list_all keeps_callbacks [Tick, ThreadHangup]" "status_cb (gw_state (world_after start_acts))"
    using started_state by (simp_all add: keeps_callbacks_def)
  with w status_protocol [OF text_os_ok started_run _ w] show ?thesis by blast
qed

section \<open>How long a stop takes\<close>

text \<open>The GPS thread waits for the timer, which still sleeps \<open>n\<close> seconds.\<close>

definition joining :: "nat \<Rightarrow> 'd gps_world \<Rightarrow> bool" where
  "joining n w \<longleftrightarrow> gw_thread w = ThreadJoining \<and> timer_is (TimerAsleep n) (gw_tmr w) w"

lemma joining_frame:
  "gw_thread w' = gw_thread w \<Longrightarrow> gw_timers w' = gw_timers w \<Longrightarrow> gw_tmr w' = gw_tmr w \<Longrightarrow> joining n w' = joining n w"
  by (simp add: joining_def timer_is_def)

lemma joining_update:
  "joining n w \<Longrightarrow> timer_is t i w \<Longrightarrow> t \<noteq> TimerAsleep n \<Longrightarrow> joining n (w\<lparr>gw_timers := (gw_timers w)[i := t']\<rparr>)"
  by (auto simp: joining_def timer_is_def nth_list_update)

lemma joining_calls:
  assumes "session_ok os w" "joining n w"
  shows "freerunner_gps_init os env cbs w = Inr w' \<Longrightarrow> joining n w'"
    "freerunner_gps_cleanup os w = Inr w' \<Longrightarrow> joining n w'"
  using assms by (auto simp: session_ok_def joining_def timer_is_def freerunner_gps_init_def freerunner_gps_cleanup_def
      gps_state_done_def send_cmd_def Let_def split: if_splits)

lemma timers_calls [simp]:
  "gw_timers (freerunner_gps_init_end cbs w) = gw_timers w" "gw_timers (freerunner_gps_start w) = gw_timers w"
  "gw_timers (freerunner_gps_stop w) = gw_timers w" "gw_timers (freerunner_gps_set_fix_frequency f w) = gw_timers w"
  "gw_timers (freerunner_gps_inject_time w) = gw_timers w"
  "gw_timers (freerunner_gps_set_position_mode m f w) = gw_timers w"
  "gw_timers (freerunner_gps_delete_aiding_data w) = gw_timers w"
  by (simp_all add: gps_call_defs)

lemma tmr_calls [simp]:
  "gw_tmr (freerunner_gps_init_end cbs w) = gw_tmr w" "gw_tmr (freerunner_gps_start w) = gw_tmr w"
  "gw_tmr (freerunner_gps_stop w) = gw_tmr w" "gw_tmr (freerunner_gps_set_fix_frequency f w) = gw_tmr w"
  "gw_tmr (freerunner_gps_inject_time w) = gw_tmr w"
  "gw_tmr (freerunner_gps_set_position_mode m f w) = gw_tmr w"
  "gw_tmr (freerunner_gps_delete_aiding_data w) = gw_tmr w"
  by (simp_all add: gps_call_defs)

lemma joining_step:
  assumes "session_ok os w" "joining (Suc n) w" "gps_exec os a w = Some (Inr w')"
  shows "joining (if a = Tick then n else Suc n) w'"
proof -
  have j: "gw_thread w = ThreadJoining" using assms(2) by (simp add: joining_def)
  show ?thesis
  proof (cases a)
    case (CallInit env cbs)
    with assms(3) joining_calls(1) [OF assms(1,2)] show ?thesis by auto
  next
    case CallCleanup
    with assms(3) joining_calls(2) [OF assms(1,2)] show ?thesis by auto
  next
    case (TimerReports i)
    with assms(3) have t: "timer_is TimerReady i w" "gps_timer_report i w = Inr w'" by auto
    from timer_report_effect [OF t(2)] obtain s tr where
      "w' = w\<lparr>gw_state := s, gw_trace := tr, gw_timers := (gw_timers w)[i := TimerUnlocked]\<rparr>" by blast
    with joining_update [OF assms(2) t(1), of TimerUnlocked] TimerReports show ?thesis
      by (simp add: joining_def timer_is_def)
  next
    case (TimerSleeps i)
    with assms(3) joining_update [OF assms(2), of TimerUnlocked i] show ?thesis by (auto simp: gps_timer_sleep_def)
  next
    case (TimerWakes i)
    with assms(3) joining_update [OF assms(2), of "TimerAsleep 0" i] show ?thesis by (auto simp: gps_timer_check_def)
  next
    case Tick
    with assms(2,3) show ?thesis by (auto simp: joining_def timer_is_def)
  qed (use assms(2,3) j in \<open>auto simp: joining_def timer_is_def thread_running_def split: gps_caller.splits\<close>)
qed

lemma joining_run:
  "gps_run os w acts w' \<Longrightarrow> os_ok os \<Longrightarrow> session_ok os w \<Longrightarrow> joining n w \<Longrightarrow> count_list acts Tick < n \<Longrightarrow>
   joining (n - count_list acts Tick) w'"
proof (induction arbitrary: n rule: run.induct)
  case (run_step a w v as w')
  then obtain m where m: "n = Suc m" by (cases n) auto
  have "session_ok os v" by (rule session_ok_step [OF run_step.prems(1,2) run_step.hyps(1)])
  moreover have "joining (if a = Tick then m else Suc m) v"
    using joining_step [OF run_step.prems(2) _ run_step.hyps(1)] run_step.prems(3) m by simp
  ultimately show ?case using run_step.IH [of "if a = Tick then m else Suc m"] run_step.prems(1,4) m
    by (auto split: if_splits)
qed simp

lemma ticks_run: "gps_run os w (replicate n Tick) (w\<lparr>gw_timers := map (timer_tick ^^ n) (gw_timers w)\<rparr>)"
proof (induction n arbitrary: w)
  case 0
  show ?case by (simp add: run_none)
next
  case (Suc n)
  have "gps_exec os Tick w = Some (Inr (w\<lparr>gw_timers := map timer_tick (gw_timers w)\<rparr>))" by simp
  from gps_step [OF this Suc] show ?case by (simp add: funpow_Suc_right comp_def del: funpow.simps)
qed

lemma tick_asleep: "(timer_tick ^^ k) (TimerAsleep (k + n)) = TimerAsleep n"
  by (induction k) (simp_all add: funpow_Suc_right del: funpow.simps(2))

lemma joining_ends:
  assumes "session_ok os w" "joining n w"
  shows "\<exists>w'. gps_run os w (replicate n Tick @ [TimerWakes (gw_tmr w), ThreadJoined]) w' \<and>
    gw_thread w' = ThreadRunning False"
proof -
  let ?i = "gw_tmr w"
  let ?w = "w\<lparr>gw_timers := map (timer_tick ^^ n) (gw_timers w)\<rparr>"
  have j: "gw_thread w = ThreadJoining" "?i < length (gw_timers w)" "gw_timers w ! ?i = TimerAsleep n"
    using assms(2) by (simp_all add: joining_def timer_is_def)
  have q: "gs_init (gw_state w) \<noteq> STATE_START" using assms(1) j(1) by (auto simp: session_ok_def)
  have s: "timer_is (TimerAsleep 0) ?i ?w" using j tick_asleep [of n 0] by (simp add: timer_is_def)
  let ?v = "gps_timer_check ?i ?w"
  have s1: "gps_exec os (TimerWakes ?i) ?w = Some (Inr ?v)" using s by (simp add: enabled_def)
  have s2: "gps_exec os ThreadJoined ?v = Some (Inr (gps_thread_joined ?v))"
    using j q by (simp add: enabled_def gps_timer_check_def timer_is_def)
  from run_append [OF ticks_run gps_step [OF s1 gps_step [OF s2 gps_none]]] show ?thesis by (auto simp: gps_thread_joined_def)
qed

text \<open>
  C23 (liveness). A stop takes exactly as long as the timer still sleeps: until those seconds have passed the
  GPS thread handles no command and no sentence, whatever else happens; when they have passed, the
  timer ends, the thread reports the end of the session and works again.
\<close>

theorem stop_takes_remaining_sleep:
  assumes "os_ok os" "gps_run os (gps_boot os d) acts w"
    and "gw_thread w = ThreadJoining" "timer_is (TimerAsleep n) (gw_tmr w) w"
  shows "(\<forall>acts' w'. gps_run os w acts' w' \<and> count_list acts' Tick < n \<longrightarrow> gw_thread w' = ThreadJoining) \<and>
    (\<exists>w'. gps_run os w (replicate n Tick @ [TimerWakes (gw_tmr w), ThreadJoined]) w' \<and>
      gw_thread w' = ThreadRunning False)"
proof -
  have ok: "session_ok os w" using session.reachable [OF assms(2,1)] .
  have j: "joining n w" using assms(3,4) by (simp add: joining_def)
  have "gw_thread w' = ThreadJoining" if "gps_run os w acts' w'" "count_list acts' Tick < n" for acts' w'
    using joining_run [OF that(1) assms(1) ok j that(2)] by (simp add: joining_def)
  with joining_ends [OF ok j] show ?thesis by blast
qed

text \<open>A session with a fix every two seconds, stopped while the timer sleeps.\<close>

definition stop_acts :: "session_act list" where
  "stop_acts = start_acts @ [CallSetFrequency 2, TimerReports 0, TimerSleeps 0, CallStop, ThreadCommand True]"

lemma stopping_to:
  "run_to stop_acts (\<lambda>w. gw_thread w = ThreadJoining \<and> timer_is (TimerAsleep 2) (gw_tmr w) w)"
  by code_simp

theorem stop_takes_remaining_sleep_witness:
  "(\<nexists>acts' w'. gps_run text_os (world_after stop_acts) acts' w' \<and> count_list acts' Tick < 2 \<and>
      gw_thread w' \<noteq> ThreadJoining) \<and>
    (\<exists>w'. gps_run text_os (world_after stop_acts)
        (replicate 2 Tick @ [TimerWakes (gw_tmr (world_after stop_acts)), ThreadJoined]) w' \<and>
      gw_thread w' = ThreadRunning False)"
proof -
  note r = run_to_world [OF stopping_to]
  show ?thesis
    using stop_takes_remaining_sleep [OF text_os_ok r [THEN conjunct1], of 2] r [THEN conjunct2] by blast
qed

section \<open>What goes wrong\<close>

lemma report_single_shot:
  assumes "loc_flags (fix_loc (gs_reader s)) \<noteq> {}" "fix_freq s = 0"
  shows "fix_freq (fst (report_svs (fst (report_fix s)))) = -1"
  using assms by (simp add: report_fix_def report_svs_def Let_def split: prod.splits)

text \<open>
  C40 (error). A single-shot session (a fix frequency of zero) cannot be stopped: when the fix has been
  reported the frequency becomes -1, the timer passes it to \<^verbatim>\<open>sleep\<close> as an unsigned number,
  and a stop waits until that sleep of more than 136 years is over.
\<close>

theorem single_shot_stop_blocks:
  assumes "os_ok os" "session_ok os w" "gw_thread w = ThreadRunning True" "timer_is TimerReady (gw_tmr w) w"
    and "loc_flags (fix_loc (gs_reader (gw_state w))) \<noteq> {}" "fix_freq (gw_state w) = 0"
    and "gw_ctl w = CMD_STOP # cmds" "WrError \<notin> set (dv_wr (gw_dev w))"
  shows "\<exists>v. gps_run os w [TimerReports (gw_tmr w), TimerSleeps (gw_tmr w), ThreadCommand t] v \<and>
    (\<forall>acts w'. gps_run os v acts w' \<and> count_list acts Tick < 4294967295 \<longrightarrow> gw_thread w' = ThreadJoining)"
proof -
  let ?i = "gw_tmr w"
  obtain a o1 where a: "report_fix (gw_state w) = (a, o1)" by fastforce
  obtain b o2 where b: "report_svs a = (b, o2)" by fastforce
  let ?w1 = "w\<lparr>gw_state := b, gw_trace := gw_trace w @ map Callback (o1 @ o2), gw_timers := (gw_timers w)[?i := TimerUnlocked]\<rparr>"
  let ?w2 = "gps_timer_sleep ?i ?w1"
  have i: "?i < length (gw_timers w)" using assms(4) by (simp add: timer_is_def)
  have f: "fix_freq b = -1" using report_single_shot [OF assms(5,6)] a b by simp
  have sem: "gw_sem w" using assms(2,3) by (simp add: session_ok_def thread_alive_def)
  have s1: "gps_exec os (TimerReports ?i) w = Some (Inr ?w1)"
    using assms(4) sem a b by (simp add: enabled_def gps_timer_report_def)
  have s2: "gps_exec os (TimerSleeps ?i) ?w1 = Some (Inr ?w2)"
    using i by (simp add: enabled_def timer_is_def)
  obtain d where d: "gps_dev_stop (gw_dev w) = Inr d" using dev_operations_succeed(2) [OF assms(8)] by blast
  let ?v = "set_run_state STATE_INIT (?w2\<lparr>gw_ctl := cmds, gw_dev := d, gw_thread := ThreadJoining\<rparr>)"
  have s3: "gps_exec os (ThreadCommand t) ?w2 = Some (Inr ?v)"
    using assms(3,7) d by (simp add: gps_timer_sleep_def gps_thread_command_def gps_thread_stop_def)
  have r: "gps_run os w [TimerReports ?i, TimerSleeps ?i, ThreadCommand t] ?v"
    by (rule gps_step [OF s1 gps_step [OF s2 gps_step [OF s3 gps_none]]])
  have ok: "session_ok os ?v" by (rule session.run_invariant_from [OF r assms(1,2)])
  have j: "joining 4294967295 ?v"
    using i f by (simp add: joining_def timer_is_def set_run_state_def gps_timer_sleep_def)
  have "gw_thread w' = ThreadJoining" if "gps_run os ?v acts w'" "count_list acts Tick < 4294967295" for acts w'
    using joining_run [OF that(1) assms(1) ok j that(2)] by (simp add: joining_def)
  with r show ?thesis by blast
qed

definition single_acts :: "session_act list" where
  "single_acts = start_acts @ [ThreadData rmc_line, CallStop]"

definition is_single :: "string gps_world \<Rightarrow> bool" where
  "is_single w \<longleftrightarrow> gw_thread w = ThreadRunning True \<and> timer_is TimerReady (gw_tmr w) w \<and>
     loc_flags (fix_loc (gs_reader (gw_state w))) \<noteq> {} \<and> fix_freq (gw_state w) = 0 \<and> gw_ctl w = [CMD_STOP] \<and>
     WrError \<notin> set (dv_wr (gw_dev w))"

lemma single_to: "run_to single_acts is_single"
  by code_simp

theorem single_shot_stop_blocks_witness:
  "\<exists>v. gps_run text_os (world_after single_acts)
      [TimerReports (gw_tmr (world_after single_acts)), TimerSleeps (gw_tmr (world_after single_acts)), ThreadCommand True] v \<and>
    (\<nexists>acts w'. gps_run text_os v acts w' \<and> count_list acts Tick < 4294967295 \<and> gw_thread w' \<noteq> ThreadJoining)"
proof -
  have "session_ok text_os (world_after single_acts)"
    using session.reachable [OF run_to_world [OF single_to, THEN conjunct1] text_os_ok] .
  from single_shot_stop_blocks [OF text_os_ok this, of "[]" True] run_to_world [OF single_to, THEN conjunct2]
  show ?thesis unfolding is_single_def by blast
qed

text \<open>
  When the initialisation fails after the port has been opened, because the control sockets or
  the GPS thread cannot be created, the library clears its state, the descriptor included, and the
  caller is told that all went well, while there is no GPS thread.
\<close>

theorem failed_init_reports_success:
  assumes "gw_caller w = CallerIdle" "gs_init (gw_state w) = STATE_QUIT" "gw_thread w = ThreadNone" "os_join_none os"
    and "ie_sem env" "ie_prop env \<noteq> []" "length (ie_prop env) < 251" "fst (open_fd (ie_open env))"
    and "ie_pair env = None \<or> \<not> ie_thread env"
  shows "\<exists>w'. gps_run os w [CallInit env cbs, InitReturns] w' \<and> gw_trace w' = gw_trace w @ [Returned 0] \<and>
    gw_thread w' = ThreadNone \<and> gs_init (gw_state w') = STATE_QUIT"
proof -
  let ?v = "(gps_state_closed os w)\<lparr>gw_caller := CallerInit cbs\<rparr>"
  obtain v where v: "gps_state_init os env w = Inr v" "v\<lparr>gw_caller := CallerInit cbs\<rparr> = ?v"
    using assms(3-9)
    by (cases "ie_pair env") (auto simp: gps_state_init_def gps_state_done_def gps_state_closed_def send_cmd_def Let_def)
  have s1: "gps_exec os (CallInit env cbs) w = Some (Inr ?v)"
    using assms(1,2) v by (simp add: enabled_def freerunner_gps_init_def)
  have s2: "gps_exec os InitReturns ?v = Some (Inr (freerunner_gps_init_end cbs ?v))" by simp
  from gps_step [OF s1 gps_step [OF s2 gps_none]] show ?thesis
    by (intro exI [of _ "freerunner_gps_init_end cbs ?v"])
      (simp add: freerunner_gps_init_end_def gps_returns_def gps_state_closed_def)
qed

theorem failed_init_reports_success_witness:
  "\<exists>w'. gps_run text_os (gps_boot text_os (quiet_dev [])) [CallInit (good_env\<lparr>ie_thread := False\<rparr>) all_cbs, InitReturns] w' \<and>
    gw_trace w' = gw_trace (gps_boot text_os (quiet_dev [])) @ [Returned 0] \<and>
    gw_thread w' = ThreadNone \<and> gs_init (gw_state w') = STATE_QUIT"
  by (rule failed_init_reports_success) (simp_all add: text_os_def good_env_def)

text \<open>
  Cleaning up during a session does not wait for the timer thread: the GPS thread leaves, the
  semaphore is destroyed, and the timer that is about to report uses it afterwards.
\<close>

theorem cleanup_leaves_timer:
  assumes "session_ok os w" "gw_caller w = CallerIdle" "gw_thread w = ThreadRunning True" "gw_ctl w = []"
    and "timer_is TimerReady i w"
  shows "\<exists>w'. gps_run os w [CallCleanup, ThreadCommand t, CleanupJoined] w' \<and>
    gps_exec os (TimerReports i) w' = Some (Inl Dangling)"
proof -
  have q: "gs_init (gw_state w) \<noteq> STATE_QUIT" "\<not> control0 (gw_state w) < 0"
    using assms(1,3) by (auto simp: session_ok_def thread_alive_def)
  let ?w1 = "w\<lparr>gw_ctl := [CMD_QUIT], gw_caller := CallerJoin\<rparr>"
  let ?w2 = "gps_thread_exit (?w1\<lparr>gw_ctl := []\<rparr>)"
  have s1: "gps_exec os CallCleanup w = Some (Inr ?w1)"
    using assms(2-4) q by (simp add: enabled_def freerunner_gps_cleanup_def gps_state_done_def send_cmd_def)
  have s2: "gps_exec os (ThreadCommand t) ?w1 = Some (Inr ?w2)"
    using assms(3) by (simp add: gps_thread_command_def)
  have s3: "gps_exec os CleanupJoined ?w2 = Some (Inr (gps_state_closed os ?w2))"
    by (simp add: enabled_def gps_thread_exit_def status_out_def Let_def)
  have "gps_exec os (TimerReports i) (gps_state_closed os ?w2) = Some (Inl Dangling)"
    using assms(5) by (simp add: enabled_def timer_is_def gps_timer_report_def gps_state_closed_def gps_thread_exit_def Let_def)
  with gps_step [OF s1 gps_step [OF s2 gps_step [OF s3 gps_none]]] show ?thesis by blast
qed

theorem cleanup_leaves_timer_witness:
  "\<exists>w'. gps_run text_os (world_after start_acts) [CallCleanup, ThreadCommand True, CleanupJoined] w' \<and>
    gps_exec text_os (TimerReports 0) w' = Some (Inl Dangling)"
  using started_state by (intro cleanup_leaves_timer [OF session.reachable [OF started_run text_os_ok]]) blast+

end
