(* ===== verification/Spec2Isabelle.thy ===== *)
theory Spec2Isabelle
  imports AtTime AtOverlap RilThreads RilBehaviour RilPolls RilRecovery GpsBehaviour
begin

text \<open>
  \<^bold>\<open>A verified model of the FW100 modem driver and the GPS library for Android\<close>

  The repository holds two native libraries that run beside Android's radio and location
  services.

  \<^item> \<^verbatim>\<open>src/fwril-100\<close> is a radio interface layer (RIL) for the FW100 CDMA modem. Android
    calls \<^verbatim>\<open>RIL_Init\<close> once and then \<^verbatim>\<open>onRequest\<close> for every request; the driver
    answers each with \<^verbatim>\<open>RIL_onRequestComplete\<close> and reports changes with
    \<^verbatim>\<open>RIL_onUnsolicitedResponse\<close>. It talks to the modem through an AT channel: a reader
    thread cuts the bytes of the port into lines, and a line is an intermediate or the final
    response of the command that is pending, or an unsolicited one. A main loop opens the port,
    polls network and signal, keeps the data connection and activates the modem.
  \<^item> \<^verbatim>\<open>src/gps/freerunner\<close> is a GPS library for a serial NMEA receiver: a GPS thread parses
    sentences and obeys the commands of the interface, a timer thread reports fixes while a
    session runs.

  \<^bold>\<open>Theories and sources\<close>

  \<^item> \<open>Prelude\<close>, \<open>CString\<close>, \<open>Misc\<close>: results of C code with their faults, 32-bit
    integers, the C string functions, \<^verbatim>\<open>misc.c\<close>; \<open>Runs\<close>: interleavings of atomic pieces of
    code and their invariants, shared by the three state machines below.
  \<^item> \<open>AtTok\<close>: \<^verbatim>\<open>at_tok.c\<close>. A token operation is a function of the cursor.
  \<^item> \<open>AtBuffer\<close>, \<open>AtFraming\<close>: the input half of \<^verbatim>\<open>atchannel.c\<close>
    (\<^verbatim>\<open>findNextEOL\<close>, \<^verbatim>\<open>readline\<close>) on an array with checked accesses, and its
    correctness against a specification of lines.
  \<^item> \<open>AtChannel\<close>, \<open>AtProtocol\<close>, \<open>AtCommands\<close>: the rest of \<^verbatim>\<open>atchannel.c\<close>
    (classification, \<^verbatim>\<open>processLine\<close>, the \<^verbatim>\<open>at_send_command\<close> family, the reader
    loop, the handshake), its invariant, and what it promises to its users; \<open>AtThreads\<close>: any number of
    command threads and the reader thread under \<^verbatim>\<open>s_commandmutex\<close> and \<^verbatim>\<open>s_commandcond\<close>, with
    \<open>AtSequential\<close>: commands that take turns, and \<open>AtOverlap\<close>: commands that do not;
    \<open>AtTime\<close>: its computations with times.
  \<^item> \<open>RilTypes\<close>: the session context of \<^verbatim>\<open>fw100-ril.h\<close> and the world of a handler;
    \<open>RilGps\<close>: \<^verbatim>\<open>fw100-ril-gps.c\<close>; \<open>RilCore\<close>: radio state and channel callbacks of
    \<^verbatim>\<open>fw100-ril.c\<close>; \<open>RilLogic\<close>: the program logic of the handlers;
    \<open>RilUtils\<close>: \<^verbatim>\<open>fw100-ril-utils.c\<close>; \<open>RilRqst\<close> and \<open>RilHandlers\<close>:
    \<^verbatim>\<open>fw100-ril-rqst.c\<close>; \<open>RilData\<close>: \<^verbatim>\<open>fw100-ril-data.c\<close> and
    \<^verbatim>\<open>fw100-ril-timer.c\<close>; \<open>RilInfo\<close>: \<^verbatim>\<open>rilinfo.c\<close>; \<open>RilMain\<close>: the dispatch
    and the handlers of \<^verbatim>\<open>fw100-ril.c\<close>; \<open>RilInit\<close>: its start and main loop.
  \<^item> \<open>RilThreads\<close>: the commands of the driver on the threads of the AT channel.
  \<^item> \<open>RilDispatch\<close>, \<open>RilInvariant\<close>, \<open>RilLiveness\<close>, \<open>RilRecovery\<close>, \<open>RilBehaviour\<close>,
    \<open>RilPolls\<close>: the theorems about the driver as a whole and about its operations.
  \<^item> \<open>GpsNmea\<close>: tokenizer, numbers and calendar of \<^verbatim>\<open>gps_freerunner.c\<close>;
    \<open>GpsReader\<close>: the sentence reader; \<open>GpsDevice\<close>: power switch and messages to the
    receiver; \<open>GpsSession\<close>: connection state, threads and interface as pieces of code and
    their interleavings; \<open>GpsBehaviour\<close>: what holds in every interleaving.

  \<^bold>\<open>State and operations\<close>

  The static variables of \<^verbatim>\<open>atchannel.c\<close> are the record \<open>at_chan\<close>, those of the driver
  \<open>fw100SessionCtx\<close> inside \<open>world\<close>, and \<^verbatim>\<open>GpsState\<close> of the GPS library the record of
  that name inside \<open>gps_world\<close>. An operation is a function of that state with the name of the
  C function. Every place where C has undefined behaviour is a branch of the result type
  \<open>c_result\<close>: a NULL pointer, an uninitialised variable, an index out of bounds, a dead stack
  array, a bad shift; waiting for an event that never comes is the value \<open>Blocked\<close>. What the
  other side does is an argument: the chunks the port delivers, the events between two commands,
  the answers of system calls, the bytes of the receiver.

  \<^bold>\<open>What is shown\<close>

  \<^item> AT channel: lines are delivered as sent and inside the buffer; every line between a command
    and its final response is classified without loss; each operation of the command family
    returns with an idle channel, and what its callers dereference is there. The locale
    \<open>at_port\<close> (with \<open>at_line_port\<close>) is the contract, interpreted by each operation; the
    handlers use it through \<open>at_sender\<close> and \<open>at_client\<close>. The locale
    \<open>token_reader\<close> bounds every loop that reads tokens.
  \<^item> Threads of the AT channel: with one command at a time, no interleaving of the command threads, the
    reader thread, spurious wake-ups, timeouts and closes faults or loses a wake-up, and when
    the threads take turns every sequence of commands is a run of the machine that calls the sequential
    definition of \<^verbatim>\<open>at_send_command_full\<close> once per turn: same results, channel and callbacks, and
    conversely. The commands of the driver's handlers rest on it (\<open>RilThreads\<close>).
    The mutex alone does not give one command at a time: waiting on the condition variable
    releases it, and what happens when two commands overlap is the subject of theorems of its own
    (the second command clears the first one's response; a response may reach the wrong thread).
  \<^item> Driver: a request is completed exactly once without a fault, for all requests but those
    listed in the theorem, whose faults and double completions are theorems of their own; after
    the modem is lost every regular request still completes; in every reachable state a closed
    channel means that the radio is unavailable, and the radio leaves the states OFF and
    UNAVAILABLE only by a power request; the session context stays valid (carrier, addresses, flags and the
    countdown of the activation); the registration poll reports exactly the changes, up to the
    comparison of beginnings; the loss of the modem is always
    noticed, and the main loop opens the port again at the first attempt at which the device
    opens. The invariants are interpretations of
    \<open>driver_inv\<close> (on \<open>callback_inv\<close> and, for system calls alone, \<open>system_inv\<close>), through
    \<open>radio_inv\<close> for conditions on the radio state and
    \<open>chan_inv\<close> for conditions on the channel, and of \<open>run_invariant\<close> for the runs of the driver.
  \<^item> GPS: a sentence is taken apart into its fields; dates are converted as the Gregorian
    calendar says; the reader never leaves its arrays but in two described cases; what RMC, GSA
    and GSV sentences mean; messages to the receiver carry their checksum; for every
    interleaving of the threads an invariant of the connection state (locale
    \<open>gps_invariant\<close>), the protocol of the status callbacks as a refinement of an engine, no
    empty report, and the exact duration of a stop.

  \<^bold>\<open>Bounds and termination\<close>

  All loops of the code are recursive functions on the input that drives them (bytes, events,
  answers of the operating system), with termination proofs where the recursion is not structural.
  The endless loops (the reader thread, the main loop, the threads of the GPS
  library) are given by their rounds: a run is a finite sequence of rounds, and theorems about
  runs hold for every such sequence. The loop of the reader thread also has a definition of its own,
  \<open>readerLoop\<close>, with fuel for the number of rounds; one more than the number of bytes to come is
  enough, and with it the theorem gives the result. Integers have the width of the 32-bit target.

  \<^bold>\<open>Parameters\<close>

  The arithmetic on \<^verbatim>\<open>double\<close> and \<^verbatim>\<open>strtod\<close> (record \<open>fpu\<close>), the size of Android's
  array of satellites, the numbers of RIL requests (\<open>code\<close> in \<open>RilInfo\<close>), the answers of
  system calls, whether \<^verbatim>\<open>pthread_join\<close> returns for a thread that does not exist. The
  only hypothesis on them is that the array of satellites has fewer than \<^verbatim>\<open>INT_MAX\<close>
  elements, and in \<open>RilInfo\<close> that request numbers are distinct and not zero.

  \<^bold>\<open>Not modelled\<close>

  \<^item> In the theories of the driver a command is the sequential \<^verbatim>\<open>at_send_command_full\<close>: they describe the
    schedules in which the commands of the RIL library's thread and of the main loop do not
    overlap, which the driver does not enforce, and the effects of callbacks during a command take place
    when it returns. \<open>RilThreads\<close> derives this view from the threads when the callbacks are
    those of unsolicited lines; the two callbacks that close the channel take effect at the end of
    the command in the model of the driver, and as a step of their own in \<open>AtThreads\<close>.
  \<^item> Logging (but for the texts printed into arrays of fixed size by the main loop, by \<^verbatim>\<open>onRequest\<close>
    (lemma \<open>request_log_fits\<close>) and for a message), the OMAP power ioctl of
    \<^verbatim>\<open>atchannel.c\<close>, terminal settings, \<^verbatim>\<open>epoll\<close>, and code that is compiled out.
  \<^item> The report of the GPS timer is one piece under \<^verbatim>\<open>fix_sem\<close>; the \<^verbatim>\<open>memset\<close> of
    \<^verbatim>\<open>gps_state_done\<close>, which does not take the semaphore, is a piece of its own and not divided
    into bytes. \<^verbatim>\<open>sleep\<close> lasts the seconds it is given: interruption by a signal and limits of
    a platform are left out.
  \<^item> \<^verbatim>\<open>java/\<close> (a patched class of the Android framework), \<^verbatim>\<open>etcs/\<close>, \<^verbatim>\<open>fusion/\<close>,
    \<^verbatim>\<open>images/\<close>, \<^verbatim>\<open>patch/\<close>, the install scripts and the prebuilt binaries: configuration
    and third-party code without logic of this program.
\<close>

end
